(* ===== verification/Prelude.thy ===== *)
theory Prelude
  imports Main "HOL-Library.Word" "HOL-Library.Product_Lexorder" "HOL-Library.List_Lexorder"
    "HOL-Library.Code_Target_Nat"
begin

text \<open>
  Shared ground of the development: the machine integers of the Rust sources, their
  \<open>checked_add\<close> and \<open>to_be_bytes\<close>, the collections of facts the component theories
  feed, and generic lemmas on lists and options.  Nothing in this theory is specific to
  the ledger; it models the part of the Rust standard library the sources use.
\<close>

section \<open>Machine integers\<close>

type_synonym u8 = "8 word"
type_synonym u16 = "16 word"
type_synonym u32 = "32 word"
type_synonym u64 = "64 word"
type_synonym u128 = "128 word"
type_synonym u256 = "256 word"

named_theorems wire_simps \<open>evaluation of byte encoders\<close>
named_theorems red_inv \<open>what a successful reducer step says about its states\<close>

text \<open>\<open>checked_add\<close> of the unsigned integer types: \<open>None\<close> on overflow.\<close>

definition checked_add :: "'a::len word \<Rightarrow> 'a word \<Rightarrow> 'a word option" where
  "checked_add a b = (if unat a + unat b < 2 ^ LENGTH('a) then Some (a + b) else None)"

lemma checked_add_Some:
  "checked_add a b = Some c \<Longrightarrow> unat c = unat a + unat b"
  by (auto simp: checked_add_def unat_word_ariths split: if_splits)

lemma checked_add_eq_Some_iff:
  "checked_add a b = Some c \<longleftrightarrow> unat c = unat a + unat b"
proof
  show "checked_add a b = Some c \<Longrightarrow> unat c = unat a + unat b"
    by (rule checked_add_Some)
next
  assume eq: "unat c = unat a + unat b"
  then have "unat a + unat b < 2 ^ LENGTH('a)"
    using unsigned_less [of c] by (metis eq unsigned_less)
  moreover from this have "unat (a + b) = unat c"
    using eq by (simp add: unat_word_ariths)
  ultimately show "checked_add a b = Some c"
    by (simp add: checked_add_def word_unat_eq_iff)
qed

lemma checked_add_one_less: "checked_add a 1 = Some c \<Longrightarrow> a < c"
proof -
  assume "checked_add a 1 = Some c"
  then have "unat c = unat a + unat (1 :: 'a::len word)" by (rule checked_add_Some)
  then show "a < c" by (simp add: word_less_nat_alt)
qed

lemma checked_add_one_unat: "checked_add (a :: 'a::len word) 1 = Some c \<Longrightarrow> unat c = Suc (unat a)"
  by (drule checked_add_Some) simp

text \<open>
  \<open>usize\<close> counters are natural numbers; their \<open>checked_add\<close> fails past the 64-bit range.
\<close>

definition usize_max :: nat where
  "usize_max = 18446744073709551615"

definition usize_add :: "nat \<Rightarrow> nat \<Rightarrow> nat option" where
  "usize_add a b = (if a + b \<le> usize_max then Some (a + b) else None)"

lemma usize_add_Some: "usize_add a b = Some c \<Longrightarrow> c = a + b"
  by (auto simp: usize_add_def split: if_splits)

text \<open>\<open>u32::try_from\<close> of a length.\<close>

definition u32_of_len :: "nat \<Rightarrow> u32 option" where
  "u32_of_len n = (if n < 2 ^ 32 then Some (of_nat n) else None)"

lemma u32_of_len_Some: "u32_of_len n = Some w \<Longrightarrow> unat w = n"
  by (auto simp: u32_of_len_def unat_of_nat split: if_splits)

section \<open>Big-endian bytes\<close>

definition be_bytes :: "'a::len word \<Rightarrow> u8 list" where
  "be_bytes w = map (\<lambda>i. ucast (drop_bit (8 * (LENGTH('a) div 8 - 1 - i)) w)) [0..<LENGTH('a) div 8]"

lemma length_be_bytes [simp]: "length (be_bytes (w :: 'a::len word)) = LENGTH('a) div 8"
  by (simp add: be_bytes_def)

lemma be_bytes_inject:
  fixes v w :: "'a::len word"
  assumes "8 dvd LENGTH('a)" and eq: "be_bytes v = be_bytes w"
  shows "v = w"
proof (rule bit_word_eqI)
  fix n assume n: "n < LENGTH('a)"
  define N where "N = LENGTH('a) div 8"
  have N: "LENGTH('a) = 8 * N" using assms(1) by (simp add: N_def)
  define i where "i = N - 1 - n div 8"
  have div: "n div 8 < N" using n N by (simp add: div_less_iff_less_mult)
  then have i: "i < N" and sub: "N - 1 - i = n div 8" by (auto simp: i_def)
  have "be_bytes v ! i = be_bytes w ! i" using eq by simp
  then have "(ucast (drop_bit (8 * (n div 8)) v) :: u8) = ucast (drop_bit (8 * (n div 8)) w)"
    using i sub by (simp add: be_bytes_def N_def)
  then have "bit (ucast (drop_bit (8 * (n div 8)) v) :: u8) (n mod 8)
           = bit (ucast (drop_bit (8 * (n div 8)) w) :: u8) (n mod 8)" by simp
  then show "bit v n = bit w n"
    using n by (simp add: bit_simps)
qed

lemmas be_bytes_inject_16 = be_bytes_inject [where 'a = 16, simplified]
lemmas be_bytes_inject_32 = be_bytes_inject [where 'a = 32, simplified]
lemmas be_bytes_inject_64 = be_bytes_inject [where 'a = 64, simplified]
lemmas be_bytes_inject_128 = be_bytes_inject [where 'a = 128, simplified]
lemmas be_bytes_inject_256 = be_bytes_inject [where 'a = 256, simplified]

section \<open>Lists and options\<close>

fun find_map :: "('a \<Rightarrow> 'b option) \<Rightarrow> 'a list \<Rightarrow> 'b option" where
  "find_map f [] = None"
| "find_map f (x # xs) = (case f x of Some y \<Rightarrow> Some y | None \<Rightarrow> find_map f xs)"

fun filter_map :: "('a \<Rightarrow> 'b option) \<Rightarrow> 'a list \<Rightarrow> 'b list" where
  "filter_map f [] = []"
| "filter_map f (x # xs) = (case f x of Some y \<Rightarrow> y # filter_map f xs | None \<Rightarrow> filter_map f xs)"

lemma find_map_Some: "find_map f xs = Some y \<Longrightarrow> \<exists>x \<in> set xs. f x = Some y"
  by (induction xs) (auto split: option.splits)

lemma find_map_None: "find_map f xs = None \<longleftrightarrow> (\<forall>x \<in> set xs. f x = None)"
  by (induction xs) (auto split: option.splits)

lemma set_filter_map: "set (filter_map f xs) = {y. \<exists>x \<in> set xs. f x = Some y}"
  by (induction xs) (auto split: option.splits)

lemma find_Some_set: "List.find P xs = Some x \<Longrightarrow> x \<in> set xs \<and> P x"
  by (auto simp: find_Some_iff)

lemma sorted_wrt_snoc: "sorted_wrt R (xs @ [x]) \<longleftrightarrow> sorted_wrt R xs \<and> (\<forall>y \<in> set xs. R y x)"
  by (simp add: sorted_wrt_append)

section \<open>Evaluation of words\<close>

text \<open>
  Code equations that reduce an integer modulo a power of two by walking its binary numeral,
  and that list the bytes of a word by repeated division, so that concrete words are cheap to
  evaluate.
\<close>

fun take_num :: "num \<Rightarrow> nat \<Rightarrow> int" where
  "take_num num.One n = (if n = 0 then 0 else 1)"
| "take_num (num.Bit0 m) n = (if n = 0 then 0 else 2 * take_num m (n - 1))"
| "take_num (num.Bit1 m) n = (if n = 0 then 0 else 2 * take_num m (n - 1) + 1)"

lemma take_num: "take_num m n = take_bit n (numeral m :: int)"
proof (induction m arbitrary: n)
  case One
  then show ?case by (cases n) simp_all
next
  case (Bit0 m)
  then show ?case by (cases n) (simp_all add: take_bit_Suc_bit0)
next
  case (Bit1 m)
  then show ?case by (cases n) (simp_all add: take_bit_Suc_bit1)
qed

definition take_int :: "nat \<Rightarrow> int \<Rightarrow> int" where
  "take_int n k = take_bit n k"

lemma take_int_code [code]:
  "take_int n 0 = 0"
  "take_int n (Int.Pos m) = take_num m n"
  "take_int n (Int.Neg m) = (- numeral m) mod 2 ^ n"
  by (simp_all add: take_int_def take_num take_bit_eq_mod)

lemma take_bit_int_eval [code]: "take_bit n k = take_int n k"
  by (simp add: take_int_def)

fun byte_list :: "nat \<Rightarrow> int \<Rightarrow> int list \<Rightarrow> int list" where
  "byte_list 0 k acc = acc"
| "byte_list (Suc n) k acc = byte_list n (k div 256) ((k mod 256) # acc)"

lemma byte_list_eq: "byte_list n k acc = map (\<lambda>i. k div 256 ^ (n - 1 - i) mod 256) [0..<n] @ acc"
proof (induction n arbitrary: k acc)
  case (Suc n)
  have "k div 256 div 256 ^ (n - 1 - i) = k div 256 ^ (n - i)" if "i < n" for i
  proof -
    have "n - i = Suc (n - 1 - i)" using that by simp
    then show ?thesis by (simp add: zdiv_zmult2_eq)
  qed
  then show ?case by (simp add: Suc.IH)
qed simp

lemma be_bytes_code [code]:
  "be_bytes (w :: 'a::len word) = map of_int (byte_list (LENGTH('a) div 8) (uint w) [])"
proof -
  have "ucast (drop_bit (8 * j) w) = (of_int (uint w div 256 ^ j mod 256) :: u8)" for j
  proof (rule bit_word_eqI)
    fix n assume n: "n < LENGTH(8)"
    have "(256 :: int) ^ j = 2 ^ (8 * j)" by (simp add: power_mult)
    then have "uint w div 256 ^ j mod 256 = take_bit 8 (drop_bit (8 * j) (uint w))"
      by (simp add: drop_bit_eq_div take_bit_eq_mod)
    with n show "bit (ucast (drop_bit (8 * j) w) :: u8) n = bit (of_int (uint w div 256 ^ j mod 256) :: u8) n"
      by (simp add: bit_simps)
  qed
  then show ?thesis by (simp add: be_bytes_def byte_list_eq)
qed

end
