(* ===== verification/BTree.thy ===== *)
theory BTree
  imports Prelude
begin

text \<open>
  The ordered containers of the Rust standard library as the sources use them:
  \<open>BTreeMap<K, V>\<close> is a key-sorted association list (a subtype, so that two maps with the
  same lookups are equal), \<open>BTreeSet<T>\<close> is the map into \<open>unit\<close>, as in the library.
  Iteration is in key order.  The locale \<open>ordered_table\<close> is the interface the ledger's
  tables rely on; the map interprets it here.
\<close>

section \<open>Sorted association lists\<close>

fun al_insert :: "'k::linorder \<Rightarrow> 'v \<Rightarrow> ('k \<times> 'v) list \<Rightarrow> ('k \<times> 'v) list" where
  "al_insert k v [] = [(k, v)]"
| "al_insert k v (p # r) =
     (if k < fst p then (k, v) # p # r
      else if k = fst p then (k, v) # r
      else p # al_insert k v r)"

abbreviation al_sorted :: "('k::linorder \<times> 'v) list \<Rightarrow> bool" where
  "al_sorted xs \<equiv> sorted_wrt (<) (map fst xs)"

lemma al_insert_keys: "set (map fst (al_insert k v xs)) = insert k (set (map fst xs))"
  by (induction xs) auto

lemma al_insert_sorted: "al_sorted xs \<Longrightarrow> al_sorted (al_insert k v xs)"
proof (induction xs)
  case (Cons p xs)
  have "set (map fst (al_insert k v xs)) = insert k (set (map fst xs))"
    by (rule al_insert_keys)
  with Cons show ?case by auto
qed simp

lemma map_of_al_insert: "map_of (al_insert k v xs) k' = (if k' = k then Some v else map_of xs k')"
  by (induction xs) auto

lemma al_sorted_distinct: "al_sorted xs \<Longrightarrow> distinct (map fst xs)"
  by (simp add: strict_sorted_iff)

lemma al_sorted_ext:
  assumes "al_sorted xs" "al_sorted ys" "map_of xs = map_of ys"
  shows "xs = ys"
proof -
  have dist: "distinct (map fst xs)" "distinct (map fst ys)"
    using assms(1,2) by (auto dest: al_sorted_distinct)
  have "set xs = set ys"
    using map_of_inject_set [OF dist] assms(3) by simp
  moreover have "sorted (map fst xs)" "sorted (map fst ys)"
    using assms(1,2) by (simp_all add: strict_sorted_iff)
  moreover have "inj_on fst (set xs \<union> set ys)"
    using dist calculation(1) by (simp add: distinct_map)
  ultimately show ?thesis
    using dist by (intro map_sorted_distinct_set_unique [of fst xs ys]) auto
qed

section \<open>\<open>BTreeMap\<close>\<close>

typedef (overloaded) ('k::linorder, 'v) btree_map = "{xs :: ('k \<times> 'v) list. al_sorted xs}"
  morphisms bm_iter Bm_abs
  by (rule exI [of _ "[]"]) simp

setup_lifting type_definition_btree_map

lift_definition bm_empty :: "('k::linorder, 'v) btree_map" is "[]" by simp

lift_definition bm_insert :: "'k::linorder \<Rightarrow> 'v \<Rightarrow> ('k, 'v) btree_map \<Rightarrow> ('k, 'v) btree_map"
  is al_insert by (rule al_insert_sorted)

lift_definition bm_get :: "('k::linorder, 'v) btree_map \<Rightarrow> 'k \<Rightarrow> 'v option" is map_of .

lift_definition bm_retain :: "('k::linorder \<Rightarrow> bool) \<Rightarrow> ('k, 'v) btree_map \<Rightarrow> ('k, 'v) btree_map"
  is "\<lambda>P. filter (\<lambda>p. P (fst p))"
  by (auto simp: sorted_wrt_map sorted_wrt_filter)

definition bm_keys :: "('k::linorder, 'v) btree_map \<Rightarrow> 'k list" where
  "bm_keys m = map fst (bm_iter m)"

definition bm_values :: "('k::linorder, 'v) btree_map \<Rightarrow> 'v list" where
  "bm_values m = map snd (bm_iter m)"

definition bm_len :: "('k::linorder, 'v) btree_map \<Rightarrow> nat" where
  "bm_len m = length (bm_iter m)"

definition bm_contains :: "('k::linorder, 'v) btree_map \<Rightarrow> 'k \<Rightarrow> bool" where
  "bm_contains m k \<longleftrightarrow> bm_get m k \<noteq> None"

definition bm_extend :: "('k::linorder, 'v) btree_map \<Rightarrow> ('k, 'v) btree_map \<Rightarrow> ('k, 'v) btree_map" where
  "bm_extend m n = fold (\<lambda>(k, v). bm_insert k v) (bm_iter n) m"

lemma bm_get_empty [simp]: "bm_get bm_empty k = None"
  by transfer simp

lemma bm_get_insert [simp]: "bm_get (bm_insert k v m) k' = (if k' = k then Some v else bm_get m k')"
  by transfer (rule map_of_al_insert)

lemma bm_get_retain: "bm_get (bm_retain P m) k = (if P k then bm_get m k else None)"
proof (transfer fixing: P k)
  show "map_of (filter (\<lambda>p. P (fst p)) m) k = (if P k then map_of m k else None)" for m
    by (induction m) auto
qed

lemma bm_iter_get: "(k, v) \<in> set (bm_iter m) \<longleftrightarrow> bm_get m k = Some v"
  by transfer (simp add: al_sorted_distinct)

lemma bm_iter_get': "p \<in> set (bm_iter m) \<longleftrightarrow> bm_get m (fst p) = Some (snd p)"
  using bm_iter_get [of "fst p" "snd p" m] by simp

lemma bm_ext: "(\<And>k. bm_get m k = bm_get n k) \<Longrightarrow> m = n"
  by transfer (auto intro: al_sorted_ext)

lemma bm_eq_iff: "m = n \<longleftrightarrow> (\<forall>k. bm_get m k = bm_get n k)"
  by (auto intro: bm_ext)

lemma bm_keys_sorted: "sorted_wrt (<) (bm_keys m)"
  unfolding bm_keys_def by transfer simp

lemma bm_keys_distinct: "distinct (bm_keys m)"
  using bm_keys_sorted by (auto simp: strict_sorted_iff)

lemma set_bm_keys: "set (bm_keys m) = dom (bm_get m)"
proof -
  have "k \<in> set (bm_keys m) \<longleftrightarrow> (\<exists>v. (k, v) \<in> set (bm_iter m))" for k
    by (force simp: bm_keys_def)
  then show ?thesis by (auto simp: bm_iter_get)
qed

lemma set_bm_values: "set (bm_values m) = ran (bm_get m)"
proof -
  have "v \<in> set (bm_values m) \<longleftrightarrow> (\<exists>k. (k, v) \<in> set (bm_iter m))" for v
    by (force simp: bm_values_def)
  then show ?thesis by (auto simp: bm_iter_get ran_def)
qed

lemma bm_contains_iff: "bm_contains m k \<longleftrightarrow> k \<in> dom (bm_get m)"
  by (auto simp: bm_contains_def)

lemma bm_iter_empty [simp]: "bm_iter bm_empty = []"
  by transfer simp

lemma bm_len_empty [simp]: "bm_len bm_empty = 0"
  by (simp add: bm_len_def)

lemma bm_keys_empty [simp]: "bm_keys bm_empty = []"
  by (simp add: bm_keys_def)

lemma bm_insert_over [simp]: "bm_insert k v (bm_insert k w m) = bm_insert k v m"
  by (rule bm_ext) simp

lemma bm_iter_insert [simp]: "bm_iter (bm_insert k v m) = al_insert k v (bm_iter m)"
  by transfer simp

lemma finite_dom_bm_get [simp]: "finite (dom (bm_get m))"
  by (metis List.finite_set set_bm_keys)

lemma bm_len_card: "bm_len m = card (dom (bm_get m))"
proof -
  have "bm_len m = length (bm_keys m)" by (simp add: bm_len_def bm_keys_def)
  also have "\<dots> = card (set (bm_keys m))" by (simp add: distinct_card bm_keys_distinct)
  finally show ?thesis by (simp add: set_bm_keys)
qed

lemma dom_bm_insert [simp]: "dom (bm_get (bm_insert k v m)) = insert k (dom (bm_get m))"
  by (auto simp: dom_def)

lemma bm_len_insert:
  "bm_len (bm_insert k v m) = (if bm_contains m k then bm_len m else Suc (bm_len m))"
  by (simp add: bm_len_card bm_contains_iff insert_absorb)

lemma bm_len_insert_le: "bm_len m \<le> bm_len (bm_insert k v m)"
  by (simp add: bm_len_insert)

lemma bm_get_fold_insert:
  "bm_get (fold (\<lambda>(k, v). bm_insert k v) ps m) k =
     (case map_of (rev ps) k of Some v \<Rightarrow> Some v | None \<Rightarrow> bm_get m k)"
  by (induction ps arbitrary: m) (auto simp: map_add_def split: option.splits)

lemma bm_get_extend:
  "bm_get (bm_extend m n) k = (case bm_get n k of Some v \<Rightarrow> Some v | None \<Rightarrow> bm_get m k)"
proof -
  have "distinct (map fst (bm_iter n))"
    using bm_keys_distinct by (simp add: bm_keys_def)
  then have "map_of (rev (bm_iter n)) = map_of (bm_iter n)"
    by (simp add: map_of_inject_set rev_map [symmetric])
  moreover have "map_of (bm_iter n) k = bm_get n k"
    by transfer simp
  ultimately show ?thesis
    by (simp add: bm_extend_def bm_get_fold_insert)
qed

text \<open>Maps are equal when their rows are; keys are compared by their order alone.\<close>

definition same_row :: "'k::linorder \<times> 'v \<Rightarrow> 'k \<times> 'v \<Rightarrow> bool" where
  "same_row p q \<longleftrightarrow> fst p \<le> fst q \<and> fst q \<le> fst p \<and> snd p = snd q"

lemma same_row_eq: "same_row p q \<longleftrightarrow> p = q"
  by (auto simp: same_row_def prod_eq_iff)

instantiation btree_map :: (linorder, equal) equal
begin
definition equal_btree_map :: "('a, 'b) btree_map \<Rightarrow> ('a, 'b) btree_map \<Rightarrow> bool" where
  "equal_btree_map m n \<longleftrightarrow> list_all2 same_row (bm_iter m) (bm_iter n)"
instance
proof
  have "same_row = ((=) :: 'a \<times> 'b \<Rightarrow> 'a \<times> 'b \<Rightarrow> bool)" by (intro ext) (rule same_row_eq)
  then show "HOL.equal m n \<longleftrightarrow> m = n" for m n :: "('a, 'b) btree_map"
    by (simp add: equal_btree_map_def bm_iter_inject list.rel_eq)
qed
end

section \<open>\<open>BTreeSet\<close>\<close>

type_synonym 'a btree_set = "('a, unit) btree_map"

definition bs_insert :: "'a::linorder \<Rightarrow> 'a btree_set \<Rightarrow> 'a btree_set" where
  "bs_insert x s = bm_insert x () s"

definition bs_contains :: "'a::linorder btree_set \<Rightarrow> 'a \<Rightarrow> bool" where
  "bs_contains s x \<longleftrightarrow> bm_get s x \<noteq> None"

definition bs_of_list :: "'a::linorder list \<Rightarrow> 'a btree_set" where
  "bs_of_list xs = fold bs_insert xs bm_empty"

definition bs_last :: "'a::linorder btree_set \<Rightarrow> 'a option" where
  "bs_last s = (if bm_keys s = [] then None else Some (last (bm_keys s)))"

definition bs_set :: "'a::linorder btree_set \<Rightarrow> 'a set" where
  "bs_set s = set (bm_keys s)"

lemma bs_contains_iff: "bs_contains s x \<longleftrightarrow> x \<in> bs_set s"
  by (auto simp: bs_contains_def bs_set_def set_bm_keys)

lemma bs_set_insert [simp]: "bs_set (bs_insert x s) = insert x (bs_set s)"
  by (simp add: bs_insert_def bs_set_def set_bm_keys)

lemma bs_set_empty [simp]: "bs_set bm_empty = {}"
  by (simp add: bs_set_def set_bm_keys dom_def)

lemma bs_set_fold_insert: "bs_set (fold bs_insert xs s) = set xs \<union> bs_set s"
  by (induction xs arbitrary: s) auto

lemma bs_set_of_list [simp]: "bs_set (bs_of_list xs) = set xs"
  by (simp add: bs_of_list_def bs_set_fold_insert)

lemma bs_set_retain: "bs_set (bm_retain P s) = {x \<in> bs_set s. P x}"
  by (auto simp: bs_set_def set_bm_keys bm_get_retain dom_def split: if_splits)

lemma bs_last_max:
  assumes "bs_last s = Some m"
  shows "m \<in> bs_set s \<and> (\<forall>x \<in> bs_set s. x \<le> m)"
proof -
  have ne: "bm_keys s \<noteq> []" and m: "m = last (bm_keys s)"
    using assms by (auto simp: bs_last_def split: if_splits)
  have "sorted (bm_keys s)"
    using bm_keys_sorted [of s] by (simp add: strict_sorted_iff)
  then have "x \<le> last (bm_keys s)" if "x \<in> set (bm_keys s)" for x
    using that by (cases "bm_keys s" rule: rev_cases) (auto simp: sorted_append)
  with ne m show ?thesis by (auto simp: bs_set_def)
qed

section \<open>The table interface\<close>

text \<open>
  What the ledger relies on of a table: point lookups after an insertion, and an iteration
  that lists exactly the bound keys in ascending order.
\<close>

locale ordered_table =
  fixes table_empty :: "'t"
    and table_get :: "'t \<Rightarrow> 'k::linorder \<Rightarrow> 'v option"
    and table_put :: "'k \<Rightarrow> 'v \<Rightarrow> 't \<Rightarrow> 't"
    and table_rows :: "'t \<Rightarrow> ('k \<times> 'v) list"
  assumes get_empty: "table_get table_empty k = None"
    and get_put: "table_get (table_put k v t) k' = (if k' = k then Some v else table_get t k')"
    and rows_get: "(k, v) \<in> set (table_rows t) \<longleftrightarrow> table_get t k = Some v"
    and rows_sorted: "al_sorted (table_rows t)"
begin

lemma map_of_rows: "map_of (table_rows t) k = table_get t k"
proof (cases "table_get t k")
  case None
  then show ?thesis by (auto simp: map_of_eq_None_iff rows_get)
next
  case (Some v)
  then show ?thesis
    using al_sorted_distinct [OF rows_sorted, of t] by (simp add: rows_get)
qed

lemma rows_unique:
  assumes "\<And>k. table_get t k = table_get u k"
  shows "table_rows t = table_rows u"
  using assms by (intro al_sorted_ext rows_sorted) (auto simp: map_of_rows)

lemma rows_put_put: "table_rows (table_put k v (table_put k w t)) = table_rows (table_put k v t)"
  by (rule rows_unique) (simp add: get_put)

lemma rows_put_commute:
  "k \<noteq> k' \<Longrightarrow> table_rows (table_put k v (table_put k' v' t)) = table_rows (table_put k' v' (table_put k v t))"
  by (rule rows_unique) (simp add: get_put)

lemma rows_put: "table_rows (table_put k v t) = al_insert k v (table_rows t)"
proof (rule al_sorted_ext)
  show "al_sorted (table_rows (table_put k v t))" by (rule rows_sorted)
  show "al_sorted (al_insert k v (table_rows t))" by (rule al_insert_sorted) (rule rows_sorted)
  show "map_of (table_rows (table_put k v t)) = map_of (al_insert k v (table_rows t))"
    by (auto simp: map_of_rows map_of_al_insert get_put)
qed

lemma rows_empty: "table_rows table_empty = []"
  by (metis get_empty map_of_eq_empty_iff map_of_rows)

end

interpretation btree: ordered_table bm_empty bm_get bm_insert bm_iter
proof (unfold_locales, goal_cases)
  case (4 t)
  show ?case using bm_keys_sorted [of t] by (simp add: bm_keys_def)
qed (simp_all add: bm_iter_get)

lemma bm_insert_commute: "k \<noteq> k' \<Longrightarrow> bm_insert k v (bm_insert k' v' m) = bm_insert k' v' (bm_insert k v m)"
  using btree.rows_put_commute by (metis bm_iter_inject)

end
