(* ===== verification/Vocabulary.thy ===== *)
theory Vocabulary
  imports BTree
begin

text \<open>
  The closed vocabularies of \<open>focal-model/src/vocabulary.rs\<close>.  The source's macro
  \<open>vocabulary!\<close> gives every enum explicit u16 discriminants, the list \<open>ALL\<close>, \<open>code\<close> and
  \<open>from_code\<close>; the serialized form of a value is its code.  Here each enum is a datatype
  with its \<open>_code\<close>, its \<open>_ALL\<close> and, arm by arm, its \<open>_from_code\<close>; the locale \<open>vocabulary\<close>
  states what the macro promises: the decoder accepts exactly the codes of the variants and
  returns the variant of the code.  It is interpreted on every enum.  The behavioural helpers of
  \<open>semantics_v1.rs\<close> that only read these enums follow.
\<close>

section \<open>The macro's contract\<close>

locale vocabulary =
  fixes code :: "'a \<Rightarrow> u16" and decode :: "u16 \<Rightarrow> 'a option" and all :: "'a list"
  assumes decode_iff: "decode c = Some x \<longleftrightarrow> code x = c"
    and all_complete: "x \<in> set all"
begin

lemma code_inject: "code x = code y \<longleftrightarrow> x = y"
  using decode_iff by (metis option.inject)

lemma decode_None: "decode c = None \<longleftrightarrow> c \<notin> range code"
  using decode_iff by (metis not_Some_eq rangeE rangeI)

lemma all_codes: "set (map code all) = range code"
  using all_complete by auto

end

section \<open>The enums\<close>

datatype object_kind =
  OK_Claim | OK_Testament | OK_Validation | OK_Artifact

definition object_kind_ALL :: "object_kind list" where
  "object_kind_ALL =
    [OK_Claim, OK_Testament, OK_Validation, OK_Artifact]"

primrec object_kind_code :: "object_kind \<Rightarrow> u16" where
  "object_kind_code OK_Claim = 1"
| "object_kind_code OK_Testament = 2"
| "object_kind_code OK_Validation = 3"
| "object_kind_code OK_Artifact = 4"

definition object_kind_from_code :: "u16 \<Rightarrow> object_kind option" where
  "object_kind_from_code c =
    (if c = 1 then Some OK_Claim
     else if c = 2 then Some OK_Testament
     else if c = 3 then Some OK_Validation
     else if c = 4 then Some OK_Artifact
     else None)"

datatype (plugins only: code size) claim_status =
  Generated | Posted | Received | Progressed | TestamentGenerated | TestamentAcknowledged
  | Validating | Satisfied | PostFailed | ReceiptFailed | TestamentGenerationFailed
  | ValidationIncomplete | ValidationFailed | ValidationErrored | Cancelled | Expired
  | Revoked | Superseded | DependencyFailed | Deadlocked

definition claim_status_ALL :: "claim_status list" where
  "claim_status_ALL =
    [Generated, Posted, Received, Progressed, TestamentGenerated, TestamentAcknowledged
     , Validating, Satisfied, PostFailed, ReceiptFailed, TestamentGenerationFailed
     , ValidationIncomplete, ValidationFailed, ValidationErrored, Cancelled, Expired, Revoked
     , Superseded, DependencyFailed, Deadlocked]"

primrec claim_status_code :: "claim_status \<Rightarrow> u16" where
  "claim_status_code Generated = 1"
| "claim_status_code Posted = 2"
| "claim_status_code Received = 3"
| "claim_status_code Progressed = 4"
| "claim_status_code TestamentGenerated = 5"
| "claim_status_code TestamentAcknowledged = 6"
| "claim_status_code Validating = 7"
| "claim_status_code Satisfied = 8"
| "claim_status_code PostFailed = 9"
| "claim_status_code ReceiptFailed = 10"
| "claim_status_code TestamentGenerationFailed = 11"
| "claim_status_code ValidationIncomplete = 12"
| "claim_status_code ValidationFailed = 13"
| "claim_status_code ValidationErrored = 14"
| "claim_status_code Cancelled = 15"
| "claim_status_code Expired = 16"
| "claim_status_code Revoked = 17"
| "claim_status_code Superseded = 18"
| "claim_status_code DependencyFailed = 19"
| "claim_status_code Deadlocked = 20"

definition claim_status_from_code :: "u16 \<Rightarrow> claim_status option" where
  "claim_status_from_code c =
    (if c = 1 then Some Generated
     else if c = 2 then Some Posted
     else if c = 3 then Some Received
     else if c = 4 then Some Progressed
     else if c = 5 then Some TestamentGenerated
     else if c = 6 then Some TestamentAcknowledged
     else if c = 7 then Some Validating
     else if c = 8 then Some Satisfied
     else if c = 9 then Some PostFailed
     else if c = 10 then Some ReceiptFailed
     else if c = 11 then Some TestamentGenerationFailed
     else if c = 12 then Some ValidationIncomplete
     else if c = 13 then Some ValidationFailed
     else if c = 14 then Some ValidationErrored
     else if c = 15 then Some Cancelled
     else if c = 16 then Some Expired
     else if c = 17 then Some Revoked
     else if c = 18 then Some Superseded
     else if c = 19 then Some DependencyFailed
     else if c = 20 then Some Deadlocked
     else None)"

datatype (plugins only: code size) action_type =
  AT_Work | AT_Consultation | AT_Challenge | AT_Feedback | AT_Approval | AT_Summon
  | AT_Handoff | AT_Evaluation | AT_Correction | AT_Teardown

definition action_type_ALL :: "action_type list" where
  "action_type_ALL =
    [AT_Work, AT_Consultation, AT_Challenge, AT_Feedback, AT_Approval, AT_Summon, AT_Handoff
     , AT_Evaluation, AT_Correction, AT_Teardown]"

primrec action_type_code :: "action_type \<Rightarrow> u16" where
  "action_type_code AT_Work = 1"
| "action_type_code AT_Consultation = 2"
| "action_type_code AT_Challenge = 3"
| "action_type_code AT_Feedback = 4"
| "action_type_code AT_Approval = 5"
| "action_type_code AT_Summon = 6"
| "action_type_code AT_Handoff = 7"
| "action_type_code AT_Evaluation = 8"
| "action_type_code AT_Correction = 9"
| "action_type_code AT_Teardown = 10"

definition action_type_from_code :: "u16 \<Rightarrow> action_type option" where
  "action_type_from_code c =
    (if c = 1 then Some AT_Work
     else if c = 2 then Some AT_Consultation
     else if c = 3 then Some AT_Challenge
     else if c = 4 then Some AT_Feedback
     else if c = 5 then Some AT_Approval
     else if c = 6 then Some AT_Summon
     else if c = 7 then Some AT_Handoff
     else if c = 8 then Some AT_Evaluation
     else if c = 9 then Some AT_Correction
     else if c = 10 then Some AT_Teardown
     else None)"

datatype scope_kind =
  SK_File | SK_Symbol | SK_Api | SK_TestSurface | SK_Component | SK_UxSurface

definition scope_kind_ALL :: "scope_kind list" where
  "scope_kind_ALL =
    [SK_File, SK_Symbol, SK_Api, SK_TestSurface, SK_Component, SK_UxSurface]"

primrec scope_kind_code :: "scope_kind \<Rightarrow> u16" where
  "scope_kind_code SK_File = 1"
| "scope_kind_code SK_Symbol = 2"
| "scope_kind_code SK_Api = 3"
| "scope_kind_code SK_TestSurface = 4"
| "scope_kind_code SK_Component = 5"
| "scope_kind_code SK_UxSurface = 6"

definition scope_kind_from_code :: "u16 \<Rightarrow> scope_kind option" where
  "scope_kind_from_code c =
    (if c = 1 then Some SK_File
     else if c = 2 then Some SK_Symbol
     else if c = 3 then Some SK_Api
     else if c = 4 then Some SK_TestSurface
     else if c = 5 then Some SK_Component
     else if c = 6 then Some SK_UxSurface
     else None)"

datatype (plugins only: code size) relation_kind =
  RK_Issuer | RK_Subject | RK_Evaluator | RK_ClaimAction | RK_Supersedes | RK_DependsOn
  | RK_Awaits | RK_CausedBy | RK_Refines | RK_ConflictsWith | RK_DerivedFrom | RK_Reviews
  | RK_Amends | RK_ContributedBy | RK_Invalidates

definition relation_kind_ALL :: "relation_kind list" where
  "relation_kind_ALL =
    [RK_Issuer, RK_Subject, RK_Evaluator, RK_ClaimAction, RK_Supersedes, RK_DependsOn, RK_Awaits
     , RK_CausedBy, RK_Refines, RK_ConflictsWith, RK_DerivedFrom, RK_Reviews, RK_Amends
     , RK_ContributedBy, RK_Invalidates]"

primrec relation_kind_code :: "relation_kind \<Rightarrow> u16" where
  "relation_kind_code RK_Issuer = 1"
| "relation_kind_code RK_Subject = 2"
| "relation_kind_code RK_Evaluator = 3"
| "relation_kind_code RK_ClaimAction = 4"
| "relation_kind_code RK_Supersedes = 5"
| "relation_kind_code RK_DependsOn = 6"
| "relation_kind_code RK_Awaits = 7"
| "relation_kind_code RK_CausedBy = 8"
| "relation_kind_code RK_Refines = 9"
| "relation_kind_code RK_ConflictsWith = 10"
| "relation_kind_code RK_DerivedFrom = 11"
| "relation_kind_code RK_Reviews = 12"
| "relation_kind_code RK_Amends = 13"
| "relation_kind_code RK_ContributedBy = 14"
| "relation_kind_code RK_Invalidates = 15"

definition relation_kind_from_code :: "u16 \<Rightarrow> relation_kind option" where
  "relation_kind_from_code c =
    (if c = 1 then Some RK_Issuer
     else if c = 2 then Some RK_Subject
     else if c = 3 then Some RK_Evaluator
     else if c = 4 then Some RK_ClaimAction
     else if c = 5 then Some RK_Supersedes
     else if c = 6 then Some RK_DependsOn
     else if c = 7 then Some RK_Awaits
     else if c = 8 then Some RK_CausedBy
     else if c = 9 then Some RK_Refines
     else if c = 10 then Some RK_ConflictsWith
     else if c = 11 then Some RK_DerivedFrom
     else if c = 12 then Some RK_Reviews
     else if c = 13 then Some RK_Amends
     else if c = 14 then Some RK_ContributedBy
     else if c = 15 then Some RK_Invalidates
     else None)"

datatype validation_kind =
  VK_Receipt | VK_Test | VK_Inspection | VK_Integration | VK_Contract | VK_Design
  | VK_Regression

definition validation_kind_ALL :: "validation_kind list" where
  "validation_kind_ALL =
    [VK_Receipt, VK_Test, VK_Inspection, VK_Integration, VK_Contract, VK_Design, VK_Regression]"

primrec validation_kind_code :: "validation_kind \<Rightarrow> u16" where
  "validation_kind_code VK_Receipt = 1"
| "validation_kind_code VK_Test = 2"
| "validation_kind_code VK_Inspection = 3"
| "validation_kind_code VK_Integration = 4"
| "validation_kind_code VK_Contract = 5"
| "validation_kind_code VK_Design = 6"
| "validation_kind_code VK_Regression = 7"

definition validation_kind_from_code :: "u16 \<Rightarrow> validation_kind option" where
  "validation_kind_from_code c =
    (if c = 1 then Some VK_Receipt
     else if c = 2 then Some VK_Test
     else if c = 3 then Some VK_Inspection
     else if c = 4 then Some VK_Integration
     else if c = 5 then Some VK_Contract
     else if c = 6 then Some VK_Design
     else if c = 7 then Some VK_Regression
     else None)"

datatype validation_phase =
  PH_Admission | PH_Increment | PH_WholeWork

definition validation_phase_ALL :: "validation_phase list" where
  "validation_phase_ALL =
    [PH_Admission, PH_Increment, PH_WholeWork]"

primrec validation_phase_code :: "validation_phase \<Rightarrow> u16" where
  "validation_phase_code PH_Admission = 1"
| "validation_phase_code PH_Increment = 2"
| "validation_phase_code PH_WholeWork = 3"

definition validation_phase_from_code :: "u16 \<Rightarrow> validation_phase option" where
  "validation_phase_from_code c =
    (if c = 1 then Some PH_Admission
     else if c = 2 then Some PH_Increment
     else if c = 3 then Some PH_WholeWork
     else None)"

datatype validation_mode =
  MO_Observe | MO_Required

definition validation_mode_ALL :: "validation_mode list" where
  "validation_mode_ALL =
    [MO_Observe, MO_Required]"

primrec validation_mode_code :: "validation_mode \<Rightarrow> u16" where
  "validation_mode_code MO_Observe = 1"
| "validation_mode_code MO_Required = 2"

definition validation_mode_from_code :: "u16 \<Rightarrow> validation_mode option" where
  "validation_mode_from_code c =
    (if c = 1 then Some MO_Observe
     else if c = 2 then Some MO_Required
     else None)"

datatype verdict_value =
  VV_Pass | VV_Fail | VV_Incomplete | VV_Error

definition verdict_value_ALL :: "verdict_value list" where
  "verdict_value_ALL =
    [VV_Pass, VV_Fail, VV_Incomplete, VV_Error]"

primrec verdict_value_code :: "verdict_value \<Rightarrow> u16" where
  "verdict_value_code VV_Pass = 1"
| "verdict_value_code VV_Fail = 2"
| "verdict_value_code VV_Incomplete = 3"
| "verdict_value_code VV_Error = 4"

definition verdict_value_from_code :: "u16 \<Rightarrow> verdict_value option" where
  "verdict_value_from_code c =
    (if c = 1 then Some VV_Pass
     else if c = 2 then Some VV_Fail
     else if c = 3 then Some VV_Incomplete
     else if c = 4 then Some VV_Error
     else None)"

datatype confidence =
  CF_Hint | CF_Tentative | CF_Committed | CF_Consensus

definition confidence_ALL :: "confidence list" where
  "confidence_ALL =
    [CF_Hint, CF_Tentative, CF_Committed, CF_Consensus]"

primrec confidence_code :: "confidence \<Rightarrow> u16" where
  "confidence_code CF_Hint = 1"
| "confidence_code CF_Tentative = 2"
| "confidence_code CF_Committed = 3"
| "confidence_code CF_Consensus = 4"

definition confidence_from_code :: "u16 \<Rightarrow> confidence option" where
  "confidence_from_code c =
    (if c = 1 then Some CF_Hint
     else if c = 2 then Some CF_Tentative
     else if c = 3 then Some CF_Committed
     else if c = 4 then Some CF_Consensus
     else None)"

datatype outcome_kind =
  OC_Complete | OC_Partial | OC_Refused | OC_Impossible | OC_Interrupted | OC_Failed

definition outcome_kind_ALL :: "outcome_kind list" where
  "outcome_kind_ALL =
    [OC_Complete, OC_Partial, OC_Refused, OC_Impossible, OC_Interrupted, OC_Failed]"

primrec outcome_kind_code :: "outcome_kind \<Rightarrow> u16" where
  "outcome_kind_code OC_Complete = 1"
| "outcome_kind_code OC_Partial = 2"
| "outcome_kind_code OC_Refused = 3"
| "outcome_kind_code OC_Impossible = 4"
| "outcome_kind_code OC_Interrupted = 5"
| "outcome_kind_code OC_Failed = 6"

definition outcome_kind_from_code :: "u16 \<Rightarrow> outcome_kind option" where
  "outcome_kind_from_code c =
    (if c = 1 then Some OC_Complete
     else if c = 2 then Some OC_Partial
     else if c = 3 then Some OC_Refused
     else if c = 4 then Some OC_Impossible
     else if c = 5 then Some OC_Interrupted
     else if c = 6 then Some OC_Failed
     else None)"

datatype content_class =
  CC_Document | CC_Evidence | CC_Checkpoint

definition content_class_ALL :: "content_class list" where
  "content_class_ALL =
    [CC_Document, CC_Evidence, CC_Checkpoint]"

primrec content_class_code :: "content_class \<Rightarrow> u16" where
  "content_class_code CC_Document = 1"
| "content_class_code CC_Evidence = 2"
| "content_class_code CC_Checkpoint = 3"

definition content_class_from_code :: "u16 \<Rightarrow> content_class option" where
  "content_class_from_code c =
    (if c = 1 then Some CC_Document
     else if c = 2 then Some CC_Evidence
     else if c = 3 then Some CC_Checkpoint
     else None)"

datatype disposition =
  DP_Retryable | DP_Terminal

definition disposition_ALL :: "disposition list" where
  "disposition_ALL =
    [DP_Retryable, DP_Terminal]"

primrec disposition_code :: "disposition \<Rightarrow> u16" where
  "disposition_code DP_Retryable = 1"
| "disposition_code DP_Terminal = 2"

definition disposition_from_code :: "u16 \<Rightarrow> disposition option" where
  "disposition_from_code c =
    (if c = 1 then Some DP_Retryable
     else if c = 2 then Some DP_Terminal
     else None)"

datatype (plugins only: code size) error_code =
  EC_InvalidSchema | EC_InvalidNamespace | EC_InvalidRelation | EC_InvalidCause
  | EC_WrongActor | EC_StaleReceipt | EC_StaleEvaluator | EC_IdempotencyConflict
  | EC_RequestHistoryExpired | EC_RequestEpochNotAdmitted | EC_UnknownObject
  | EC_ObjectIdConflict | EC_Capacity | EC_EvidenceNotDurable | EC_ConflictingVerdict
  | EC_DeadlineNotDue | EC_RevisionConflict | EC_InvalidManifest | EC_InvalidTransition
  | EC_UnsupportedSchema | EC_EmptyRequiredSet | EC_InvalidEpoch | EC_PartialDuplicateBatch
  | EC_MissingDeadline | EC_InvalidHandler | EC_StandingDenied

definition error_code_ALL :: "error_code list" where
  "error_code_ALL =
    [EC_InvalidSchema, EC_InvalidNamespace, EC_InvalidRelation, EC_InvalidCause, EC_WrongActor
     , EC_StaleReceipt, EC_StaleEvaluator, EC_IdempotencyConflict, EC_RequestHistoryExpired
     , EC_RequestEpochNotAdmitted, EC_UnknownObject, EC_ObjectIdConflict, EC_Capacity
     , EC_EvidenceNotDurable, EC_ConflictingVerdict, EC_DeadlineNotDue, EC_RevisionConflict
     , EC_InvalidManifest, EC_InvalidTransition, EC_UnsupportedSchema, EC_EmptyRequiredSet
     , EC_InvalidEpoch, EC_PartialDuplicateBatch, EC_MissingDeadline, EC_InvalidHandler
     , EC_StandingDenied]"

primrec error_code_code :: "error_code \<Rightarrow> u16" where
  "error_code_code EC_InvalidSchema = 1"
| "error_code_code EC_InvalidNamespace = 2"
| "error_code_code EC_InvalidRelation = 3"
| "error_code_code EC_InvalidCause = 4"
| "error_code_code EC_WrongActor = 5"
| "error_code_code EC_StaleReceipt = 6"
| "error_code_code EC_StaleEvaluator = 7"
| "error_code_code EC_IdempotencyConflict = 8"
| "error_code_code EC_RequestHistoryExpired = 9"
| "error_code_code EC_RequestEpochNotAdmitted = 10"
| "error_code_code EC_UnknownObject = 11"
| "error_code_code EC_ObjectIdConflict = 12"
| "error_code_code EC_Capacity = 13"
| "error_code_code EC_EvidenceNotDurable = 14"
| "error_code_code EC_ConflictingVerdict = 15"
| "error_code_code EC_DeadlineNotDue = 16"
| "error_code_code EC_RevisionConflict = 17"
| "error_code_code EC_InvalidManifest = 18"
| "error_code_code EC_InvalidTransition = 19"
| "error_code_code EC_UnsupportedSchema = 20"
| "error_code_code EC_EmptyRequiredSet = 21"
| "error_code_code EC_InvalidEpoch = 22"
| "error_code_code EC_PartialDuplicateBatch = 23"
| "error_code_code EC_MissingDeadline = 24"
| "error_code_code EC_InvalidHandler = 25"
| "error_code_code EC_StandingDenied = 26"

definition error_code_from_code :: "u16 \<Rightarrow> error_code option" where
  "error_code_from_code c =
    (if c = 1 then Some EC_InvalidSchema
     else if c = 2 then Some EC_InvalidNamespace
     else if c = 3 then Some EC_InvalidRelation
     else if c = 4 then Some EC_InvalidCause
     else if c = 5 then Some EC_WrongActor
     else if c = 6 then Some EC_StaleReceipt
     else if c = 7 then Some EC_StaleEvaluator
     else if c = 8 then Some EC_IdempotencyConflict
     else if c = 9 then Some EC_RequestHistoryExpired
     else if c = 10 then Some EC_RequestEpochNotAdmitted
     else if c = 11 then Some EC_UnknownObject
     else if c = 12 then Some EC_ObjectIdConflict
     else if c = 13 then Some EC_Capacity
     else if c = 14 then Some EC_EvidenceNotDurable
     else if c = 15 then Some EC_ConflictingVerdict
     else if c = 16 then Some EC_DeadlineNotDue
     else if c = 17 then Some EC_RevisionConflict
     else if c = 18 then Some EC_InvalidManifest
     else if c = 19 then Some EC_InvalidTransition
     else if c = 20 then Some EC_UnsupportedSchema
     else if c = 21 then Some EC_EmptyRequiredSet
     else if c = 22 then Some EC_InvalidEpoch
     else if c = 23 then Some EC_PartialDuplicateBatch
     else if c = 24 then Some EC_MissingDeadline
     else if c = 25 then Some EC_InvalidHandler
     else if c = 26 then Some EC_StandingDenied
     else None)"

datatype (plugins only: code size) lifecycle_action =
  LA_Generated | LA_Posted | LA_Received | LA_Progressed | LA_TestamentGenerated
  | LA_TestamentAcknowledged | LA_Validating | LA_Satisfied | LA_PostFailed | LA_ReceiptFailed
  | LA_TestamentGenerationFailed | LA_ValidationIncomplete | LA_ValidationFailed
  | LA_ValidationErrored | LA_Cancelled | LA_Expired | LA_Revoked | LA_Superseded
  | LA_DependencyFailed | LA_Deadlocked | LA_EvidenceOpened | LA_ArtifactAttached
  | LA_ValidationScheduled | LA_ValidationVerdict | LA_ReceiptAdopted | LA_ScopeRegistered
  | LA_ScopeReleased | LA_ScopeRebound | LA_EpochAdmitted | LA_EpochFloorAdvanced
  | LA_LocalCompleted

definition lifecycle_action_ALL :: "lifecycle_action list" where
  "lifecycle_action_ALL =
    [LA_Generated, LA_Posted, LA_Received, LA_Progressed, LA_TestamentGenerated
     , LA_TestamentAcknowledged, LA_Validating, LA_Satisfied, LA_PostFailed, LA_ReceiptFailed
     , LA_TestamentGenerationFailed, LA_ValidationIncomplete, LA_ValidationFailed
     , LA_ValidationErrored, LA_Cancelled, LA_Expired, LA_Revoked, LA_Superseded
     , LA_DependencyFailed, LA_Deadlocked, LA_EvidenceOpened, LA_ArtifactAttached
     , LA_ValidationScheduled, LA_ValidationVerdict, LA_ReceiptAdopted, LA_ScopeRegistered
     , LA_ScopeReleased, LA_ScopeRebound, LA_EpochAdmitted, LA_EpochFloorAdvanced
     , LA_LocalCompleted]"

primrec lifecycle_action_code :: "lifecycle_action \<Rightarrow> u16" where
  "lifecycle_action_code LA_Generated = 1"
| "lifecycle_action_code LA_Posted = 2"
| "lifecycle_action_code LA_Received = 3"
| "lifecycle_action_code LA_Progressed = 4"
| "lifecycle_action_code LA_TestamentGenerated = 5"
| "lifecycle_action_code LA_TestamentAcknowledged = 6"
| "lifecycle_action_code LA_Validating = 7"
| "lifecycle_action_code LA_Satisfied = 8"
| "lifecycle_action_code LA_PostFailed = 9"
| "lifecycle_action_code LA_ReceiptFailed = 10"
| "lifecycle_action_code LA_TestamentGenerationFailed = 11"
| "lifecycle_action_code LA_ValidationIncomplete = 12"
| "lifecycle_action_code LA_ValidationFailed = 13"
| "lifecycle_action_code LA_ValidationErrored = 14"
| "lifecycle_action_code LA_Cancelled = 15"
| "lifecycle_action_code LA_Expired = 16"
| "lifecycle_action_code LA_Revoked = 17"
| "lifecycle_action_code LA_Superseded = 18"
| "lifecycle_action_code LA_DependencyFailed = 19"
| "lifecycle_action_code LA_Deadlocked = 20"
| "lifecycle_action_code LA_EvidenceOpened = 21"
| "lifecycle_action_code LA_ArtifactAttached = 22"
| "lifecycle_action_code LA_ValidationScheduled = 23"
| "lifecycle_action_code LA_ValidationVerdict = 24"
| "lifecycle_action_code LA_ReceiptAdopted = 25"
| "lifecycle_action_code LA_ScopeRegistered = 26"
| "lifecycle_action_code LA_ScopeReleased = 27"
| "lifecycle_action_code LA_ScopeRebound = 28"
| "lifecycle_action_code LA_EpochAdmitted = 29"
| "lifecycle_action_code LA_EpochFloorAdvanced = 30"
| "lifecycle_action_code LA_LocalCompleted = 31"

definition lifecycle_action_from_code :: "u16 \<Rightarrow> lifecycle_action option" where
  "lifecycle_action_from_code c =
    (if c = 1 then Some LA_Generated
     else if c = 2 then Some LA_Posted
     else if c = 3 then Some LA_Received
     else if c = 4 then Some LA_Progressed
     else if c = 5 then Some LA_TestamentGenerated
     else if c = 6 then Some LA_TestamentAcknowledged
     else if c = 7 then Some LA_Validating
     else if c = 8 then Some LA_Satisfied
     else if c = 9 then Some LA_PostFailed
     else if c = 10 then Some LA_ReceiptFailed
     else if c = 11 then Some LA_TestamentGenerationFailed
     else if c = 12 then Some LA_ValidationIncomplete
     else if c = 13 then Some LA_ValidationFailed
     else if c = 14 then Some LA_ValidationErrored
     else if c = 15 then Some LA_Cancelled
     else if c = 16 then Some LA_Expired
     else if c = 17 then Some LA_Revoked
     else if c = 18 then Some LA_Superseded
     else if c = 19 then Some LA_DependencyFailed
     else if c = 20 then Some LA_Deadlocked
     else if c = 21 then Some LA_EvidenceOpened
     else if c = 22 then Some LA_ArtifactAttached
     else if c = 23 then Some LA_ValidationScheduled
     else if c = 24 then Some LA_ValidationVerdict
     else if c = 25 then Some LA_ReceiptAdopted
     else if c = 26 then Some LA_ScopeRegistered
     else if c = 27 then Some LA_ScopeReleased
     else if c = 28 then Some LA_ScopeRebound
     else if c = 29 then Some LA_EpochAdmitted
     else if c = 30 then Some LA_EpochFloorAdvanced
     else if c = 31 then Some LA_LocalCompleted
     else None)"

section \<open>Every enum keeps the contract\<close>

interpretation object_kind_vocab: vocabulary object_kind_code object_kind_from_code object_kind_ALL
proof
  show "object_kind_from_code c = Some x \<longleftrightarrow> object_kind_code x = c" for c x
    by (cases x) (auto simp: object_kind_from_code_def split: if_splits)
  show "x \<in> set object_kind_ALL" for x by (cases x) (simp_all add: object_kind_ALL_def)
qed

interpretation claim_status_vocab: vocabulary claim_status_code claim_status_from_code claim_status_ALL
proof
  show "claim_status_from_code c = Some x \<longleftrightarrow> claim_status_code x = c" for c x
    by (cases x) (auto simp: claim_status_from_code_def split: if_splits)
  show "x \<in> set claim_status_ALL" for x by (cases x) (simp_all add: claim_status_ALL_def)
qed

interpretation action_type_vocab: vocabulary action_type_code action_type_from_code action_type_ALL
proof
  show "action_type_from_code c = Some x \<longleftrightarrow> action_type_code x = c" for c x
    by (cases x) (auto simp: action_type_from_code_def split: if_splits)
  show "x \<in> set action_type_ALL" for x by (cases x) (simp_all add: action_type_ALL_def)
qed

interpretation scope_kind_vocab: vocabulary scope_kind_code scope_kind_from_code scope_kind_ALL
proof
  show "scope_kind_from_code c = Some x \<longleftrightarrow> scope_kind_code x = c" for c x
    by (cases x) (auto simp: scope_kind_from_code_def split: if_splits)
  show "x \<in> set scope_kind_ALL" for x by (cases x) (simp_all add: scope_kind_ALL_def)
qed

interpretation relation_kind_vocab: vocabulary relation_kind_code relation_kind_from_code relation_kind_ALL
proof
  show "relation_kind_from_code c = Some x \<longleftrightarrow> relation_kind_code x = c" for c x
    by (cases x) (auto simp: relation_kind_from_code_def split: if_splits)
  show "x \<in> set relation_kind_ALL" for x by (cases x) (simp_all add: relation_kind_ALL_def)
qed

interpretation validation_kind_vocab: vocabulary validation_kind_code validation_kind_from_code validation_kind_ALL
proof
  show "validation_kind_from_code c = Some x \<longleftrightarrow> validation_kind_code x = c" for c x
    by (cases x) (auto simp: validation_kind_from_code_def split: if_splits)
  show "x \<in> set validation_kind_ALL" for x by (cases x) (simp_all add: validation_kind_ALL_def)
qed

interpretation validation_phase_vocab: vocabulary validation_phase_code validation_phase_from_code validation_phase_ALL
proof
  show "validation_phase_from_code c = Some x \<longleftrightarrow> validation_phase_code x = c" for c x
    by (cases x) (auto simp: validation_phase_from_code_def split: if_splits)
  show "x \<in> set validation_phase_ALL" for x by (cases x) (simp_all add: validation_phase_ALL_def)
qed

interpretation validation_mode_vocab: vocabulary validation_mode_code validation_mode_from_code validation_mode_ALL
proof
  show "validation_mode_from_code c = Some x \<longleftrightarrow> validation_mode_code x = c" for c x
    by (cases x) (auto simp: validation_mode_from_code_def split: if_splits)
  show "x \<in> set validation_mode_ALL" for x by (cases x) (simp_all add: validation_mode_ALL_def)
qed

interpretation verdict_value_vocab: vocabulary verdict_value_code verdict_value_from_code verdict_value_ALL
proof
  show "verdict_value_from_code c = Some x \<longleftrightarrow> verdict_value_code x = c" for c x
    by (cases x) (auto simp: verdict_value_from_code_def split: if_splits)
  show "x \<in> set verdict_value_ALL" for x by (cases x) (simp_all add: verdict_value_ALL_def)
qed

interpretation confidence_vocab: vocabulary confidence_code confidence_from_code confidence_ALL
proof
  show "confidence_from_code c = Some x \<longleftrightarrow> confidence_code x = c" for c x
    by (cases x) (auto simp: confidence_from_code_def split: if_splits)
  show "x \<in> set confidence_ALL" for x by (cases x) (simp_all add: confidence_ALL_def)
qed

interpretation outcome_kind_vocab: vocabulary outcome_kind_code outcome_kind_from_code outcome_kind_ALL
proof
  show "outcome_kind_from_code c = Some x \<longleftrightarrow> outcome_kind_code x = c" for c x
    by (cases x) (auto simp: outcome_kind_from_code_def split: if_splits)
  show "x \<in> set outcome_kind_ALL" for x by (cases x) (simp_all add: outcome_kind_ALL_def)
qed

interpretation content_class_vocab: vocabulary content_class_code content_class_from_code content_class_ALL
proof
  show "content_class_from_code c = Some x \<longleftrightarrow> content_class_code x = c" for c x
    by (cases x) (auto simp: content_class_from_code_def split: if_splits)
  show "x \<in> set content_class_ALL" for x by (cases x) (simp_all add: content_class_ALL_def)
qed

interpretation disposition_vocab: vocabulary disposition_code disposition_from_code disposition_ALL
proof
  show "disposition_from_code c = Some x \<longleftrightarrow> disposition_code x = c" for c x
    by (cases x) (auto simp: disposition_from_code_def split: if_splits)
  show "x \<in> set disposition_ALL" for x by (cases x) (simp_all add: disposition_ALL_def)
qed

interpretation error_code_vocab: vocabulary error_code_code error_code_from_code error_code_ALL
proof
  show "error_code_from_code c = Some x \<longleftrightarrow> error_code_code x = c" for c x
    by (cases x) (auto simp: error_code_from_code_def split: if_splits)
  show "x \<in> set error_code_ALL" for x by (cases x) (simp_all add: error_code_ALL_def)
qed

interpretation lifecycle_action_vocab: vocabulary lifecycle_action_code lifecycle_action_from_code lifecycle_action_ALL
proof
  show "lifecycle_action_from_code c = Some x \<longleftrightarrow> lifecycle_action_code x = c" for c x
    by (cases x) (auto simp: lifecycle_action_from_code_def split: if_splits)
  show "x \<in> set lifecycle_action_ALL" for x by (cases x) (simp_all add: lifecycle_action_ALL_def)
qed

lemmas vocabulary_code_inject =
  object_kind_vocab.code_inject
  claim_status_vocab.code_inject
  action_type_vocab.code_inject
  scope_kind_vocab.code_inject
  relation_kind_vocab.code_inject
  validation_kind_vocab.code_inject
  validation_phase_vocab.code_inject
  validation_mode_vocab.code_inject
  verdict_value_vocab.code_inject
  confidence_vocab.code_inject
  outcome_kind_vocab.code_inject
  content_class_vocab.code_inject
  disposition_vocab.code_inject
  error_code_vocab.code_inject
  lifecycle_action_vocab.code_inject

section \<open>Orders of the enums used as keys\<close>

instantiation object_kind :: linorder
begin
definition less_eq_object_kind :: "object_kind \<Rightarrow> object_kind \<Rightarrow> bool" where
  "less_eq_object_kind a b \<longleftrightarrow> object_kind_code a \<le> object_kind_code b"
definition less_object_kind :: "object_kind \<Rightarrow> object_kind \<Rightarrow> bool" where
  "less_object_kind a b \<longleftrightarrow> object_kind_code a < object_kind_code b"
instance
  by standard (auto simp: less_eq_object_kind_def less_object_kind_def
      dest: order_antisym simp: object_kind_vocab.code_inject)
end

section \<open>Behaviour of the enums\<close>

text \<open>\<open>ClaimStatus::is_terminal\<close>, \<open>is_active\<close> and the action each status is reported as.\<close>

primrec is_terminal :: "claim_status \<Rightarrow> bool" where
  "is_terminal Generated = False"
| "is_terminal Posted = False"
| "is_terminal Received = False"
| "is_terminal Progressed = False"
| "is_terminal TestamentGenerated = False"
| "is_terminal TestamentAcknowledged = False"
| "is_terminal Validating = False"
| "is_terminal Satisfied = True"
| "is_terminal PostFailed = True"
| "is_terminal ReceiptFailed = True"
| "is_terminal TestamentGenerationFailed = True"
| "is_terminal ValidationIncomplete = True"
| "is_terminal ValidationFailed = True"
| "is_terminal ValidationErrored = True"
| "is_terminal Cancelled = True"
| "is_terminal Expired = True"
| "is_terminal Revoked = True"
| "is_terminal Superseded = True"
| "is_terminal DependencyFailed = True"
| "is_terminal Deadlocked = True"

definition is_active :: "claim_status \<Rightarrow> bool" where
  "is_active s \<longleftrightarrow> \<not> is_terminal s"

primrec lifecycle_action_of :: "claim_status \<Rightarrow> lifecycle_action" where
  "lifecycle_action_of Generated = LA_Generated"
| "lifecycle_action_of Posted = LA_Posted"
| "lifecycle_action_of Received = LA_Received"
| "lifecycle_action_of Progressed = LA_Progressed"
| "lifecycle_action_of TestamentGenerated = LA_TestamentGenerated"
| "lifecycle_action_of TestamentAcknowledged = LA_TestamentAcknowledged"
| "lifecycle_action_of Validating = LA_Validating"
| "lifecycle_action_of Satisfied = LA_Satisfied"
| "lifecycle_action_of PostFailed = LA_PostFailed"
| "lifecycle_action_of ReceiptFailed = LA_ReceiptFailed"
| "lifecycle_action_of TestamentGenerationFailed = LA_TestamentGenerationFailed"
| "lifecycle_action_of ValidationIncomplete = LA_ValidationIncomplete"
| "lifecycle_action_of ValidationFailed = LA_ValidationFailed"
| "lifecycle_action_of ValidationErrored = LA_ValidationErrored"
| "lifecycle_action_of Cancelled = LA_Cancelled"
| "lifecycle_action_of Expired = LA_Expired"
| "lifecycle_action_of Revoked = LA_Revoked"
| "lifecycle_action_of Superseded = LA_Superseded"
| "lifecycle_action_of DependencyFailed = LA_DependencyFailed"
| "lifecycle_action_of Deadlocked = LA_Deadlocked"

primrec severity :: "verdict_value \<Rightarrow> nat" where
  "severity VV_Pass = 0"
| "severity VV_Incomplete = 1"
| "severity VV_Error = 2"
| "severity VV_Fail = 3"

definition is_override :: "relation_kind \<Rightarrow> bool" where
  "is_override k \<longleftrightarrow> k = RK_Supersedes \<or> k = RK_Invalidates"

lemma severity_inject: "severity a = severity b \<longleftrightarrow> a = b"
  by (cases a; cases b) simp_all

lemma lifecycle_action_of_code:
  "lifecycle_action_code (lifecycle_action_of s) = claim_status_code s"
  by (cases s) simp_all

end
