(* ===== verification/Objects.thy ===== *)
theory Objects
  imports Vocabulary "HOL-Library.Char_ord"
begin

text \<open>
  Identities and authored objects: \<open>focal-model/src/ids.rs\<close>, \<open>objects.rs\<close> and the content
  helpers of \<open>semantics_v1.rs\<close>.  A 16-byte identifier is a \<open>u128\<close> and a 32-byte hash a
  \<open>u256\<close>: the sources compare them bytewise, which is the big-endian numeric order, and
  test them for zero; they do no arithmetic on them.  A Rust \<open>String\<close> is the list of its
  UTF-8 bytes.  Structs whose derived \<open>Ord\<close> the sources rely on as map or set keys are
  datatypes with a lexicographic order; the others are records.
\<close>

section \<open>Identifiers\<close>

type_synonym tenant_id = u128
type_synonym session_id = u128
type_synonym object_id = u128
type_synonym claim_id = u128
type_synonym testament_id = u128
type_synonym validation_id = u128
type_synonym artifact_id = u128
type_synonym participant_id = u128
type_synonym request_id = u128
type_synonym receipt_id = u128
type_synonym evidence_set_id = u128
type_synonym occurrence_id = u128
type_synonym root_command_id = u128
type_synonym monitor_id = u128
type_synonym validator_id = u128
type_synonym timer_id = u128
type_synonym content_domain_id = u128

type_synonym session_seq = u64
type_synonym request_epoch = u64
type_synonym object_revision = u64

type_synonym content_hash = u256

definition is_zero :: "u128 \<Rightarrow> bool" where
  "is_zero i \<longleftrightarrow> i = 0"

datatype ledger_id = LedgerId (lid_tenant: tenant_id) (lid_session: session_id)

record delta_id =
  did_ledger :: ledger_id
  did_sequence :: session_seq
  did_ordinal :: u32

datatype object_ref = ObjectRef (or_ledger: ledger_id) (or_kind: object_kind) (or_id: object_id)

definition object_ref_claim :: "ledger_id \<Rightarrow> claim_id \<Rightarrow> object_ref" where
  "object_ref_claim l i = ObjectRef l OK_Claim i"

section \<open>Authored content\<close>

datatype cause = CauseRoot root_command_id | CauseClaim claim_id

datatype artifact_ref = ArtifactRef (ar_id: artifact_id) (ar_hash: content_hash)

datatype relation_target =
    TParticipant participant_id
  | TObject object_ref
  | TAction action_type
  | TRoot root_command_id
  | TEvidence artifact_ref

datatype relation = Relation (rel_kind: relation_kind) (rel_target: relation_target)

datatype scope = Scope (sc_kind: scope_kind) (sc_key: string)

datatype requirement_ref =
  RequirementRef (rq_id: validation_id) (rq_specification: content_hash)

record deadline =
  dl_timer :: timer_id
  dl_generation :: u64
  dl_at :: u64

datatype receipt_fence = ReceiptFence (fence_receipt: receipt_id) (fence_epoch: u64)

text \<open>Derived orders: the fields in declaration order, variants in declaration order.\<close>

primrec ledger_key :: "ledger_id \<Rightarrow> nat list" where
  "ledger_key (LedgerId t s) = [unat t, unat s]"

primrec object_ref_key :: "object_ref \<Rightarrow> nat list" where
  "object_ref_key (ObjectRef l k i) = ledger_key l @ [unat (object_kind_code k), unat i]"

primrec relation_target_key :: "relation_target \<Rightarrow> nat list" where
  "relation_target_key (TParticipant p) = [0, unat p]"
| "relation_target_key (TObject r) = 1 # object_ref_key r"
| "relation_target_key (TAction a) = [2, unat (action_type_code a)]"
| "relation_target_key (TRoot r) = [3, unat r]"
| "relation_target_key (TEvidence a) = [4, unat (ar_id a), unat (ar_hash a)]"

primrec relation_key :: "relation \<Rightarrow> nat list" where
  "relation_key (Relation k t) = unat (relation_kind_code k) # relation_target_key t"

primrec scope_sort_key :: "scope \<Rightarrow> nat list" where
  "scope_sort_key (Scope k s) = unat (scope_kind_code k) # map of_char s"

lemma ledger_key_inject: "ledger_key a = ledger_key b \<longleftrightarrow> a = b"
  by (cases a; cases b) (simp add: word_unat_eq_iff)

lemma object_ref_key_inject: "object_ref_key a = object_ref_key b \<longleftrightarrow> a = b"
  by (cases a; cases b)
    (auto simp: word_unat_eq_iff [symmetric] object_kind_vocab.code_inject ledger_key_inject
      append_eq_append_conv)

lemma relation_target_key_inject: "relation_target_key a = relation_target_key b \<longleftrightarrow> a = b"
  by (cases a; cases b)
    (auto simp: word_unat_eq_iff [symmetric] action_type_vocab.code_inject object_ref_key_inject
      intro: artifact_ref.expand)

lemma relation_key_inject: "relation_key a = relation_key b \<longleftrightarrow> a = b"
  by (cases a; cases b)
    (auto simp: word_unat_eq_iff [symmetric] relation_kind_vocab.code_inject
      relation_target_key_inject)

lemma scope_sort_key_inject: "scope_sort_key a = scope_sort_key b \<longleftrightarrow> a = b"
proof -
  have "inj (of_char :: char \<Rightarrow> nat)" by (auto intro: injI simp: of_char_eq_iff)
  then show ?thesis
    by (cases a; cases b)
      (auto simp: word_unat_eq_iff [symmetric] scope_kind_vocab.code_inject inj_map_eq_map)
qed

instantiation object_ref :: linorder
begin
definition less_eq_object_ref :: "object_ref \<Rightarrow> object_ref \<Rightarrow> bool" where
  "less_eq_object_ref a b \<longleftrightarrow> object_ref_key a \<le> object_ref_key b"
definition less_object_ref :: "object_ref \<Rightarrow> object_ref \<Rightarrow> bool" where
  "less_object_ref a b \<longleftrightarrow> object_ref_key a < object_ref_key b"
instance
  by standard (auto simp: less_eq_object_ref_def less_object_ref_def object_ref_key_inject
      dest: order_antisym)
end

instantiation relation :: linorder
begin
definition less_eq_relation :: "relation \<Rightarrow> relation \<Rightarrow> bool" where
  "less_eq_relation a b \<longleftrightarrow> relation_key a \<le> relation_key b"
definition less_relation :: "relation \<Rightarrow> relation \<Rightarrow> bool" where
  "less_relation a b \<longleftrightarrow> relation_key a < relation_key b"
instance
  by standard (auto simp: less_eq_relation_def less_relation_def relation_key_inject
      dest: order_antisym)
end

instantiation scope :: linorder
begin
definition less_eq_scope :: "scope \<Rightarrow> scope \<Rightarrow> bool" where
  "less_eq_scope a b \<longleftrightarrow> scope_sort_key a \<le> scope_sort_key b"
definition less_scope :: "scope \<Rightarrow> scope \<Rightarrow> bool" where
  "less_scope a b \<longleftrightarrow> scope_sort_key a < scope_sort_key b"
instance
  by standard (auto simp: less_eq_scope_def less_scope_def scope_sort_key_inject
      dest: order_antisym)
end

record claim_content =
  cc_ledger :: ledger_id
  cc_schema :: u16
  cc_occurrence :: occurrence_id
  cc_description :: string
  cc_relations :: "relation btree_set"
  cc_scopes :: "scope btree_set"
  cc_requirements :: "requirement_ref list"
  cc_deadline :: "deadline option"

record handler_ref =
  hd_id :: validator_id
  hd_version :: content_hash
  hd_agentic :: bool

record validation_content =
  vc_ledger :: ledger_id
  vc_schema :: u16
  vc_claim :: claim_id
  vc_kind :: validation_kind
  vc_phase :: validation_phase
  vc_mode :: validation_mode
  vc_description :: string
  vc_quality_bar :: "string option"
  vc_evaluator :: participant_id
  vc_handlers :: "handler_ref list"
  vc_evidence_schemas :: "content_hash btree_set"
  vc_contributed_by :: "participant_id btree_set"
  vc_policy_revision :: u64

record new_validation =
  nv_id :: validation_id
  nv_content :: validation_content

record new_claim =
  nc_id :: claim_id
  nc_content :: claim_content
  nc_validations :: "new_validation list"

record content_ref =
  cr_domain :: content_domain_id
  cr_root :: content_hash
  cr_length :: u64
  cr_class :: content_class

datatype artifact_payload = Inline "u8 list" | Content content_ref

record artifact_content =
  ac_ledger :: ledger_id
  ac_schema :: u16
  ac_kind :: string
  ac_schema_hash :: content_hash
  ac_metadata :: "u8 list"
  ac_payload :: artifact_payload
  ac_producer :: participant_id
  ac_receipt :: "receipt_fence option"
  ac_inputs :: "object_ref btree_set"
  ac_visibility :: "string btree_set"

record new_artifact =
  na_id :: artifact_id
  na_content :: artifact_content

record evidence_attestation =
  ea_descriptor_hash :: content_hash
  ea_custody_revision :: u64
  ea_durable :: bool
  ea_schema_valid :: bool

record testament_content =
  tc_ledger :: ledger_id
  tc_schema :: u16
  tc_claim :: claim_id
  tc_receipt :: receipt_fence
  tc_evidence_set :: evidence_set_id
  tc_artifacts :: "artifact_ref list"
  tc_summary :: string
  tc_confidence :: confidence
  tc_outcome :: outcome_kind

section \<open>Lifecycles and stored objects\<close>

record receipt =
  rc_fence :: receipt_fence
  rc_holder :: participant_id
  rc_acquired :: session_seq

datatype status_fact = StatusFact (sf_status: claim_status) (sf_sequence: session_seq)

record claim_lifecycle =
  cl_status :: claim_status
  cl_revision :: object_revision
  cl_created :: session_seq
  cl_history :: "status_fact list"
  cl_receipt :: "receipt option"
  cl_evidence_set :: "evidence_set_id option"
  cl_testament :: "testament_id option"
  cl_local_complete :: bool
  cl_released :: bool
  cl_terminal_witness :: "claim_id option"

record testament_lifecycle =
  tl_created :: session_seq
  tl_acknowledged :: "session_seq option"

record artifact_lifecycle =
  al_created :: session_seq
  al_custody_revision :: u64

record validation_lifecycle =
  vl_created :: session_seq
  vl_latest_epoch :: u64

record ('c, 'l) stored_object =
  so_content :: 'c
  so_content_hash :: content_hash
  so_lifecycle :: 'l

definition stored_new :: "'c \<Rightarrow> content_hash \<Rightarrow> 'l \<Rightarrow> ('c, 'l) stored_object" where
  "stored_new c h l = \<lparr>so_content = c, so_content_hash = h, so_lifecycle = l\<rparr>"

definition with_lifecycle :: "('c, 'l) stored_object \<Rightarrow> 'l \<Rightarrow> ('c, 'l) stored_object" where
  "with_lifecycle o' l = \<lparr>so_content = so_content o', so_content_hash = so_content_hash o', so_lifecycle = l\<rparr>"

lemma stored_new_simps [simp]:
  "so_content (stored_new c h l) = c"
  "so_content_hash (stored_new c h l) = h"
  "so_lifecycle (stored_new c h l) = l"
  by (simp_all add: stored_new_def)

lemma with_lifecycle_simps [simp]:
  "so_content (with_lifecycle x l) = so_content x"
  "so_content_hash (with_lifecycle x l) = so_content_hash x"
  "so_lifecycle (with_lifecycle x l) = l"
  by (simp_all add: with_lifecycle_def)

type_synonym claim = "(claim_content, claim_lifecycle) stored_object"
type_synonym testament = "(testament_content, testament_lifecycle) stored_object"
type_synonym validation = "(validation_content, validation_lifecycle) stored_object"
type_synonym artifact = "(artifact_content, artifact_lifecycle) stored_object"

datatype validation_run_id =
  ValidationRunId (ri_validation: validation_id) (ri_target_hash: content_hash)
    (ri_phase: validation_phase) (ri_epoch: u64)

primrec run_key :: "validation_run_id \<Rightarrow> nat list" where
  "run_key (ValidationRunId v h p e) = [unat v, unat h, unat (validation_phase_code p), unat e]"

lemma run_key_inject: "run_key a = run_key b \<longleftrightarrow> a = b"
  by (cases a; cases b) (auto simp: word_unat_eq_iff [symmetric] validation_phase_vocab.code_inject)

instantiation validation_run_id :: linorder
begin
definition less_eq_validation_run_id :: "validation_run_id \<Rightarrow> validation_run_id \<Rightarrow> bool" where
  "less_eq_validation_run_id a b \<longleftrightarrow> run_key a \<le> run_key b"
definition less_validation_run_id :: "validation_run_id \<Rightarrow> validation_run_id \<Rightarrow> bool" where
  "less_validation_run_id a b \<longleftrightarrow> run_key a < run_key b"
instance
  by standard (auto simp: less_eq_validation_run_id_def less_validation_run_id_def run_key_inject
      dest: order_antisym)
end

record verdict_record =
  vr_run :: validation_run_id
  vr_evaluator :: participant_id
  vr_handler :: handler_ref
  vr_attempt :: u32
  vr_manifest :: content_hash
  vr_value :: verdict_value
  vr_evidence :: "artifact_ref list"

record validation_run =
  run_id :: validation_run_id
  run_claim :: claim_id
  run_evaluator :: participant_id
  run_manifest :: content_hash
  run_handler_index :: u32
  run_quality_phase :: bool
  run_attempts :: "verdict_record list"
  run_final_verdict :: "verdict_value option"

record evidence_set =
  es_id :: evidence_set_id
  es_claim :: claim_id
  es_receipt :: receipt_fence
  es_artifacts :: "artifact_ref list"
  es_closed :: bool

datatype wait_predicate =
    WaitSatisfied (wp_claim: claim_id)
  | WaitTerminal (wp_claim: claim_id)
  | WaitReleased (wp_claim: claim_id)

primrec wait_key :: "wait_predicate \<Rightarrow> nat list" where
  "wait_key (WaitSatisfied c) = [0, unat c]"
| "wait_key (WaitTerminal c) = [1, unat c]"
| "wait_key (WaitReleased c) = [2, unat c]"

lemma wait_key_inject: "wait_key a = wait_key b \<longleftrightarrow> a = b"
  by (cases a; cases b) (auto simp: word_unat_eq_iff [symmetric])

instantiation wait_predicate :: linorder
begin
definition less_eq_wait_predicate :: "wait_predicate \<Rightarrow> wait_predicate \<Rightarrow> bool" where
  "less_eq_wait_predicate a b \<longleftrightarrow> wait_key a \<le> wait_key b"
definition less_wait_predicate :: "wait_predicate \<Rightarrow> wait_predicate \<Rightarrow> bool" where
  "less_wait_predicate a b \<longleftrightarrow> wait_key a < wait_key b"
instance
  by standard (auto simp: less_eq_wait_predicate_def less_wait_predicate_def wait_key_inject
      dest: order_antisym)
end

record monitor =
  mon_id :: monitor_id
  mon_owner :: claim_id
  mon_roots :: "wait_predicate btree_set"
  mon_deadline :: deadline
  mon_registered :: session_seq
  mon_released :: "session_seq option"

section \<open>Reading authored relations\<close>

text \<open>\<open>semantics_v1::SCHEMA\<close> and the ordered relation lookups of that module.\<close>

definition SCHEMA :: u16 where
  "SCHEMA = 1"

definition party :: "claim_content \<Rightarrow> relation_kind \<Rightarrow> participant_id option" where
  "party c k = find_map (\<lambda>r. case (rel_kind r = k, rel_target r) of
      (True, TParticipant p) \<Rightarrow> Some p
    | _ \<Rightarrow> None) (bm_keys (cc_relations c))"

definition issuer :: "claim_content \<Rightarrow> participant_id option" where
  "issuer c = party c RK_Issuer"

definition subject :: "claim_content \<Rightarrow> participant_id option" where
  "subject c = party c RK_Subject"

definition action :: "claim_content \<Rightarrow> action_type option" where
  "action c = find_map (\<lambda>r. case r of
      Relation RK_ClaimAction (TAction a) \<Rightarrow> Some a
    | _ \<Rightarrow> None) (bm_keys (cc_relations c))"

definition cause :: "claim_content \<Rightarrow> cause option" where
  "cause c = find_map (\<lambda>r. case r of
      Relation RK_CausedBy (TRoot root) \<Rightarrow> Some (CauseRoot root)
    | Relation RK_CausedBy (TObject ob) \<Rightarrow>
        (if or_kind ob = OK_Claim then Some (CauseClaim (or_id ob)) else None)
    | _ \<Rightarrow> None) (bm_keys (cc_relations c))"

definition dependencies :: "claim_content \<Rightarrow> relation_kind \<Rightarrow> claim_id list" where
  "dependencies c k =
     filter_map (\<lambda>r. case rel_target r of
         TObject ob \<Rightarrow> (if or_kind ob = OK_Claim then Some (or_id ob) else None)
       | _ \<Rightarrow> None)
     (filter (\<lambda>r. rel_kind r = k) (bm_keys (cc_relations c)))"

lemma set_dependencies:
  "d \<in> set (dependencies c k) \<longleftrightarrow>
     (\<exists>l. Relation k (TObject (ObjectRef l OK_Claim d)) \<in> set (bm_keys (cc_relations c)))"
proof -
  have "d \<in> set (dependencies c k) \<longleftrightarrow>
    (\<exists>r \<in> set (bm_keys (cc_relations c)). rel_kind r = k \<and>
       (case rel_target r of TObject ob \<Rightarrow> (if or_kind ob = OK_Claim then Some (or_id ob) else None)
         | _ \<Rightarrow> None) = Some d)"
    by (auto simp: dependencies_def set_filter_map)
  also have "\<dots> \<longleftrightarrow> (\<exists>l. Relation k (TObject (ObjectRef l OK_Claim d)) \<in> set (bm_keys (cc_relations c)))"
  proof
    assume "\<exists>r \<in> set (bm_keys (cc_relations c)). rel_kind r = k \<and>
       (case rel_target r of TObject ob \<Rightarrow> (if or_kind ob = OK_Claim then Some (or_id ob) else None)
         | _ \<Rightarrow> None) = Some d"
    then obtain r where r: "r \<in> set (bm_keys (cc_relations c))" "rel_kind r = k"
      and t: "(case rel_target r of TObject ob \<Rightarrow> (if or_kind ob = OK_Claim then Some (or_id ob) else None)
         | _ \<Rightarrow> None) = Some d" by blast
    from t obtain ob where "rel_target r = TObject ob" "or_kind ob = OK_Claim" "or_id ob = d"
      by (auto split: relation_target.splits if_splits)
    with r have "r = Relation k (TObject (ObjectRef (or_ledger ob) OK_Claim d))"
      by (metis object_ref.collapse relation.collapse)
    with r(1) show "\<exists>l. Relation k (TObject (ObjectRef l OK_Claim d)) \<in> set (bm_keys (cc_relations c))"
      by metis
  qed force
  finally show ?thesis .
qed

lemma cause_claim_relation:
  assumes "cause c = Some (CauseClaim p)"
  shows "p \<in> set (dependencies c RK_CausedBy)"
proof -
  from assms obtain r where "r \<in> set (bm_keys (cc_relations c))"
    and "(case r of Relation RK_CausedBy (TRoot root) \<Rightarrow> Some (CauseRoot root)
        | Relation RK_CausedBy (TObject ob) \<Rightarrow>
            (if or_kind ob = OK_Claim then Some (CauseClaim (or_id ob)) else None)
        | _ \<Rightarrow> None) = Some (CauseClaim p)"
    unfolding cause_def by (auto dest!: find_map_Some)
  moreover from this obtain l where "r = Relation RK_CausedBy (TObject (ObjectRef l OK_Claim p))"
    by (auto split: relation.splits relation_kind.splits relation_target.splits if_splits
        intro: object_ref.collapse) (metis object_ref.collapse)
  ultimately show ?thesis by (auto simp: set_dependencies)
qed

end
