(* ===== verification/Canonical.thy ===== *)
theory Canonical
  imports Objects
begin

text \<open>
  The identity encoder of \<open>focal-model/src/canonical.rs\<close>: fixed-width big-endian integers,
  u32 length prefixes, sets in their canonical order.  An encoder that failed keeps its
  first error and never yields a partial identity.  BLAKE3 and the allocator are not part
  of the repository: the record \<open>host\<close> carries the hash function and the outcome of
  \<open>Vec::try_reserve\<close> as parameters of every definition that uses them.

  The theory CanonicalFormat states the wire format as plain byte functions and shows that
  it is uniquely decodable.
\<close>

section \<open>The encoder\<close>

record host =
  blake3 :: "u8 list \<Rightarrow> content_hash"
  try_reserve :: "nat \<Rightarrow> nat \<Rightarrow> bool"

datatype canonical_error = CE_Length | CE_Capacity | CE_Codec

record encoder =
  enc_bytes :: "u8 list"
  enc_error :: "canonical_error option"

type_synonym enc_step = "encoder \<Rightarrow> encoder"

definition enc_new :: encoder where
  "enc_new = \<lparr>enc_bytes = [], enc_error = None\<rparr>"

definition enc_fixed :: "host \<Rightarrow> u8 list \<Rightarrow> enc_step" where
  "enc_fixed h x e =
     (if enc_error e \<noteq> None then e
      else if \<not> try_reserve h (length (enc_bytes e)) (length x) then e\<lparr>enc_error := Some CE_Capacity\<rparr>
      else e\<lparr>enc_bytes := enc_bytes e @ x\<rparr>)"

definition enc_u16 :: "host \<Rightarrow> u16 \<Rightarrow> enc_step" where
  "enc_u16 h x = enc_fixed h (be_bytes x)"

definition enc_u32 :: "host \<Rightarrow> u32 \<Rightarrow> enc_step" where
  "enc_u32 h x = enc_fixed h (be_bytes x)"

definition enc_u64 :: "host \<Rightarrow> u64 \<Rightarrow> enc_step" where
  "enc_u64 h x = enc_fixed h (be_bytes x)"

definition enc_length :: "host \<Rightarrow> nat \<Rightarrow> enc_step" where
  "enc_length h n e =
     (case u32_of_len n of
        Some w \<Rightarrow> enc_u32 h w e
      | None \<Rightarrow> (if enc_error e = None then e\<lparr>enc_error := Some CE_Length\<rparr> else e))"

text \<open>Consecutive statements of the sources, and a \<open>for\<close> loop over a collection.\<close>

definition enc_seq :: "enc_step list \<Rightarrow> enc_step" where
  "enc_seq steps e = fold (\<lambda>f. f) steps e"

definition enc_each :: "('a \<Rightarrow> enc_step) \<Rightarrow> 'a list \<Rightarrow> enc_step" where
  "enc_each f xs e = fold f xs e"

definition enc_raw_bytes :: "host \<Rightarrow> u8 list \<Rightarrow> enc_step" where
  "enc_raw_bytes h x = enc_seq [enc_length h (length x), enc_fixed h x]"

definition as_bytes :: "string \<Rightarrow> u8 list" where
  "as_bytes s = map of_char s"

definition enc_string :: "host \<Rightarrow> string \<Rightarrow> enc_step" where
  "enc_string h s = enc_raw_bytes h (as_bytes s)"

definition enc_finish :: "encoder \<Rightarrow> canonical_error + u8 list" where
  "enc_finish e = (case enc_error e of Some x \<Rightarrow> Inl x | None \<Rightarrow> Inr (enc_bytes e))"

definition enc_ledger :: "host \<Rightarrow> ledger_id \<Rightarrow> enc_step" where
  "enc_ledger h l = enc_seq [enc_fixed h (be_bytes (lid_tenant l)), enc_fixed h (be_bytes (lid_session l))]"

definition enc_object_ref :: "host \<Rightarrow> object_ref \<Rightarrow> enc_step" where
  "enc_object_ref h r = enc_seq
     [enc_ledger h (or_ledger r), enc_u16 h (object_kind_code (or_kind r)), enc_fixed h (be_bytes (or_id r))]"

definition enc_receipt :: "host \<Rightarrow> receipt_fence \<Rightarrow> enc_step" where
  "enc_receipt h r = enc_seq [enc_fixed h (be_bytes (fence_receipt r)), enc_u64 h (fence_epoch r)]"

definition enc_artifacts :: "host \<Rightarrow> artifact_ref list \<Rightarrow> enc_step" where
  "enc_artifacts h xs = enc_seq
     [enc_length h (length xs),
      enc_each (\<lambda>a. enc_seq [enc_fixed h (be_bytes (ar_id a)), enc_fixed h (be_bytes (ar_hash a))]) xs]"

section \<open>Canonical content\<close>

definition enc_relation_target :: "host \<Rightarrow> relation_target \<Rightarrow> enc_step" where
  "enc_relation_target h t = (case t of
      TParticipant p \<Rightarrow> enc_seq [enc_u16 h 1, enc_fixed h (be_bytes p)]
    | TObject ob \<Rightarrow> enc_seq [enc_u16 h 2, enc_object_ref h ob]
    | TAction a \<Rightarrow> enc_seq [enc_u16 h 3, enc_u16 h (action_type_code a)]
    | TRoot r \<Rightarrow> enc_seq [enc_u16 h 4, enc_fixed h (be_bytes r)]
    | TEvidence a \<Rightarrow> enc_seq [enc_u16 h 5, enc_fixed h (be_bytes (ar_id a)), enc_fixed h (be_bytes (ar_hash a))])"

definition encode_claim_body :: "host \<Rightarrow> claim_content \<Rightarrow> enc_step" where
  "encode_claim_body h c = enc_seq
     [enc_fixed h (be_bytes (cc_occurrence c)),
      enc_string h (cc_description c),
      enc_length h (bm_len (cc_relations c)),
      enc_each (\<lambda>r. enc_seq [enc_u16 h (relation_kind_code (rel_kind r)), enc_relation_target h (rel_target r)])
        (bm_keys (cc_relations c)),
      enc_length h (bm_len (cc_scopes c)),
      enc_each (\<lambda>s. enc_seq [enc_u16 h (scope_kind_code (sc_kind s)), enc_string h (sc_key s)])
        (bm_keys (cc_scopes c)),
      enc_length h (length (cc_requirements c)),
      enc_each (\<lambda>r. enc_fixed h (be_bytes (rq_specification r))) (cc_requirements c),
      (case cc_deadline c of
         None \<Rightarrow> enc_u16 h 0
       | Some d \<Rightarrow> enc_seq [enc_u16 h 1, enc_fixed h (be_bytes (dl_timer d)),
           enc_u64 h (dl_generation d), enc_u64 h (dl_at d)])]"

definition encode_specification :: "host \<Rightarrow> validation_content \<Rightarrow> enc_step" where
  "encode_specification h v = enc_seq
     [enc_u16 h (validation_kind_code (vc_kind v)),
      enc_u16 h (validation_phase_code (vc_phase v)),
      enc_u16 h (validation_mode_code (vc_mode v)),
      enc_string h (vc_description v),
      (case vc_quality_bar v of
         None \<Rightarrow> enc_u16 h 0
       | Some q \<Rightarrow> enc_seq [enc_u16 h 1, enc_string h q]),
      enc_fixed h (be_bytes (vc_evaluator v)),
      enc_length h (length (vc_handlers v)),
      enc_each (\<lambda>d. enc_seq [enc_fixed h (be_bytes (hd_id d)), enc_fixed h (be_bytes (hd_version d)),
          enc_u16 h (if hd_agentic d then 1 else 0)]) (vc_handlers v),
      enc_length h (bm_len (vc_evidence_schemas v)),
      enc_each (\<lambda>s. enc_fixed h (be_bytes s)) (bm_keys (vc_evidence_schemas v)),
      enc_length h (bm_len (vc_contributed_by v)),
      enc_each (\<lambda>p. enc_fixed h (be_bytes p)) (bm_keys (vc_contributed_by v)),
      enc_u64 h (vc_policy_revision v)]"

definition encode_validation_body :: "host \<Rightarrow> validation_content \<Rightarrow> enc_step" where
  "encode_validation_body h v = enc_seq
     [enc_fixed h (be_bytes (vc_claim v)), encode_specification h v]"

definition encode_artifact_body :: "host \<Rightarrow> artifact_content \<Rightarrow> enc_step" where
  "encode_artifact_body h a = enc_seq
     [enc_string h (ac_kind a),
      enc_fixed h (be_bytes (ac_schema_hash a)),
      enc_raw_bytes h (ac_metadata a),
      (case ac_payload a of
         Inline v \<Rightarrow> enc_seq [enc_u16 h 1, enc_raw_bytes h v]
       | Content c \<Rightarrow> enc_seq [enc_u16 h 2, enc_fixed h (be_bytes (cr_domain c)),
           enc_fixed h (be_bytes (cr_root c)), enc_u64 h (cr_length c),
           enc_u16 h (content_class_code (cr_class c))]),
      enc_fixed h (be_bytes (ac_producer a)),
      (case ac_receipt a of
         None \<Rightarrow> enc_u16 h 0
       | Some r \<Rightarrow> enc_seq [enc_u16 h 1, enc_receipt h r]),
      enc_length h (bm_len (ac_inputs a)),
      enc_each (enc_object_ref h) (bm_keys (ac_inputs a)),
      enc_length h (bm_len (ac_visibility a)),
      enc_each (enc_string h) (bm_keys (ac_visibility a))]"

definition encode_testament_body :: "host \<Rightarrow> testament_content \<Rightarrow> enc_step" where
  "encode_testament_body h t = enc_seq
     [enc_fixed h (be_bytes (tc_claim t)),
      enc_receipt h (tc_receipt t),
      enc_fixed h (be_bytes (tc_evidence_set t)),
      enc_artifacts h (tc_artifacts t),
      enc_string h (tc_summary t),
      enc_u16 h (confidence_code (tc_confidence t)),
      enc_u16 h (outcome_kind_code (tc_outcome t))]"

definition authored_tag :: "u8 list" where
  "authored_tag = as_bytes ''focal.authored'' @ [0]"

text \<open>\<open>CanonicalContent::canonical_bytes\<close> and \<open>content_hash\<close> of a content's header and body.\<close>

definition canonical_bytes ::
    "host \<Rightarrow> u16 \<Rightarrow> ledger_id \<Rightarrow> object_kind \<Rightarrow> enc_step \<Rightarrow> canonical_error + u8 list" where
  "canonical_bytes h schema ledger kind body = enc_finish (enc_seq
     [enc_fixed h authored_tag, enc_u16 h schema, enc_ledger h ledger,
      enc_u16 h (object_kind_code kind), body] enc_new)"

definition hash_result :: "host \<Rightarrow> canonical_error + u8 list \<Rightarrow> canonical_error + content_hash" where
  "hash_result h r = (case r of Inl e \<Rightarrow> Inl e | Inr bs \<Rightarrow> Inr (blake3 h bs))"

definition claim_canonical_bytes :: "host \<Rightarrow> claim_content \<Rightarrow> canonical_error + u8 list" where
  "claim_canonical_bytes h c =
     canonical_bytes h (cc_schema c) (cc_ledger c) OK_Claim (encode_claim_body h c)"

definition validation_canonical_bytes :: "host \<Rightarrow> validation_content \<Rightarrow> canonical_error + u8 list" where
  "validation_canonical_bytes h v =
     canonical_bytes h (vc_schema v) (vc_ledger v) OK_Validation (encode_validation_body h v)"

definition artifact_canonical_bytes :: "host \<Rightarrow> artifact_content \<Rightarrow> canonical_error + u8 list" where
  "artifact_canonical_bytes h a =
     canonical_bytes h (ac_schema a) (ac_ledger a) OK_Artifact (encode_artifact_body h a)"

definition testament_canonical_bytes :: "host \<Rightarrow> testament_content \<Rightarrow> canonical_error + u8 list" where
  "testament_canonical_bytes h t =
     canonical_bytes h (tc_schema t) (tc_ledger t) OK_Testament (encode_testament_body h t)"

definition claim_content_hash :: "host \<Rightarrow> claim_content \<Rightarrow> canonical_error + content_hash" where
  "claim_content_hash h c = hash_result h (claim_canonical_bytes h c)"

definition validation_content_hash :: "host \<Rightarrow> validation_content \<Rightarrow> canonical_error + content_hash" where
  "validation_content_hash h v = hash_result h (validation_canonical_bytes h v)"

definition artifact_content_hash :: "host \<Rightarrow> artifact_content \<Rightarrow> canonical_error + content_hash" where
  "artifact_content_hash h a = hash_result h (artifact_canonical_bytes h a)"

definition testament_content_hash :: "host \<Rightarrow> testament_content \<Rightarrow> canonical_error + content_hash" where
  "testament_content_hash h t = hash_result h (testament_canonical_bytes h t)"

definition specification_hash :: "host \<Rightarrow> validation_content \<Rightarrow> canonical_error + content_hash" where
  "specification_hash h v = hash_result h (enc_finish (enc_seq
     [enc_fixed h (as_bytes ''focal.requirement-specification'' @ [0]), enc_u16 h (vc_schema v),
      enc_ledger h (vc_ledger v), encode_specification h v] enc_new))"

definition manifest_hash :: "host \<Rightarrow> artifact_ref list \<Rightarrow> canonical_error + content_hash" where
  "manifest_hash h xs = hash_result h (enc_finish (enc_seq
     [enc_fixed h (as_bytes ''focal.evidence-manifest'' @ [0]), enc_u16 h SCHEMA,
      enc_artifacts h xs] enc_new))"

section \<open>A sample host\<close>

text \<open>A stand-in for the environment, for evaluating the model on concrete values.\<close>

definition sample_host :: host where
  "sample_host = \<lparr>blake3 = (\<lambda>bs. of_nat (length bs)), try_reserve = (\<lambda>_ _. True)\<rparr>"

end
