(* ===== verification/CanonicalFormat.thy ===== *)
theory CanonicalFormat
  imports Canonical
begin

text \<open>
  The wire format behind the identity encoder of \<open>Canonical\<close>, and its unique decodability.
  \<open>writes f bs ok\<close> says that the encoder step \<open>f\<close> either fails or appends \<open>bs\<close>, and that it
  can only succeed when the side condition \<open>ok\<close> (every length fits a u32) holds; failed
  encoders stay failed.  \<open>decodable f A\<close> says that on \<open>A\<close> the byte function \<open>f\<close> can be read
  back from the front of any longer byte string.
\<close>

section \<open>What a step writes\<close>

definition writes :: "enc_step \<Rightarrow> u8 list \<Rightarrow> bool \<Rightarrow> bool" where
  "writes f bs ok \<longleftrightarrow> (\<forall>e. enc_error (f e) = None \<longrightarrow>
     enc_error e = None \<and> enc_bytes (f e) = enc_bytes e @ bs \<and> ok)"

named_theorems writes_intros \<open>the bytes each encoder step appends\<close>

lemma writesD:
  "writes f bs ok \<Longrightarrow> enc_error (f e) = None \<Longrightarrow>
     enc_error e = None \<and> enc_bytes (f e) = enc_bytes e @ bs \<and> ok"
  by (simp add: writes_def)

lemma writes_weaken: "writes f bs ok \<Longrightarrow> bs = cs \<Longrightarrow> (ok \<Longrightarrow> ok') \<Longrightarrow> writes f cs ok'"
  by (auto simp: writes_def)

lemma writes_fixed [writes_intros]: "writes (enc_fixed h x) x True"
  by (auto simp: writes_def enc_fixed_def split: if_splits)

lemma writes_u16 [writes_intros]: "writes (enc_u16 h x) (be_bytes x) True"
  by (simp add: enc_u16_def writes_fixed)

lemma writes_u64 [writes_intros]: "writes (enc_u64 h x) (be_bytes x) True"
  by (simp add: enc_u64_def writes_fixed)

definition fmt_len :: "nat \<Rightarrow> u8 list" where
  "fmt_len n = be_bytes (of_nat n :: u32)"

lemma writes_length [writes_intros]: "writes (enc_length h n) (fmt_len n) (n < 2 ^ 32)"
  by (auto simp: writes_def enc_length_def u32_of_len_def enc_u32_def enc_fixed_def fmt_len_def
      split: if_splits)

lemma writes_seq_Nil [writes_intros]: "writes (enc_seq []) [] True"
  by (simp add: writes_def enc_seq_def)

lemma writes_seq_Cons [writes_intros]:
  assumes "writes f bs ok" and "writes (enc_seq fs) cs ok'"
  shows "writes (enc_seq (f # fs)) (bs @ cs) (ok \<and> ok')"
  unfolding writes_def
proof (intro allI impI)
  fix e assume "enc_error (enc_seq (f # fs) e) = None"
  then have "enc_error (enc_seq fs (f e)) = None" by (simp add: enc_seq_def)
  from writesD [OF assms(2) this] writesD [OF assms(1), of e]
  show "enc_error e = None \<and> enc_bytes (enc_seq (f # fs) e) = enc_bytes e @ (bs @ cs) \<and> (ok \<and> ok')"
    by (simp add: enc_seq_def)
qed

lemma writes_each [writes_intros]:
  assumes "\<And>x. x \<in> set xs \<Longrightarrow> writes (f x) (b x) (P x)"
  shows "writes (enc_each f xs) (concat (map b xs)) (\<forall>x \<in> set xs. P x)"
  using assms
proof (induction xs)
  case Nil
  show ?case by (simp add: writes_def enc_each_def)
next
  case (Cons x xs)
  then have x: "writes (f x) (b x) (P x)"
    and xs: "writes (enc_each f xs) (concat (map b xs)) (\<forall>x \<in> set xs. P x)" by auto
  show ?case unfolding writes_def
  proof (intro allI impI)
    fix e assume "enc_error (enc_each f (x # xs) e) = None"
    then have "enc_error (enc_each f xs (f x e)) = None" by (simp add: enc_each_def)
    from writesD [OF xs this] writesD [OF x, of e]
    show "enc_error e = None \<and> enc_bytes (enc_each f (x # xs) e) = enc_bytes e @ concat (map b (x # xs)) \<and>
        (\<forall>x \<in> set (x # xs). P x)"
      by (simp add: enc_each_def)
  qed
qed

section \<open>Byte functions that can be read back\<close>

definition decodable :: "('a \<Rightarrow> u8 list) \<Rightarrow> 'a set \<Rightarrow> bool" where
  "decodable f A \<longleftrightarrow> (\<forall>x \<in> A. \<forall>y \<in> A. \<forall>r s. f x @ r = f y @ s \<longrightarrow> x = y \<and> r = s)"

lemma decodableI:
  "(\<And>x y r s. x \<in> A \<Longrightarrow> y \<in> A \<Longrightarrow> f x @ r = f y @ s \<Longrightarrow> x = y \<and> r = s) \<Longrightarrow> decodable f A"
  unfolding decodable_def by blast

lemma decodableD:
  "decodable f A \<Longrightarrow> f x @ r = f y @ s \<Longrightarrow> x \<in> A \<Longrightarrow> y \<in> A \<Longrightarrow> x = y \<and> r = s"
  unfolding decodable_def by blast

lemma be_eq_16 [simp]: "be_bytes (v :: u16) = be_bytes w \<longleftrightarrow> v = w"
  using be_bytes_inject_16 by blast
lemma be_eq_32 [simp]: "be_bytes (v :: u32) = be_bytes w \<longleftrightarrow> v = w"
  using be_bytes_inject_32 by blast
lemma be_eq_64 [simp]: "be_bytes (v :: u64) = be_bytes w \<longleftrightarrow> v = w"
  using be_bytes_inject_64 by blast
lemma be_eq_128 [simp]: "be_bytes (v :: u128) = be_bytes w \<longleftrightarrow> v = w"
  using be_bytes_inject_128 by blast
lemma be_eq_256 [simp]: "be_bytes (v :: u256) = be_bytes w \<longleftrightarrow> v = w"
  using be_bytes_inject_256 by blast
lemma be_append_16 [simp]: "be_bytes (v :: u16) @ r = be_bytes w @ s \<longleftrightarrow> v = w \<and> r = s"
  by (simp add: append_eq_append_conv)
lemma be_append_32 [simp]: "be_bytes (v :: u32) @ r = be_bytes w @ s \<longleftrightarrow> v = w \<and> r = s"
  by (simp add: append_eq_append_conv)
lemma be_append_64 [simp]: "be_bytes (v :: u64) @ r = be_bytes w @ s \<longleftrightarrow> v = w \<and> r = s"
  by (simp add: append_eq_append_conv)
lemma be_append_128 [simp]: "be_bytes (v :: u128) @ r = be_bytes w @ s \<longleftrightarrow> v = w \<and> r = s"
  by (simp add: append_eq_append_conv)
lemma be_append_256 [simp]: "be_bytes (v :: u256) @ r = be_bytes w @ s \<longleftrightarrow> v = w \<and> r = s"
  by (simp add: append_eq_append_conv)

lemma fmt_len_append:
  assumes "fmt_len m @ r = fmt_len n @ s" "m < 2 ^ 32" "n < 2 ^ 32"
  shows "m = n \<and> r = s"
proof -
  from assms(1) have "(of_nat m :: u32) = of_nat n" and rs: "r = s"
    by (simp_all add: fmt_len_def)
  then have "unat (of_nat m :: u32) = unat (of_nat n :: u32)" by simp
  with assms(2,3) rs show ?thesis by (simp add: unat_of_nat)
qed

lemma decodable_concat:
  assumes "decodable f A" "concat (map f xs) @ r = concat (map f ys) @ s"
    "length xs = length ys" "set xs \<subseteq> A" "set ys \<subseteq> A"
  shows "xs = ys \<and> r = s"
  using assms(3,2,4,5)
proof (induction xs ys rule: list_induct2)
  case (Cons x xs y ys)
  then have "f x @ (concat (map f xs) @ r) = f y @ (concat (map f ys) @ s)" by simp
  from decodableD [OF assms(1) this] Cons show ?case by auto
qed simp

definition fmt_list :: "('a \<Rightarrow> u8 list) \<Rightarrow> 'a list \<Rightarrow> u8 list" where
  "fmt_list f xs = fmt_len (length xs) @ concat (map f xs)"

lemma fmt_list_append:
  assumes "decodable f A" "fmt_list f xs @ r = fmt_list f ys @ s"
    "length xs < 2 ^ 32" "length ys < 2 ^ 32" "set xs \<subseteq> A" "set ys \<subseteq> A"
  shows "xs = ys \<and> r = s"
proof -
  from assms(2) have "fmt_len (length xs) @ (concat (map f xs) @ r)
      = fmt_len (length ys) @ (concat (map f ys) @ s)" by (simp add: fmt_list_def)
  from fmt_len_append [OF this assms(3,4)]
  have "length xs = length ys" "concat (map f xs) @ r = concat (map f ys) @ s" by auto
  from decodable_concat [OF assms(1) this(2,1) assms(5,6)] show ?thesis .
qed

definition fmt_bytes :: "u8 list \<Rightarrow> u8 list" where
  "fmt_bytes x = fmt_len (length x) @ x"

lemma fmt_bytes_append:
  assumes "fmt_bytes x @ r = fmt_bytes y @ s" "length x < 2 ^ 32" "length y < 2 ^ 32"
  shows "x = y \<and> r = s"
proof -
  from assms(1) have "fmt_len (length x) @ (x @ r) = fmt_len (length y) @ (y @ s)"
    by (simp add: fmt_bytes_def)
  from fmt_len_append [OF this assms(2,3)] show ?thesis by (auto simp: append_eq_append_conv)
qed

lemma writes_raw_bytes [writes_intros]: "writes (enc_raw_bytes h x) (fmt_bytes x) (length x < 2 ^ 32)"
  unfolding enc_raw_bytes_def fmt_bytes_def
  by (rule writes_weaken, (rule writes_intros)+) simp_all

definition fmt_string :: "string \<Rightarrow> u8 list" where
  "fmt_string s = fmt_bytes (as_bytes s)"

lemma unat_of_char: "unat (of_char c :: u8) = of_char c"
proof -
  have "unat (of_char c :: u8) = unat (of_nat (of_char c) :: u8)"
    by (simp only: of_nat_of_char)
  also have "\<dots> = of_char c mod 2 ^ 8"
    by (simp only: unat_of_nat) simp
  finally show ?thesis by simp
qed

lemma as_bytes_inject: "as_bytes s = as_bytes t \<longleftrightarrow> s = t"
proof -
  have "inj (of_char :: char \<Rightarrow> u8)"
    by (rule injI) (metis unat_of_char of_char_eq_iff)
  then show ?thesis by (simp add: as_bytes_def inj_map_eq_map)
qed

lemma length_as_bytes [simp]: "length (as_bytes s) = length s"
  by (simp add: as_bytes_def)

lemma writes_string [writes_intros]: "writes (enc_string h s) (fmt_string s) (length s < 2 ^ 32)"
  unfolding enc_string_def fmt_string_def by (rule writes_weaken, rule writes_intros) simp_all

lemma fmt_string_append:
  "fmt_string a @ r = fmt_string b @ s \<Longrightarrow> length a < 2 ^ 32 \<Longrightarrow> length b < 2 ^ 32 \<Longrightarrow> a = b \<and> r = s"
  unfolding fmt_string_def by (drule fmt_bytes_append) (auto simp: as_bytes_inject)

lemma writes_option [writes_intros]:
  assumes "writes A a p" and "\<And>x. writes (B x) (b x) (q x)"
  shows "writes (case m of None \<Rightarrow> A | Some x \<Rightarrow> B x)
      (case m of None \<Rightarrow> a | Some x \<Rightarrow> b x) (case m of None \<Rightarrow> p | Some x \<Rightarrow> q x)"
  using assms by (cases m) simp_all

lemma bm_len_keys: "bm_len m = length (bm_keys m)"
  by (simp add: bm_len_def bm_keys_def)

lemma writes_set:
  assumes "\<And>x. writes (f x) (b x) (P x)" and "writes (enc_seq fs) cs ok"
  shows "writes (enc_seq (enc_length h (length xs) # enc_each f xs # fs))
    (fmt_list b xs @ cs) ((length xs < 2 ^ 32 \<and> (\<forall>x \<in> set xs. P x)) \<and> ok)"
  unfolding fmt_list_def
  by (rule writes_weaken, (rule writes_intros assms)+) simp_all

lemma bm_keys_inject: "bm_keys (s :: 'a::linorder btree_set) = bm_keys t \<longleftrightarrow> s = t"
proof
  assume "bm_keys s = bm_keys t"
  then have "dom (bm_get s) = dom (bm_get t)" by (metis set_bm_keys)
  then have "bm_get s k = bm_get t k" for k
    by (metis domIff option.exhaust old.unit.exhaust)
  then show "s = t" by (rule bm_ext)
qed simp

section \<open>The format of each content\<close>

definition fmt_ledger :: "ledger_id \<Rightarrow> u8 list" where
  "fmt_ledger l = be_bytes (lid_tenant l) @ be_bytes (lid_session l)"

definition fmt_object_ref :: "object_ref \<Rightarrow> u8 list" where
  "fmt_object_ref r = fmt_ledger (or_ledger r) @ be_bytes (object_kind_code (or_kind r)) @ be_bytes (or_id r)"

definition fmt_receipt :: "receipt_fence \<Rightarrow> u8 list" where
  "fmt_receipt r = be_bytes (fence_receipt r) @ be_bytes (fence_epoch r)"

definition fmt_artifact_ref :: "artifact_ref \<Rightarrow> u8 list" where
  "fmt_artifact_ref a = be_bytes (ar_id a) @ be_bytes (ar_hash a)"

definition fmt_relation :: "relation \<Rightarrow> u8 list" where
  "fmt_relation r = be_bytes (relation_kind_code (rel_kind r)) @ (case rel_target r of
      TParticipant p \<Rightarrow> be_bytes (1 :: u16) @ be_bytes p
    | TObject ob \<Rightarrow> be_bytes (2 :: u16) @ fmt_object_ref ob
    | TAction a \<Rightarrow> be_bytes (3 :: u16) @ be_bytes (action_type_code a)
    | TRoot r \<Rightarrow> be_bytes (4 :: u16) @ be_bytes r
    | TEvidence a \<Rightarrow> be_bytes (5 :: u16) @ fmt_artifact_ref a)"

definition fmt_scope :: "scope \<Rightarrow> u8 list" where
  "fmt_scope s = be_bytes (scope_kind_code (sc_kind s)) @ fmt_string (sc_key s)"

definition fmt_deadline :: "deadline option \<Rightarrow> u8 list" where
  "fmt_deadline m = (case m of None \<Rightarrow> be_bytes (0 :: u16)
    | Some d \<Rightarrow> be_bytes (1 :: u16) @ be_bytes (dl_timer d) @ be_bytes (dl_generation d) @ be_bytes (dl_at d))"

lemma writes_ledger [writes_intros]: "writes (enc_ledger h l) (fmt_ledger l) True"
  unfolding enc_ledger_def fmt_ledger_def
  by (rule writes_weaken, (rule writes_intros)+) simp_all

lemma writes_object_ref [writes_intros]: "writes (enc_object_ref h r) (fmt_object_ref r) True"
  unfolding enc_object_ref_def fmt_object_ref_def
  by (rule writes_weaken, (rule writes_intros)+) simp_all

lemma writes_receipt [writes_intros]: "writes (enc_receipt h r) (fmt_receipt r) True"
  unfolding enc_receipt_def fmt_receipt_def
  by (rule writes_weaken, (rule writes_intros)+) simp_all

lemma writes_artifact_ref [writes_intros]:
  "writes (enc_seq [enc_fixed h (be_bytes (ar_id a)), enc_fixed h (be_bytes (ar_hash a))]) (fmt_artifact_ref a) True"
  unfolding fmt_artifact_ref_def
  by (rule writes_weaken, (rule writes_intros)+) simp_all

lemma writes_artifacts [writes_intros]:
  "writes (enc_artifacts h xs) (fmt_list fmt_artifact_ref xs) (length xs < 2 ^ 32)"
  unfolding enc_artifacts_def
  by (rule writes_weaken, rule writes_set, rule writes_artifact_ref, rule writes_seq_Nil) simp_all

lemma writes_relation:
  "writes (enc_seq [enc_u16 h (relation_kind_code (rel_kind r)), enc_relation_target h (rel_target r)])
     (fmt_relation r) True"
proof -
  have target: "writes (enc_relation_target h t) (case t of
      TParticipant p \<Rightarrow> be_bytes (1 :: u16) @ be_bytes p
    | TObject ob \<Rightarrow> be_bytes (2 :: u16) @ fmt_object_ref ob
    | TAction a \<Rightarrow> be_bytes (3 :: u16) @ be_bytes (action_type_code a)
    | TRoot r \<Rightarrow> be_bytes (4 :: u16) @ be_bytes r
    | TEvidence a \<Rightarrow> be_bytes (5 :: u16) @ fmt_artifact_ref a) True" for t
    unfolding enc_relation_target_def fmt_artifact_ref_def
    by (cases t; simp only: relation_target.case; rule writes_weaken, (rule writes_intros)+) simp_all
  show ?thesis unfolding fmt_relation_def
    by (rule writes_weaken, (rule writes_intros target)+) simp_all
qed

lemma writes_scope:
  "writes (enc_seq [enc_u16 h (scope_kind_code (sc_kind s)), enc_string h (sc_key s)])
     (fmt_scope s) (length (sc_key s) < 2 ^ 32)"
  unfolding fmt_scope_def by (rule writes_weaken, (rule writes_intros)+) simp_all

lemma writes_deadline:
  "writes (case m of None \<Rightarrow> enc_u16 h 0
     | Some d \<Rightarrow> enc_seq [enc_u16 h 1, enc_fixed h (be_bytes (dl_timer d)),
         enc_u64 h (dl_generation d), enc_u64 h (dl_at d)]) (fmt_deadline m) True"
  unfolding fmt_deadline_def
  by (cases m; simp only: option.case; rule writes_weaken, (rule writes_intros)+) simp_all

subsection \<open>Each part can be read back\<close>

lemma fmt_ledger_append [simp]: "fmt_ledger a @ r = fmt_ledger b @ s \<longleftrightarrow> a = b \<and> r = s"
  by (cases a; cases b) (auto simp: fmt_ledger_def)

lemma fmt_object_ref_append [simp]: "fmt_object_ref a @ r = fmt_object_ref b @ s \<longleftrightarrow> a = b \<and> r = s"
  by (cases a; cases b) (auto simp: fmt_object_ref_def object_kind_vocab.code_inject)

lemma fmt_receipt_append [simp]: "fmt_receipt a @ r = fmt_receipt b @ s \<longleftrightarrow> a = b \<and> r = s"
  by (cases a; cases b) (auto simp: fmt_receipt_def)

lemma fmt_artifact_ref_append [simp]: "fmt_artifact_ref a @ r = fmt_artifact_ref b @ s \<longleftrightarrow> a = b \<and> r = s"
  by (cases a; cases b) (auto simp: fmt_artifact_ref_def)

lemma fmt_relation_append [simp]: "fmt_relation a @ r = fmt_relation b @ s \<longleftrightarrow> a = b \<and> r = s"
proof (cases a; cases b)
  fix k t k' t' assume "a = Relation k t" "b = Relation k' t'"
  then show ?thesis
    by (cases t; cases t') (auto simp: fmt_relation_def relation_kind_vocab.code_inject
        action_type_vocab.code_inject)
qed

lemma fmt_deadline_append [simp]: "fmt_deadline a @ r = fmt_deadline b @ s \<longleftrightarrow> a = b \<and> r = s"
  by (cases a; cases b) (auto simp: fmt_deadline_def intro: deadline.equality)

lemma decodable_relation: "decodable fmt_relation UNIV"
  by (rule decodableI) simp

lemma decodable_artifact_ref: "decodable fmt_artifact_ref UNIV"
  by (rule decodableI) simp

lemma decodable_object_ref: "decodable fmt_object_ref UNIV"
  by (rule decodableI) simp

lemma decodable_scope: "decodable fmt_scope {s. length (sc_key s) < 2 ^ 32}"
proof (rule decodableI)
  fix x y r s assume "x \<in> {s. length (sc_key s) < 2 ^ 32}" "y \<in> {s. length (sc_key s) < 2 ^ 32}"
    and eq: "fmt_scope x @ r = fmt_scope y @ s"
  then have "length (sc_key x) < 2 ^ 32" "length (sc_key y) < 2 ^ 32" by auto
  with eq show "x = y \<and> r = s"
    by (auto simp: fmt_scope_def scope_kind_vocab.code_inject dest: fmt_string_append intro: scope.expand)
qed

lemma decodable_string: "decodable fmt_string {s. length s < 2 ^ 32}"
  by (rule decodableI) (auto dest: fmt_string_append)

lemma decodable_128: "decodable (be_bytes :: u128 \<Rightarrow> u8 list) UNIV"
  by (rule decodableI) simp

lemma decodable_256: "decodable (be_bytes :: u256 \<Rightarrow> u8 list) UNIV"
  by (rule decodableI) simp

section \<open>Canonical bytes of the four kinds\<close>

definition claim_sized :: "claim_content \<Rightarrow> bool" where
  "claim_sized c \<longleftrightarrow> length (cc_description c) < 2 ^ 32 \<and> length (bm_keys (cc_relations c)) < 2 ^ 32 \<and>
     length (bm_keys (cc_scopes c)) < 2 ^ 32 \<and> (\<forall>s \<in> set (bm_keys (cc_scopes c)). length (sc_key s) < 2 ^ 32) \<and>
     length (cc_requirements c) < 2 ^ 32"

definition fmt_claim :: "claim_content \<Rightarrow> u8 list" where
  "fmt_claim c = be_bytes (cc_occurrence c) @ fmt_string (cc_description c) @
     fmt_list fmt_relation (bm_keys (cc_relations c)) @ fmt_list fmt_scope (bm_keys (cc_scopes c)) @
     fmt_list (\<lambda>r. be_bytes (rq_specification r)) (cc_requirements c) @ fmt_deadline (cc_deadline c)"

lemma writes_claim: "writes (encode_claim_body h c) (fmt_claim c) (claim_sized c)"
  unfolding encode_claim_body_def fmt_claim_def bm_len_keys
  by (rule writes_weaken, (rule writes_set writes_relation writes_scope writes_deadline writes_intros)+)
    (simp_all add: claim_sized_def)

definition handler_fmt :: "handler_ref \<Rightarrow> u8 list" where
  "handler_fmt d = be_bytes (hd_id d) @ be_bytes (hd_version d) @
     be_bytes (if hd_agentic d then 1 else 0 :: u16)"

definition validation_sized :: "validation_content \<Rightarrow> bool" where
  "validation_sized v \<longleftrightarrow> length (vc_description v) < 2 ^ 32 \<and>
     (case vc_quality_bar v of None \<Rightarrow> True | Some q \<Rightarrow> length q < 2 ^ 32) \<and>
     length (vc_handlers v) < 2 ^ 32 \<and> length (bm_keys (vc_evidence_schemas v)) < 2 ^ 32 \<and>
     length (bm_keys (vc_contributed_by v)) < 2 ^ 32"

definition fmt_specification :: "validation_content \<Rightarrow> u8 list" where
  "fmt_specification v = be_bytes (validation_kind_code (vc_kind v)) @
     be_bytes (validation_phase_code (vc_phase v)) @ be_bytes (validation_mode_code (vc_mode v)) @
     fmt_string (vc_description v) @
     (case vc_quality_bar v of None \<Rightarrow> be_bytes (0 :: u16) | Some q \<Rightarrow> be_bytes (1 :: u16) @ fmt_string q) @
     be_bytes (vc_evaluator v) @ fmt_list handler_fmt (vc_handlers v) @
     fmt_list be_bytes (bm_keys (vc_evidence_schemas v)) @ fmt_list be_bytes (bm_keys (vc_contributed_by v)) @
     be_bytes (vc_policy_revision v)"

lemma writes_handler:
  "writes (enc_seq [enc_fixed h (be_bytes (hd_id d)), enc_fixed h (be_bytes (hd_version d)),
     enc_u16 h (if hd_agentic d then 1 else 0)]) (handler_fmt d) True"
  unfolding handler_fmt_def by (rule writes_weaken, (rule writes_intros)+) simp_all

lemma writes_quality:
  "writes (case m of None \<Rightarrow> enc_u16 h 0 | Some q \<Rightarrow> enc_seq [enc_u16 h 1, enc_string h q])
     (case m of None \<Rightarrow> be_bytes (0 :: u16) | Some q \<Rightarrow> be_bytes (1 :: u16) @ fmt_string q)
     (case m of None \<Rightarrow> True | Some q \<Rightarrow> length q < 2 ^ 32)"
  by (cases m; simp only: option.case; rule writes_weaken, (rule writes_intros)+) simp_all

lemma writes_specification: "writes (encode_specification h v) (fmt_specification v) (validation_sized v)"
  unfolding encode_specification_def fmt_specification_def bm_len_keys
  by (rule writes_weaken, (rule writes_set writes_handler writes_quality writes_intros)+)
    (simp_all add: validation_sized_def)

definition fmt_validation :: "validation_content \<Rightarrow> u8 list" where
  "fmt_validation v = be_bytes (vc_claim v) @ fmt_specification v"

lemma writes_validation: "writes (encode_validation_body h v) (fmt_validation v) (validation_sized v)"
  unfolding encode_validation_body_def fmt_validation_def
  by (rule writes_weaken, (rule writes_specification writes_intros)+) simp_all

definition artifact_sized :: "artifact_content \<Rightarrow> bool" where
  "artifact_sized a \<longleftrightarrow> length (ac_kind a) < 2 ^ 32 \<and> length (ac_metadata a) < 2 ^ 32 \<and>
     (case ac_payload a of Inline v \<Rightarrow> length v < 2 ^ 32 | Content c \<Rightarrow> True) \<and>
     length (bm_keys (ac_inputs a)) < 2 ^ 32 \<and> length (bm_keys (ac_visibility a)) < 2 ^ 32 \<and>
     (\<forall>v \<in> set (bm_keys (ac_visibility a)). length v < 2 ^ 32)"

definition fmt_payload :: "artifact_payload \<Rightarrow> u8 list" where
  "fmt_payload p = (case p of Inline v \<Rightarrow> be_bytes (1 :: u16) @ fmt_bytes v
    | Content c \<Rightarrow> be_bytes (2 :: u16) @ be_bytes (cr_domain c) @ be_bytes (cr_root c) @
        be_bytes (cr_length c) @ be_bytes (content_class_code (cr_class c)))"

definition fmt_receipt_option :: "receipt_fence option \<Rightarrow> u8 list" where
  "fmt_receipt_option m = (case m of None \<Rightarrow> be_bytes (0 :: u16) | Some r \<Rightarrow> be_bytes (1 :: u16) @ fmt_receipt r)"

definition fmt_artifact :: "artifact_content \<Rightarrow> u8 list" where
  "fmt_artifact a = fmt_string (ac_kind a) @ be_bytes (ac_schema_hash a) @ fmt_bytes (ac_metadata a) @
     fmt_payload (ac_payload a) @ be_bytes (ac_producer a) @ fmt_receipt_option (ac_receipt a) @
     fmt_list fmt_object_ref (bm_keys (ac_inputs a)) @ fmt_list fmt_string (bm_keys (ac_visibility a))"

lemma writes_payload:
  "writes (case p of Inline v \<Rightarrow> enc_seq [enc_u16 h 1, enc_raw_bytes h v]
     | Content c \<Rightarrow> enc_seq [enc_u16 h 2, enc_fixed h (be_bytes (cr_domain c)),
         enc_fixed h (be_bytes (cr_root c)), enc_u64 h (cr_length c), enc_u16 h (content_class_code (cr_class c))])
     (fmt_payload p) (case p of Inline v \<Rightarrow> length v < 2 ^ 32 | Content c \<Rightarrow> True)"
  unfolding fmt_payload_def
  by (cases p; simp only: artifact_payload.case; rule writes_weaken, (rule writes_intros)+) simp_all

lemma writes_receipt_option:
  "writes (case m of None \<Rightarrow> enc_u16 h 0 | Some r \<Rightarrow> enc_seq [enc_u16 h 1, enc_receipt h r])
     (fmt_receipt_option m) True"
  unfolding fmt_receipt_option_def
  by (cases m; simp only: option.case; rule writes_weaken, (rule writes_intros)+) simp_all

lemma writes_artifact: "writes (encode_artifact_body h a) (fmt_artifact a) (artifact_sized a)"
  unfolding encode_artifact_body_def fmt_artifact_def bm_len_keys
  by (rule writes_weaken, (rule writes_set writes_payload writes_receipt_option writes_intros)+)
    (simp_all add: artifact_sized_def)

definition testament_sized :: "testament_content \<Rightarrow> bool" where
  "testament_sized t \<longleftrightarrow> length (tc_artifacts t) < 2 ^ 32 \<and> length (tc_summary t) < 2 ^ 32"

definition fmt_testament :: "testament_content \<Rightarrow> u8 list" where
  "fmt_testament t = be_bytes (tc_claim t) @ fmt_receipt (tc_receipt t) @ be_bytes (tc_evidence_set t) @
     fmt_list fmt_artifact_ref (tc_artifacts t) @ fmt_string (tc_summary t) @
     be_bytes (confidence_code (tc_confidence t)) @ be_bytes (outcome_kind_code (tc_outcome t))"

lemma writes_testament: "writes (encode_testament_body h t) (fmt_testament t) (testament_sized t)"
  unfolding encode_testament_body_def fmt_testament_def
  by (rule writes_weaken, (rule writes_intros)+) (simp_all add: testament_sized_def)

definition fmt_header :: "u16 \<Rightarrow> ledger_id \<Rightarrow> object_kind \<Rightarrow> u8 list" where
  "fmt_header schema l k = authored_tag @ be_bytes schema @ fmt_ledger l @ be_bytes (object_kind_code k)"

lemma canonical_bytes_format:
  assumes "writes body bs ok" and "canonical_bytes h schema l k body = Inr out"
  shows "out = fmt_header schema l k @ bs \<and> ok"
proof -
  let ?steps = "[enc_fixed h authored_tag, enc_u16 h schema, enc_ledger h l, enc_u16 h (object_kind_code k), body]"
  have w: "writes (enc_seq ?steps) (fmt_header schema l k @ bs) ok"
    unfolding fmt_header_def by (rule writes_weaken, (rule assms writes_intros)+) simp_all
  from assms(2) have "enc_error (enc_seq ?steps enc_new) = None" "out = enc_bytes (enc_seq ?steps enc_new)"
    by (auto simp: canonical_bytes_def enc_finish_def split: option.splits)
  with writesD [OF w this(1)] show ?thesis by (simp add: enc_new_def)
qed

lemma fmt_header_append:
  "fmt_header a l k @ r = fmt_header a' l' k' @ s \<longleftrightarrow> a = a' \<and> l = l' \<and> k = k' \<and> r = s"
  by (auto simp: fmt_header_def object_kind_vocab.code_inject)

lemma handler_fmt_append [simp]: "handler_fmt a @ r = handler_fmt b @ s \<longleftrightarrow> a = b \<and> r = s"
  by (auto simp: handler_fmt_def intro: handler_ref.equality split: if_splits)

lemma decodable_handler: "decodable handler_fmt UNIV"
  by (rule decodableI) simp

lemma fmt_receipt_option_append [simp]:
  "fmt_receipt_option a @ r = fmt_receipt_option b @ s \<longleftrightarrow> a = b \<and> r = s"
  by (cases a; cases b) (auto simp: fmt_receipt_option_def)

lemma fmt_payload_append:
  assumes "fmt_payload a @ r = fmt_payload b @ s"
    "case a of Inline v \<Rightarrow> length v < 2 ^ 32 | Content c \<Rightarrow> True"
    "case b of Inline v \<Rightarrow> length v < 2 ^ 32 | Content c \<Rightarrow> True"
  shows "a = b \<and> r = s"
proof (cases a; cases b)
  fix v w assume "a = Inline v" "b = Inline w"
  with assms show ?thesis by (auto simp: fmt_payload_def dest: fmt_bytes_append)
next
  fix c d assume "a = Content c" "b = Content d"
  with assms show ?thesis
    by (auto simp: fmt_payload_def content_class_vocab.code_inject intro: content_ref.equality)
qed (use assms in \<open>auto simp: fmt_payload_def\<close>)

lemma fmt_quality_append:
  assumes "(case a of None \<Rightarrow> be_bytes (0 :: u16) | Some q \<Rightarrow> be_bytes (1 :: u16) @ fmt_string q) @ r =
      (case b of None \<Rightarrow> be_bytes (0 :: u16) | Some q \<Rightarrow> be_bytes (1 :: u16) @ fmt_string q) @ s"
    "case a of None \<Rightarrow> True | Some q \<Rightarrow> length q < 2 ^ 32"
    "case b of None \<Rightarrow> True | Some q \<Rightarrow> length q < 2 ^ 32"
  shows "a = b \<and> r = s"
  using assms by (cases a; cases b) (auto dest: fmt_string_append)

section \<open>Equal canonical bytes come from equal content\<close>

text \<open>
  What a claim's identity covers: everything but the allocated identifiers of its
  requirements, which the encoder leaves out on purpose.
\<close>

definition claim_identity :: "claim_content \<Rightarrow> claim_content" where
  "claim_identity c = c\<lparr>cc_requirements := map (\<lambda>r. RequirementRef 0 (rq_specification r)) (cc_requirements c)\<rparr>"

lemma fmt_claim_inject:
  assumes eq: "fmt_claim a = fmt_claim b" and a: "claim_sized a" and b: "claim_sized b"
    and "cc_ledger a = cc_ledger b" "cc_schema a = cc_schema b"
  shows "claim_identity a = claim_identity b"
proof -
  note sz = a [unfolded claim_sized_def] b [unfolded claim_sized_def]
  let ?spec = "\<lambda>r. be_bytes (rq_specification r)"
  from eq have occ: "cc_occurrence a = cc_occurrence b"
    and 1: "fmt_string (cc_description a) @ fmt_list fmt_relation (bm_keys (cc_relations a)) @
        fmt_list fmt_scope (bm_keys (cc_scopes a)) @ fmt_list ?spec (cc_requirements a) @ fmt_deadline (cc_deadline a)
      = fmt_string (cc_description b) @ fmt_list fmt_relation (bm_keys (cc_relations b)) @
        fmt_list fmt_scope (bm_keys (cc_scopes b)) @ fmt_list ?spec (cc_requirements b) @ fmt_deadline (cc_deadline b)"
    by (simp_all add: fmt_claim_def)
  from fmt_string_append [OF 1] sz have desc: "cc_description a = cc_description b"
    and 2: "fmt_list fmt_relation (bm_keys (cc_relations a)) @
        fmt_list fmt_scope (bm_keys (cc_scopes a)) @ fmt_list ?spec (cc_requirements a) @ fmt_deadline (cc_deadline a)
      = fmt_list fmt_relation (bm_keys (cc_relations b)) @
        fmt_list fmt_scope (bm_keys (cc_scopes b)) @ fmt_list ?spec (cc_requirements b) @ fmt_deadline (cc_deadline b)"
    by auto
  from fmt_list_append [OF decodable_relation 2] sz
  have rel: "bm_keys (cc_relations a) = bm_keys (cc_relations b)"
    and 3: "fmt_list fmt_scope (bm_keys (cc_scopes a)) @ fmt_list ?spec (cc_requirements a) @ fmt_deadline (cc_deadline a)
      = fmt_list fmt_scope (bm_keys (cc_scopes b)) @ fmt_list ?spec (cc_requirements b) @ fmt_deadline (cc_deadline b)"
    by auto
  from fmt_list_append [OF decodable_scope 3] sz
  have sc: "bm_keys (cc_scopes a) = bm_keys (cc_scopes b)"
    and 4: "fmt_list ?spec (cc_requirements a) @ fmt_deadline (cc_deadline a)
      = fmt_list ?spec (cc_requirements b) @ fmt_deadline (cc_deadline b)"
    by auto
  have "fmt_list ?spec xs = fmt_list be_bytes (map rq_specification xs)" for xs
    by (simp add: fmt_list_def comp_def)
  with 4 fmt_list_append [OF decodable_256, of "map rq_specification (cc_requirements a)"
      "fmt_deadline (cc_deadline a)" "map rq_specification (cc_requirements b)"] sz
  have req: "map rq_specification (cc_requirements a) = map rq_specification (cc_requirements b)"
    and 5: "fmt_deadline (cc_deadline a) @ [] = fmt_deadline (cc_deadline b) @ []"
    by auto
  from 5 have 6: "cc_deadline a = cc_deadline b" by (simp only: fmt_deadline_append)
  from req have "map (\<lambda>r. RequirementRef 0 (rq_specification r)) (cc_requirements a)
      = map (\<lambda>r. RequirementRef 0 (rq_specification r)) (cc_requirements b)"
    by (metis (no_types, lifting) list.map_comp comp_apply map_cong)
  with occ desc rel sc 6 assms(4,5) show ?thesis
    by (intro claim_content.equality) (auto simp: claim_identity_def bm_keys_inject)
qed

lemma fmt_testament_inject:
  assumes eq: "fmt_testament a = fmt_testament b" and "testament_sized a" "testament_sized b"
    and "tc_ledger a = tc_ledger b" "tc_schema a = tc_schema b"
  shows "a = b"
proof -
  note sz = assms(2,3) [unfolded testament_sized_def]
  from eq have 0: "tc_claim a = tc_claim b" "tc_receipt a = tc_receipt b" "tc_evidence_set a = tc_evidence_set b"
    and 1: "fmt_list fmt_artifact_ref (tc_artifacts a) @ fmt_string (tc_summary a) @
        be_bytes (confidence_code (tc_confidence a)) @ be_bytes (outcome_kind_code (tc_outcome a))
      = fmt_list fmt_artifact_ref (tc_artifacts b) @ fmt_string (tc_summary b) @
        be_bytes (confidence_code (tc_confidence b)) @ be_bytes (outcome_kind_code (tc_outcome b))"
    by (simp_all add: fmt_testament_def)
  from fmt_list_append [OF decodable_artifact_ref 1] sz have "tc_artifacts a = tc_artifacts b"
    and 2: "fmt_string (tc_summary a) @
        be_bytes (confidence_code (tc_confidence a)) @ be_bytes (outcome_kind_code (tc_outcome a))
      = fmt_string (tc_summary b) @
        be_bytes (confidence_code (tc_confidence b)) @ be_bytes (outcome_kind_code (tc_outcome b))" by auto
  moreover from fmt_string_append [OF 2] sz have "tc_summary a = tc_summary b"
    "tc_confidence a = tc_confidence b" "tc_outcome a = tc_outcome b"
    by (auto simp: confidence_vocab.code_inject outcome_kind_vocab.code_inject)
  ultimately show ?thesis using 0 assms(4,5) by (intro testament_content.equality) auto
qed

lemma fmt_artifact_inject:
  assumes eq: "fmt_artifact a = fmt_artifact b" and "artifact_sized a" "artifact_sized b"
    and "ac_ledger a = ac_ledger b" "ac_schema a = ac_schema b"
  shows "a = b"
proof -
  note sz = assms(2,3) [unfolded artifact_sized_def]
  let ?t = "\<lambda>a. be_bytes (ac_producer a) @ fmt_receipt_option (ac_receipt a) @
     fmt_list fmt_object_ref (bm_keys (ac_inputs a)) @ fmt_list fmt_string (bm_keys (ac_visibility a))"
  from fmt_string_append [OF eq [unfolded fmt_artifact_def]] sz have kind: "ac_kind a = ac_kind b"
    and sh: "ac_schema_hash a = ac_schema_hash b"
    and 1: "fmt_bytes (ac_metadata a) @ fmt_payload (ac_payload a) @ ?t a
      = fmt_bytes (ac_metadata b) @ fmt_payload (ac_payload b) @ ?t b" by auto
  from fmt_bytes_append [OF 1] sz have md: "ac_metadata a = ac_metadata b"
    and 2: "fmt_payload (ac_payload a) @ ?t a = fmt_payload (ac_payload b) @ ?t b" by auto
  from fmt_payload_append [OF 2] sz have pl: "ac_payload a = ac_payload b"
    and pr: "ac_producer a = ac_producer b" and rc: "ac_receipt a = ac_receipt b"
    and 3: "fmt_list fmt_object_ref (bm_keys (ac_inputs a)) @ fmt_list fmt_string (bm_keys (ac_visibility a))
      = fmt_list fmt_object_ref (bm_keys (ac_inputs b)) @ fmt_list fmt_string (bm_keys (ac_visibility b))" by auto
  from fmt_list_append [OF decodable_object_ref 3] sz have inp: "ac_inputs a = ac_inputs b"
    and 4: "fmt_list fmt_string (bm_keys (ac_visibility a)) @ [] = fmt_list fmt_string (bm_keys (ac_visibility b)) @ []"
    by (auto simp: bm_keys_inject)
  from fmt_list_append [OF decodable_string 4] sz have "ac_visibility a = ac_visibility b"
    by (auto simp: bm_keys_inject)
  with kind sh md pl pr rc inp assms(4,5) show ?thesis by (intro artifact_content.equality) auto
qed

lemma fmt_validation_inject:
  assumes eq: "fmt_validation a = fmt_validation b" and "validation_sized a" "validation_sized b"
    and "vc_ledger a = vc_ledger b" "vc_schema a = vc_schema b"
  shows "a = b"
proof -
  note sz = assms(2,3) [unfolded validation_sized_def]
  let ?q = "\<lambda>m. case m of None \<Rightarrow> be_bytes (0 :: u16) | Some q \<Rightarrow> be_bytes (1 :: u16) @ fmt_string q"
  let ?t = "\<lambda>v. fmt_list be_bytes (bm_keys (vc_evidence_schemas v)) @
     fmt_list be_bytes (bm_keys (vc_contributed_by v)) @ be_bytes (vc_policy_revision v)"
  from eq have 0: "vc_claim a = vc_claim b" "vc_kind a = vc_kind b" "vc_phase a = vc_phase b" "vc_mode a = vc_mode b"
    and 1: "fmt_string (vc_description a) @ ?q (vc_quality_bar a) @ be_bytes (vc_evaluator a) @
        fmt_list handler_fmt (vc_handlers a) @ ?t a
      = fmt_string (vc_description b) @ ?q (vc_quality_bar b) @ be_bytes (vc_evaluator b) @
        fmt_list handler_fmt (vc_handlers b) @ ?t b"
    by (simp_all add: fmt_validation_def fmt_specification_def validation_kind_vocab.code_inject
        validation_phase_vocab.code_inject validation_mode_vocab.code_inject)
  from fmt_string_append [OF 1] sz have desc: "vc_description a = vc_description b"
    and 2: "?q (vc_quality_bar a) @ be_bytes (vc_evaluator a) @ fmt_list handler_fmt (vc_handlers a) @ ?t a
      = ?q (vc_quality_bar b) @ be_bytes (vc_evaluator b) @ fmt_list handler_fmt (vc_handlers b) @ ?t b" by auto
  from fmt_quality_append [OF 2] sz have qb: "vc_quality_bar a = vc_quality_bar b"
    and ev: "vc_evaluator a = vc_evaluator b"
    and 3: "fmt_list handler_fmt (vc_handlers a) @ ?t a = fmt_list handler_fmt (vc_handlers b) @ ?t b" by auto
  from fmt_list_append [OF decodable_handler 3] sz have hd: "vc_handlers a = vc_handlers b"
    and 4: "?t a = ?t b" by auto
  from fmt_list_append [OF decodable_256 4] sz have es: "vc_evidence_schemas a = vc_evidence_schemas b"
    and 5: "fmt_list be_bytes (bm_keys (vc_contributed_by a)) @ be_bytes (vc_policy_revision a)
      = fmt_list be_bytes (bm_keys (vc_contributed_by b)) @ be_bytes (vc_policy_revision b)"
    by (auto simp: bm_keys_inject)
  from fmt_list_append [OF decodable_128 5] sz have "vc_contributed_by a = vc_contributed_by b"
    "vc_policy_revision a = vc_policy_revision b" by (auto simp: bm_keys_inject)
  with 0 desc qb ev hd es assms(4,5) show ?thesis by (intro validation_content.equality) auto
qed

lemma claim_bytes_format:
  "claim_canonical_bytes h c = Inr out \<Longrightarrow>
     out = fmt_header (cc_schema c) (cc_ledger c) OK_Claim @ fmt_claim c \<and> claim_sized c"
  unfolding claim_canonical_bytes_def by (rule canonical_bytes_format [OF writes_claim])

lemma validation_bytes_format:
  "validation_canonical_bytes h c = Inr out \<Longrightarrow>
     out = fmt_header (vc_schema c) (vc_ledger c) OK_Validation @ fmt_validation c \<and> validation_sized c"
  unfolding validation_canonical_bytes_def by (rule canonical_bytes_format [OF writes_validation])

lemma artifact_bytes_format:
  "artifact_canonical_bytes h c = Inr out \<Longrightarrow>
     out = fmt_header (ac_schema c) (ac_ledger c) OK_Artifact @ fmt_artifact c \<and> artifact_sized c"
  unfolding artifact_canonical_bytes_def by (rule canonical_bytes_format [OF writes_artifact])

lemma testament_bytes_format:
  "testament_canonical_bytes h c = Inr out \<Longrightarrow>
     out = fmt_header (tc_schema c) (tc_ledger c) OK_Testament @ fmt_testament c \<and> testament_sized c"
  unfolding testament_canonical_bytes_def by (rule canonical_bytes_format [OF writes_testament])

section \<open>Properties\<close>

lemma fmt_claim_identity: "fmt_claim (claim_identity c) = fmt_claim c"
  by (simp add: fmt_claim_def claim_identity_def fmt_list_def comp_def)

lemma claim_identity_sel [simp]:
  "cc_ledger (claim_identity c) = cc_ledger c" "cc_schema (claim_identity c) = cc_schema c"
  by (simp_all add: claim_identity_def)

lemma claim_bytes_exact:
  assumes "claim_canonical_bytes h a = Inr x" "claim_canonical_bytes h b = Inr y"
  shows "x = y \<longleftrightarrow> claim_identity a = claim_identity b"
proof
  note fa = claim_bytes_format [OF assms(1)] and fb = claim_bytes_format [OF assms(2)]
  assume "x = y"
  with fa fb fmt_header_append show "claim_identity a = claim_identity b"
    by (metis fmt_claim_inject)
next
  note fa = claim_bytes_format [OF assms(1)] and fb = claim_bytes_format [OF assms(2)]
  assume eq: "claim_identity a = claim_identity b"
  then have "cc_ledger a = cc_ledger b" "cc_schema a = cc_schema b" "fmt_claim a = fmt_claim b"
    by (metis claim_identity_sel, metis claim_identity_sel, metis fmt_claim_identity)
  with fa fb show "x = y" by simp
qed




datatype authored =
    AuthoredClaim claim_content
  | AuthoredValidation validation_content
  | AuthoredArtifact artifact_content
  | AuthoredTestament testament_content

definition authored_bytes :: "host \<Rightarrow> authored \<Rightarrow> canonical_error + u8 list" where
  "authored_bytes h a = (case a of
      AuthoredClaim c \<Rightarrow> claim_canonical_bytes h c
    | AuthoredValidation c \<Rightarrow> validation_canonical_bytes h c
    | AuthoredArtifact c \<Rightarrow> artifact_canonical_bytes h c
    | AuthoredTestament c \<Rightarrow> testament_canonical_bytes h c)"

definition same_authored :: "authored \<Rightarrow> authored \<Rightarrow> bool" where
  "same_authored a b = (case (a, b) of
      (AuthoredClaim c, AuthoredClaim d) \<Rightarrow> claim_identity c = claim_identity d
    | _ \<Rightarrow> a = b)"

lemma authored_bytes_same:
  assumes "authored_bytes h a = Inr x" "authored_bytes h b = Inr x"
  shows "same_authored a b"
proof -
  note formats = claim_bytes_format validation_bytes_format artifact_bytes_format testament_bytes_format
  show ?thesis
    using assms unfolding authored_bytes_def same_authored_def
    by (cases a; cases b)
      (auto dest!: formats simp: fmt_header_append
         intro: fmt_claim_inject fmt_validation_inject fmt_artifact_inject fmt_testament_inject)
qed

definition sample_validation :: "string option \<Rightarrow> authored" where
  "sample_validation bar = AuthoredValidation \<lparr>vc_ledger = LedgerId 1 2, vc_schema = 1, vc_claim = 3, vc_kind = VK_Test,
     vc_phase = PH_WholeWork, vc_mode = MO_Required, vc_description = ''a'', vc_quality_bar = bar, vc_evaluator = 4,
     vc_handlers = [], vc_evidence_schemas = bm_empty, vc_contributed_by = bm_empty, vc_policy_revision = 5\<rparr>"

definition sample_artifact :: "string \<Rightarrow> u8 list \<Rightarrow> authored" where
  "sample_artifact kind metadata = AuthoredArtifact \<lparr>ac_ledger = LedgerId 1 2, ac_schema = 1, ac_kind = kind,
     ac_schema_hash = 3, ac_metadata = metadata, ac_payload = Inline [7], ac_producer = 4, ac_receipt = None,
     ac_inputs = bm_empty, ac_visibility = bm_empty\<rparr>"

definition sample_testament :: "string \<Rightarrow> authored" where
  "sample_testament summary = AuthoredTestament \<lparr>tc_ledger = LedgerId 1 2, tc_schema = 1, tc_claim = 3,
     tc_receipt = ReceiptFence 4 1, tc_evidence_set = 5, tc_artifacts = [], tc_summary = summary,
     tc_confidence = CF_Committed, tc_outcome = OC_Complete\<rparr>"

text \<open>
  C26.  Equal canonical bytes come from objects of the same kind and the same identity: the
  encodings of two authored objects agree exactly when both are validations, artifacts or
  testaments with equal content, or both are claims that agree on everything but the allocated
  identifiers of their requirements, which a claim's encoding leaves out.
\<close>

theorem authored_bytes_exact:
  assumes "authored_bytes h a = Inr x" "authored_bytes h b = Inr y"
  shows "x = y \<longleftrightarrow> same_authored a b"
proof
  assume "x = y"
  with assms show "same_authored a b" by (auto intro: authored_bytes_same)
next
  assume "same_authored a b"
  with assms show "x = y"
    by (auto simp: same_authored_def authored_bytes_def dest: claim_bytes_exact split: authored.splits)
qed

theorem authored_bytes_exact_witness:
  "\<exists>x1 x2 x3 x4 x5 x6.
     authored_bytes sample_host (sample_validation None) = Inr x1
     \<and> authored_bytes sample_host (sample_validation (Some [])) = Inr x2 \<and> x1 \<noteq> x2
     \<and> authored_bytes sample_host (sample_artifact ''ab'' []) = Inr x3
     \<and> authored_bytes sample_host (sample_artifact ''a'' [98]) = Inr x4 \<and> x3 \<noteq> x4
     \<and> authored_bytes sample_host (sample_testament ''b'') = Inr x5
     \<and> authored_bytes sample_host (sample_testament ''c'') = Inr x6 \<and> x5 \<noteq> x6 \<and> x5 \<noteq> x4"
proof -
  have ok: "\<not> isl r \<Longrightarrow> r = Inr (projr r)" for r :: "canonical_error + u8 list" by simp
  have x1: "authored_bytes sample_host (sample_validation None)
      = Inr (projr (authored_bytes sample_host (sample_validation None)))" by (rule ok) code_simp
  have x2: "authored_bytes sample_host (sample_validation (Some []))
      = Inr (projr (authored_bytes sample_host (sample_validation (Some []))))" by (rule ok) code_simp
  have x3: "authored_bytes sample_host (sample_artifact ''ab'' [])
      = Inr (projr (authored_bytes sample_host (sample_artifact ''ab'' [])))" by (rule ok) code_simp
  have x4: "authored_bytes sample_host (sample_artifact ''a'' [98])
      = Inr (projr (authored_bytes sample_host (sample_artifact ''a'' [98])))" by (rule ok) code_simp
  have x5: "authored_bytes sample_host (sample_testament ''b'')
      = Inr (projr (authored_bytes sample_host (sample_testament ''b'')))" by (rule ok) code_simp
  have x6: "authored_bytes sample_host (sample_testament ''c'')
      = Inr (projr (authored_bytes sample_host (sample_testament ''c'')))" by (rule ok) code_simp
  note defs = same_authored_def sample_validation_def sample_artifact_def sample_testament_def
  have "\<not> same_authored (sample_validation None) (sample_validation (Some []))"
    "\<not> same_authored (sample_artifact ''ab'' []) (sample_artifact ''a'' [98])"
    "\<not> same_authored (sample_testament ''b'') (sample_testament ''c'')"
    "\<not> same_authored (sample_testament ''b'') (sample_artifact ''a'' [98])"
    by (simp_all add: defs)
  with authored_bytes_exact [OF x1 x2] authored_bytes_exact [OF x3 x4] authored_bytes_exact [OF x5 x6]
    authored_bytes_exact [OF x5 x4] x1 x2 x3 x4 x5 x6 show ?thesis by blast
qed

end
