(* ===== verification/Commands.thy ===== *)
theory Commands
  imports Canonical
begin

text \<open>
  Commands, outcomes, deltas and limits: \<open>focal-model/src/command.rs\<close>, the command target
  of \<open>semantics_v1.rs\<close>, and the request identity of \<open>canonical.rs\<close> and \<open>digest.rs\<close>.  A
  refusal keeps its error code; the human-readable detail string next to it is diagnostic
  text no code branches on and is left out.  \<open>DeltaFact::Native\<close>, which only the native
  engine produces, is left out as well.

  The body of a request identity is serialized by the postcard library; the record \<open>codec\<close>
  carries that library's results as parameters.
\<close>

section \<open>Commands\<close>

record authority_context =
  au_runtime :: bool
  au_cause :: cause
  au_policy_revision :: u64
  au_logical_time :: u64
  au_evidence :: "evidence_attestation list"

datatype (plugins only: code size) command =
    NegotiateEpoch request_epoch
  | AdvanceEpochFloor request_epoch
  | GenerateClaim new_claim
  | GenerateClaimBatch "new_claim list"
  | PostClaim claim_id
  | AcquireReceipt claim_id receipt_id u64
  | AdoptReceipt claim_id receipt_fence receipt_id participant_id u64
  | RecordProgress claim_id receipt_fence string
  | BeginEvidenceSet claim_id receipt_fence evidence_set_id
  | AttachArtifact claim_id receipt_fence evidence_set_id new_artifact
  | CloseTestament claim_id receipt_fence testament_id evidence_set_id "artifact_ref list" string
      confidence outcome_kind
  | AcknowledgeTestament claim_id testament_id
  | BeginWholeWorkValidation claim_id
  | BeginIncrementValidation claim_id validation_id content_hash content_hash
  | RecordValidationVerdict verdict_record
  | CompleteWholeWork claim_id
  | FailPost claim_id artifact_ref
  | FailReceipt claim_id artifact_ref
  | FailTestamentGeneration claim_id testament_id evidence_set_id new_artifact string
  | CancelClaim claim_id string
  | RevokeClaim claim_id string
  | ExpireClaim claim_id timer_id u64 u64
  | SupersedeClaim claim_id new_claim
  | RegisterMonitor monitor_id claim_id "wait_predicate btree_set" deadline
  | RebindMonitor monitor_id claim_id claim_id
  | ReleaseScope claim_id
  | RegisterArtifact new_artifact
  | ExpireMonitor monitor_id timer_id u64 u64
  | RecordFencedValidationVerdict verdict_record "receipt_fence option"

primrec command_code :: "command \<Rightarrow> u16" where
  "command_code (NegotiateEpoch _) = 1"
| "command_code (AdvanceEpochFloor _) = 2"
| "command_code (GenerateClaim _) = 3"
| "command_code (GenerateClaimBatch _) = 4"
| "command_code (PostClaim _) = 5"
| "command_code (AcquireReceipt _ _ _) = 6"
| "command_code (AdoptReceipt _ _ _ _ _) = 7"
| "command_code (RecordProgress _ _ _) = 8"
| "command_code (BeginEvidenceSet _ _ _) = 9"
| "command_code (AttachArtifact _ _ _ _) = 10"
| "command_code (CloseTestament _ _ _ _ _ _ _ _) = 11"
| "command_code (AcknowledgeTestament _ _) = 12"
| "command_code (BeginWholeWorkValidation _) = 13"
| "command_code (BeginIncrementValidation _ _ _ _) = 14"
| "command_code (RecordValidationVerdict _) = 15"
| "command_code (CompleteWholeWork _) = 16"
| "command_code (FailPost _ _) = 17"
| "command_code (FailReceipt _ _) = 18"
| "command_code (FailTestamentGeneration _ _ _ _ _) = 19"
| "command_code (CancelClaim _ _) = 20"
| "command_code (RevokeClaim _ _) = 21"
| "command_code (ExpireClaim _ _ _ _) = 22"
| "command_code (SupersedeClaim _ _) = 23"
| "command_code (RegisterMonitor _ _ _ _) = 24"
| "command_code (RebindMonitor _ _ _) = 25"
| "command_code (ReleaseScope _) = 26"
| "command_code (RegisterArtifact _) = 27"
| "command_code (ExpireMonitor _ _ _ _) = 28"
| "command_code (RecordFencedValidationVerdict _ _) = 29"

primrec command_claim_id :: "command \<Rightarrow> claim_id option" where
  "command_claim_id (NegotiateEpoch _) = None"
| "command_claim_id (AdvanceEpochFloor _) = None"
| "command_claim_id (GenerateClaim c) = Some (nc_id c)"
| "command_claim_id (GenerateClaimBatch _) = None"
| "command_claim_id (PostClaim c) = Some c"
| "command_claim_id (AcquireReceipt c _ _) = Some c"
| "command_claim_id (AdoptReceipt c _ _ _ _) = Some c"
| "command_claim_id (RecordProgress c _ _) = Some c"
| "command_claim_id (BeginEvidenceSet c _ _) = Some c"
| "command_claim_id (AttachArtifact c _ _ _) = Some c"
| "command_claim_id (CloseTestament c _ _ _ _ _ _ _) = Some c"
| "command_claim_id (AcknowledgeTestament c _) = Some c"
| "command_claim_id (BeginWholeWorkValidation c) = Some c"
| "command_claim_id (BeginIncrementValidation c _ _ _) = Some c"
| "command_claim_id (RecordValidationVerdict _) = None"
| "command_claim_id (CompleteWholeWork c) = Some c"
| "command_claim_id (FailPost c _) = Some c"
| "command_claim_id (FailReceipt c _) = Some c"
| "command_claim_id (FailTestamentGeneration c _ _ _ _) = Some c"
| "command_claim_id (CancelClaim c _) = Some c"
| "command_claim_id (RevokeClaim c _) = Some c"
| "command_claim_id (ExpireClaim c _ _ _) = Some c"
| "command_claim_id (SupersedeClaim p _) = Some p"
| "command_claim_id (RegisterMonitor _ ow _ _) = Some ow"
| "command_claim_id (RebindMonitor _ _ _) = None"
| "command_claim_id (ReleaseScope c) = Some c"
| "command_claim_id (RegisterArtifact _) = None"
| "command_claim_id (ExpireMonitor _ _ _ _) = None"
| "command_claim_id (RecordFencedValidationVerdict _ _) = None"

record authenticated_input =
  ai_ledger :: ledger_id
  ai_principal :: participant_id
  ai_request_epoch :: request_epoch
  ai_request_id :: request_id
  ai_expected_revision :: "object_revision option"
  ai_authority :: authority_context
  ai_command :: command

section \<open>Results\<close>

datatype request_key =
  RequestKey (rk_principal: participant_id) (rk_epoch: request_epoch) (rk_id: request_id)

primrec request_sort_key :: "request_key \<Rightarrow> nat list" where
  "request_sort_key (RequestKey p e i) = [unat p, unat e, unat i]"

lemma request_sort_key_inject: "request_sort_key a = request_sort_key b \<longleftrightarrow> a = b"
  by (cases a; cases b) (auto simp: word_unat_eq_iff [symmetric])

instantiation request_key :: linorder
begin
definition less_eq_request_key :: "request_key \<Rightarrow> request_key \<Rightarrow> bool" where
  "less_eq_request_key a b \<longleftrightarrow> request_sort_key a \<le> request_sort_key b"
definition less_request_key :: "request_key \<Rightarrow> request_key \<Rightarrow> bool" where
  "less_request_key a b \<longleftrightarrow> request_sort_key a < request_sort_key b"
instance
  by standard (auto simp: less_eq_request_key_def less_request_key_def request_sort_key_inject
      dest: order_antisym)
end

datatype command_result =
    EpochAdmitted request_epoch
  | EpochFloorAdvanced request_epoch
  | ClaimsGenerated "claim_id list"
  | ClaimsExisting "claim_id list"
  | ClaimResult claim_id claim_status
  | ReceiptResult claim_id receipt_fence
  | EvidenceSetResult evidence_set_id
  | ArtifactResult artifact_ref
  | TestamentResult testament_id
  | ValidationResult validation_run_id
  | MonitorResult monitor_id
  | Noop

record mutation_receipt =
  mr_ledger :: ledger_id
  mr_key :: request_key
  mr_sequence :: session_seq
  mr_command_hash :: content_hash
  mr_outcome :: command_result

datatype inform_reason =
    InformTerminal claim_status
  | InformStatus claim_status
  | DependencyPending claim_id
  | ValidationPending
  | AlreadyApplied
  | InformStandingDenied

datatype domain_outcome =
    Refuse error_code
  | Inform "claim_id option" inform_reason
  | Duplicate mutation_receipt

definition outcome_of_canonical :: "canonical_error \<Rightarrow> domain_outcome" where
  "outcome_of_canonical e = (case e of
      CE_Length \<Rightarrow> Refuse EC_Capacity
    | CE_Capacity \<Rightarrow> Refuse EC_Capacity
    | CE_Codec \<Rightarrow> Refuse EC_InvalidSchema)"

datatype delta_fact =
    FactStatus "claim_status option" claim_status "claim_id option"
  | FactProgress string
  | FactReceipt receipt
  | FactEvidenceSet evidence_set_id
  | FactArtifact artifact_ref
  | FactTestament testament_id content_hash
  | FactValidationScheduled validation_run_id
  | FactVerdict verdict_record
  | FactScope monitor_id
  | FactEpoch request_epoch
  | FactLocalCompletion

record delta =
  de_schema :: u16
  de_id :: delta_id
  de_action :: lifecycle_action
  de_actor :: participant_id
  de_claim :: "claim_id option"
  de_fact :: delta_fact

datatype effect_intent =
    DispatchClaim claim_id
  | ExecuteValidation validation_run_id handler_ref participant_id u32 content_hash bool
  | CancelExecution claim_id "receipt_fence option"
  | MonitorReleased monitor_id
  | ScheduleDeadline claim_id deadline

record limits =
  lim_max_objects :: nat
  lim_max_command_bytes :: nat
  lim_max_text_bytes :: nat
  lim_max_relations :: nat
  lim_max_requirements :: nat
  lim_max_batch :: nat
  lim_max_artifacts_per_set :: nat
  lim_max_inline_bytes :: nat
  lim_max_requests :: nat
  lim_max_monitors :: nat
  lim_max_graph_visits :: nat

definition limits_default :: limits where
  "limits_default = \<lparr>
     lim_max_objects = 100000,
     lim_max_command_bytes = 1024 * 1024,
     lim_max_text_bytes = 16 * 1024,
     lim_max_relations = 256,
     lim_max_requirements = 64,
     lim_max_batch = 256,
     lim_max_artifacts_per_set = 1024,
     lim_max_inline_bytes = 16 * 1024,
     lim_max_requests = 100000,
     lim_max_monitors = 10000,
     lim_max_graph_visits = 1000000\<rparr>"

section \<open>Request identity\<close>

text \<open>
  The streaming digest of \<open>digest.rs\<close>: a hasher (the bytes it has consumed), a 1024-byte
  buffer and the count of its used bytes.  \<open>None\<close> is \<open>SerializeBufferFull\<close>.
\<close>

definition BUFFER_BYTES :: nat where
  "BUFFER_BYTES = 1024"

record digest =
  dg_hashed :: "u8 list"
  dg_buffer :: "u8 list"
  dg_used :: nat

definition digest_new :: digest where
  "digest_new = \<lparr>dg_hashed = [], dg_buffer = replicate BUFFER_BYTES 0, dg_used = 0\<rparr>"

definition digest_flush :: "digest \<Rightarrow> digest option" where
  "digest_flush d =
     (if dg_used d \<le> length (dg_buffer d)
      then Some (d\<lparr>dg_hashed := dg_hashed d @ take (dg_used d) (dg_buffer d), dg_used := 0\<rparr>)
      else None)"

definition digest_update :: "u8 list \<Rightarrow> digest \<Rightarrow> digest option" where
  "digest_update bs d =
     (case (if dg_used d \<noteq> 0 then digest_flush d else Some d) of
        None \<Rightarrow> None
      | Some d' \<Rightarrow> Some (d'\<lparr>dg_hashed := dg_hashed d' @ bs\<rparr>))"

definition digest_try_push :: "u8 \<Rightarrow> digest \<Rightarrow> digest option" where
  "digest_try_push b d =
     (if dg_used d < length (dg_buffer d) then
        (case usize_add (dg_used d) 1 of
           None \<Rightarrow> None
         | Some u \<Rightarrow>
             (let d' = d\<lparr>dg_buffer := (dg_buffer d)[dg_used d := b], dg_used := u\<rparr>
              in if dg_used d' = BUFFER_BYTES then digest_flush d' else Some d'))
      else None)"

definition digest_finalize :: "host \<Rightarrow> digest \<Rightarrow> content_hash option" where
  "digest_finalize h d = map_option (\<lambda>d'. blake3 h (dg_hashed d')) (digest_flush d)"

text \<open>
  The serializer is a parameter: the bytes it allocates for a command body, the size it
  computes for one, the writes it performs on a flavor, and the size of a whole input.
  \<open>None\<close> is a serializer error.
\<close>

datatype flavor_write = WritePush u8 | WriteExtend "u8 list"

record codec =
  postcard_command_body :: "object_revision option \<Rightarrow> command \<Rightarrow> u8 list option"
  postcard_command_size :: "object_revision option \<Rightarrow> command \<Rightarrow> nat option"
  postcard_command_writes :: "object_revision option \<Rightarrow> command \<Rightarrow> flavor_write list option"
  postcard_input_size :: "authenticated_input \<Rightarrow> nat option"

fun digest_updates :: "u8 list list \<Rightarrow> digest \<Rightarrow> digest option" where
  "digest_updates [] d = Some d"
| "digest_updates (bs # r) d = Option.bind (digest_update bs d) (digest_updates r)"

definition command_digest :: "ledger_id \<Rightarrow> participant_id \<Rightarrow> command \<Rightarrow> nat \<Rightarrow> canonical_error + digest" where
  "command_digest l p c n = (case u32_of_len n of
      None \<Rightarrow> Inl CE_Length
    | Some w \<Rightarrow>
        (case digest_updates
           [as_bytes ''focal.command'' @ [0], be_bytes (1 :: u16), be_bytes (lid_tenant l),
            be_bytes (lid_session l), be_bytes p, be_bytes (command_code c), be_bytes w] digest_new of
           None \<Rightarrow> Inl CE_Codec
         | Some d \<Rightarrow> Inr d))"

definition command_parts_hash ::
    "host \<Rightarrow> codec \<Rightarrow> ledger_id \<Rightarrow> participant_id \<Rightarrow> object_revision option \<Rightarrow> command
       \<Rightarrow> canonical_error + content_hash" where
  "command_parts_hash h k l p rv c = (case postcard_command_body k rv c of
      None \<Rightarrow> Inl CE_Codec
    | Some bs \<Rightarrow> (case command_digest l p c (length bs) of
        Inl e \<Rightarrow> Inl e
      | Inr d \<Rightarrow> (case digest_update bs d of
          None \<Rightarrow> Inl CE_Codec
        | Some d' \<Rightarrow> (case digest_finalize h d' of None \<Rightarrow> Inl CE_Codec | Some x \<Rightarrow> Inr x))))"

definition digest_try_extend :: "u8 list \<Rightarrow> digest \<Rightarrow> digest option" where
  "digest_try_extend bs d = digest_update bs d"

fun digest_writes :: "flavor_write list \<Rightarrow> digest \<Rightarrow> digest option" where
  "digest_writes [] d = Some d"
| "digest_writes (WritePush b # r) d = Option.bind (digest_try_push b d) (digest_writes r)"
| "digest_writes (WriteExtend bs # r) d = Option.bind (digest_try_extend bs d) (digest_writes r)"

definition command_parts_hash_streamed ::
    "host \<Rightarrow> codec \<Rightarrow> ledger_id \<Rightarrow> participant_id \<Rightarrow> object_revision option \<Rightarrow> command
       \<Rightarrow> canonical_error + content_hash" where
  "command_parts_hash_streamed h k l p rv c = (case postcard_command_size k rv c of
      None \<Rightarrow> Inl CE_Codec
    | Some n \<Rightarrow> (case command_digest l p c n of
        Inl e \<Rightarrow> Inl e
      | Inr d \<Rightarrow> (case postcard_command_writes k rv c of
          None \<Rightarrow> Inl CE_Codec
        | Some ws \<Rightarrow> (case Option.bind (digest_writes ws d) (digest_finalize h) of
            None \<Rightarrow> Inl CE_Codec
          | Some x \<Rightarrow> Inr x))))"

definition command_hash :: "host \<Rightarrow> codec \<Rightarrow> authenticated_input \<Rightarrow> canonical_error + content_hash" where
  "command_hash h k i =
     command_parts_hash h k (ai_ledger i) (ai_principal i) (ai_expected_revision i) (ai_command i)"

subsection \<open>The streaming digest hashes the concatenation\<close>

definition digest_wf :: "digest \<Rightarrow> bool" where
  "digest_wf d \<longleftrightarrow> length (dg_buffer d) = BUFFER_BYTES \<and> dg_used d < BUFFER_BYTES"

definition digest_content :: "digest \<Rightarrow> u8 list" where
  "digest_content d = dg_hashed d @ take (dg_used d) (dg_buffer d)"

lemma digest_new_wf: "digest_wf digest_new" "digest_content digest_new = []"
  by (simp_all add: digest_wf_def digest_new_def BUFFER_BYTES_def digest_content_def)

lemma digest_flush_wf:
  assumes "length (dg_buffer d) = BUFFER_BYTES" "dg_used d \<le> BUFFER_BYTES"
  shows "\<exists>d'. digest_flush d = Some d' \<and> digest_wf d' \<and> digest_content d' = digest_content d"
  using assms by (auto simp: digest_flush_def digest_wf_def digest_content_def BUFFER_BYTES_def)

lemma digest_update_wf:
  assumes "digest_wf d"
  shows "\<exists>d'. digest_update bs d = Some d' \<and> digest_wf d' \<and> digest_content d' = digest_content d @ bs"
  using assms
  by (auto simp: digest_update_def digest_flush_def digest_wf_def digest_content_def BUFFER_BYTES_def)

lemma digest_try_push_wf:
  assumes "digest_wf d"
  shows "\<exists>d'. digest_try_push b d = Some d' \<and> digest_wf d' \<and> digest_content d' = digest_content d @ [b]"
proof -
  let ?d = "d\<lparr>dg_buffer := (dg_buffer d)[dg_used d := b], dg_used := Suc (dg_used d)\<rparr>"
  have len: "length (dg_buffer d) = BUFFER_BYTES" and used: "dg_used d < BUFFER_BYTES"
    using assms by (auto simp: digest_wf_def)
  have "take (Suc (dg_used d)) ((dg_buffer d)[dg_used d := b]) = take (dg_used d) (dg_buffer d) @ [b]"
    using len used by (simp add: take_Suc_conv_app_nth)
  then have content: "digest_content ?d = digest_content d @ [b]"
    by (simp add: digest_content_def)
  have add: "usize_add (dg_used d) 1 = Some (Suc (dg_used d))"
    using used by (simp add: usize_add_def BUFFER_BYTES_def usize_max_def)
  show ?thesis
  proof (cases "Suc (dg_used d) = BUFFER_BYTES")
    case True
    then have "digest_try_push b d = digest_flush ?d"
      using len used add by (simp add: digest_try_push_def Let_def)
    with digest_flush_wf [of ?d] content len True show ?thesis by auto
  next
    case False
    with len used add content show ?thesis
      by (auto simp: digest_try_push_def Let_def digest_wf_def)
  qed
qed

lemma digest_finalize_content: "digest_wf d \<Longrightarrow> digest_finalize h d = Some (blake3 h (digest_content d))"
  by (auto simp: digest_finalize_def digest_flush_def digest_wf_def digest_content_def)

lemma digest_updates_wf:
  "digest_wf d \<Longrightarrow>
     \<exists>d'. digest_updates bss d = Some d' \<and> digest_wf d' \<and> digest_content d' = digest_content d @ concat bss"
proof (induction bss arbitrary: d)
  case (Cons bs bss)
  from digest_update_wf [OF Cons.prems, of bs] obtain d1 where
    "digest_update bs d = Some d1" "digest_wf d1" "digest_content d1 = digest_content d @ bs" by blast
  with Cons.IH [of d1] show ?case by auto
qed simp

definition command_header :: "ledger_id \<Rightarrow> participant_id \<Rightarrow> command \<Rightarrow> u32 \<Rightarrow> u8 list" where
  "command_header l p c n = as_bytes ''focal.command'' @ [0] @ be_bytes (1 :: u16) @ be_bytes (lid_tenant l)
     @ be_bytes (lid_session l) @ be_bytes p @ be_bytes (command_code c) @ be_bytes n"

lemma command_digest_content:
  assumes "u32_of_len n = Some w"
  obtains d where "command_digest l p c n = Inr d" "digest_wf d" "digest_content d = command_header l p c w"
proof -
  let ?parts = "[as_bytes ''focal.command'' @ [0], be_bytes (1 :: u16), be_bytes (lid_tenant l),
            be_bytes (lid_session l), be_bytes p, be_bytes (command_code c), be_bytes w]"
  obtain d where "digest_updates ?parts digest_new = Some d" "digest_wf d"
    "digest_content d = digest_content digest_new @ concat ?parts"
    using digest_updates_wf [OF digest_new_wf(1), of ?parts] by blast
  with assms that show thesis
    by (simp add: command_digest_def command_header_def digest_new_wf)
qed

text \<open>The request identity is the hash of header and body, whatever the buffering.\<close>

lemma command_parts_hash_eq [code]:
  "command_parts_hash h k l p rv c = (case postcard_command_body k rv c of
      None \<Rightarrow> Inl CE_Codec
    | Some bs \<Rightarrow> (case u32_of_len (length bs) of
        None \<Rightarrow> Inl CE_Length
      | Some w \<Rightarrow> Inr (blake3 h (command_header l p c w @ bs))))"
proof (cases "postcard_command_body k rv c")
  case (Some bs)
  show ?thesis
  proof (cases "u32_of_len (length bs)")
    case None
    with Some show ?thesis by (simp add: command_parts_hash_def command_digest_def)
  next
    case w: (Some w)
    obtain d where d: "command_digest l p c (length bs) = Inr d" "digest_wf d"
      "digest_content d = command_header l p c w"
      using command_digest_content [OF w] by blast
    obtain d' where "digest_update bs d = Some d'" "digest_wf d'" "digest_content d' = digest_content d @ bs"
      using digest_update_wf [OF d(2)] by blast
    with Some w d show ?thesis by (simp add: command_parts_hash_def digest_finalize_content)
  qed
qed (simp add: command_parts_hash_def)

subsection \<open>Streaming the body\<close>

primrec written :: "flavor_write \<Rightarrow> u8 list" where
  "written (WritePush b) = [b]"
| "written (WriteExtend bs) = bs"

lemma digest_writes_wf:
  "digest_wf d \<Longrightarrow>
     \<exists>d'. digest_writes ws d = Some d' \<and> digest_wf d' \<and> digest_content d' = digest_content d @ concat (map written ws)"
proof (induction ws arbitrary: d)
  case (Cons w ws)
  have "\<exists>d1. digest_writes (w # ws) d = digest_writes ws d1 \<and> digest_wf d1
      \<and> digest_content d1 = digest_content d @ written w"
    using digest_try_push_wf [OF Cons.prems] digest_update_wf [OF Cons.prems]
    by (cases w) (force simp: digest_try_extend_def)+
  with Cons.IH show ?case by (metis append.assoc concat.simps(2) list.simps(9))
qed simp

subsection \<open>Properties\<close>

text \<open>
  C27.  Every way of feeding a digest hashes the same bytes: any mixture of single-byte
  pushes and bulk extensions succeeds, across every buffer boundary, and finalizing gives the
  hash of the concatenation.
\<close>

theorem digest_streaming:
  "\<exists>d. digest_writes ws digest_new = Some d \<and> digest_finalize h d = Some (blake3 h (concat (map written ws)))"
  using digest_writes_wf [OF digest_new_wf(1), of ws] digest_finalize_content
  by (fastforce simp: digest_new_wf)

text \<open>
  C28.  The streamed request identity of managed ingress is the identity legacy admission
  computes from the allocated body, for any serializer whose writes concatenate to the bytes
  it allocates and whose computed size is their length.
\<close>

theorem streamed_hash_agrees:
  assumes "postcard_command_body k rv c = map_option (\<lambda>ws. concat (map written ws)) (postcard_command_writes k rv c)"
    and "postcard_command_size k rv c = map_option length (postcard_command_body k rv c)"
  shows "command_parts_hash_streamed h k l p rv c = command_parts_hash h k l p rv c"
proof (cases "postcard_command_writes k rv c")
  case (Some ws)
  let ?bs = "concat (map written ws)"
  show ?thesis
  proof (cases "u32_of_len (length ?bs)")
    case None
    with Some assms show ?thesis
      by (simp add: command_parts_hash_eq command_parts_hash_streamed_def command_digest_def)
  next
    case w: (Some w)
    obtain d where d: "command_digest l p c (length ?bs) = Inr d" "digest_wf d"
      "digest_content d = command_header l p c w"
      using command_digest_content [OF w] by blast
    obtain d' where "digest_writes ws d = Some d'" "digest_wf d'" "digest_content d' = digest_content d @ ?bs"
      using digest_writes_wf [OF d(2)] by blast
    with Some w d assms show ?thesis
      by (simp add: command_parts_hash_eq command_parts_hash_streamed_def digest_finalize_content)
  qed
qed (use assms in \<open>simp add: command_parts_hash_eq command_parts_hash_streamed_def\<close>)

definition sample_codec :: codec where
  "sample_codec = \<lparr>postcard_command_body = (\<lambda>_ c. Some (be_bytes (command_code c))),
     postcard_command_size = (\<lambda>_ _. Some 2),
     postcard_command_writes = (\<lambda>_ c. Some [WritePush (be_bytes (command_code c) ! 0),
       WriteExtend [be_bytes (command_code c) ! 1]]),
     postcard_input_size = (\<lambda>_. Some 100)\<rparr>"

theorem streamed_hash_agrees_witness:
  "\<exists>x. command_parts_hash_streamed sample_host sample_codec (LedgerId 1 2) 10 None (PostClaim 7) = Inr x
     \<and> command_parts_hash sample_host sample_codec (LedgerId 1 2) 10 None (PostClaim 7) = Inr x"
proof -
  have "command_parts_hash sample_host sample_codec (LedgerId 1 2) 10 None (PostClaim 7) = Inr 72" by code_simp
  moreover have "postcard_command_body sample_codec None (PostClaim 7)
      = map_option (\<lambda>ws. concat (map written ws)) (postcard_command_writes sample_codec None (PostClaim 7))"
    by code_simp
  moreover have "postcard_command_size sample_codec None (PostClaim 7)
      = map_option length (postcard_command_body sample_codec None (PostClaim 7))"
    by code_simp
  ultimately show ?thesis using streamed_hash_agrees by metis
qed

end
