(* ===== verification/Reducer.thy ===== *)
theory Reducer
  imports Commands
begin

text \<open>
  The ledger state of \<open>focal-core/src/lib.rs\<close> and the reducer of \<open>reduce.rs\<close>: its working
  state (draft rows, deltas, effects) threaded through steps that may end in a
  \<open>DomainOutcome\<close>, the guards every command shares, the status transition and the creation
  of artifacts and testaments.

  The reducer runs here on the draft it was given, as the retained serial path of
  \<open>Core::apply_serial\<close> does: the access recorder is the disabled one, whose \<open>scratch\<close>,
  \<open>charge\<close> and \<open>check_capacity\<close> always succeed, so those calls have no counterpart below.
\<close>

section \<open>State\<close>

record epoch_window =
  ew_minimum :: request_epoch
  ew_admitted :: "request_epoch btree_set"

record state =
  st_ledger :: ledger_id
  st_sequence :: session_seq
  st_claims :: "(claim_id, claim) btree_map"
  st_validations :: "(validation_id, validation) btree_map"
  st_artifacts :: "(artifact_id, artifact) btree_map"
  st_testaments :: "(testament_id, testament) btree_map"
  st_evidence_sets :: "(evidence_set_id, evidence_set) btree_map"
  st_runs :: "(validation_run_id, validation_run) btree_map"
  st_monitors :: "(monitor_id, monitor) btree_map"
  st_identities :: "(object_kind \<times> content_hash, object_id) btree_map"
  st_epochs :: "(participant_id, epoch_window) btree_map"
  st_receipts :: "(request_key, mutation_receipt) btree_map"

definition state_new :: "ledger_id \<Rightarrow> state" where
  "state_new l = \<lparr>
     st_ledger = l, st_sequence = 0,
     st_claims = bm_empty, st_validations = bm_empty, st_artifacts = bm_empty,
     st_testaments = bm_empty, st_evidence_sets = bm_empty, st_runs = bm_empty,
     st_monitors = bm_empty, st_identities = bm_empty, st_epochs = bm_empty,
     st_receipts = bm_empty\<rparr>"

text \<open>Lookups and status tests used by many definitions.\<close>

abbreviation claim_at :: "state \<Rightarrow> claim_id \<Rightarrow> claim option" where
  "claim_at s i \<equiv> bm_get (st_claims s) i"

abbreviation status_of :: "claim \<Rightarrow> claim_status" where
  "status_of c \<equiv> cl_status (so_lifecycle c)"

abbreviation put_claim :: "claim_id \<Rightarrow> claim \<Rightarrow> state \<Rightarrow> state" where
  "put_claim i c s \<equiv> s\<lparr>st_claims := bm_insert i c (st_claims s)\<rparr>"

abbreviation put_set :: "evidence_set_id \<Rightarrow> evidence_set \<Rightarrow> state \<Rightarrow> state" where
  "put_set i e s \<equiv> s\<lparr>st_evidence_sets := bm_insert i e (st_evidence_sets s)\<rparr>"

abbreviation put_run :: "validation_run_id \<Rightarrow> validation_run \<Rightarrow> state \<Rightarrow> state" where
  "put_run i x s \<equiv> s\<lparr>st_runs := bm_insert i x (st_runs s)\<rparr>"

abbreviation put_validation :: "validation_id \<Rightarrow> validation \<Rightarrow> state \<Rightarrow> state" where
  "put_validation i v s \<equiv> s\<lparr>st_validations := bm_insert i v (st_validations s)\<rparr>"

abbreviation put_testament :: "testament_id \<Rightarrow> testament \<Rightarrow> state \<Rightarrow> state" where
  "put_testament i t s \<equiv> s\<lparr>st_testaments := bm_insert i t (st_testaments s)\<rparr>"

abbreviation put_artifact :: "artifact_id \<Rightarrow> artifact \<Rightarrow> state \<Rightarrow> state" where
  "put_artifact i a s \<equiv> s\<lparr>st_artifacts := bm_insert i a (st_artifacts s)\<rparr>"

abbreviation put_monitor :: "monitor_id \<Rightarrow> monitor \<Rightarrow> state \<Rightarrow> state" where
  "put_monitor i m s \<equiv> s\<lparr>st_monitors := bm_insert i m (st_monitors s)\<rparr>"

abbreviation put_identity :: "object_kind \<Rightarrow> content_hash \<Rightarrow> object_id \<Rightarrow> state \<Rightarrow> state" where
  "put_identity k h i s \<equiv> s\<lparr>st_identities := bm_insert (k, h) i (st_identities s)\<rparr>"

abbreviation put_epoch :: "participant_id \<Rightarrow> epoch_window \<Rightarrow> state \<Rightarrow> state" where
  "put_epoch p w s \<equiv> s\<lparr>st_epochs := bm_insert p w (st_epochs s)\<rparr>"

section \<open>Reducer steps\<close>

record domain_input =
  di_principal :: participant_id
  di_authority :: authority_context
  di_command :: command
  di_legacy_epoch :: "request_epoch option"

text \<open>What a reducer never changes: host, limits, input and sequence.\<close>

record ctx =
  cx_host :: host
  cx_limits :: limits
  cx_input :: domain_input
  cx_sequence :: session_seq

abbreviation principal :: "ctx \<Rightarrow> participant_id" where
  "principal cx \<equiv> di_principal (cx_input cx)"

abbreviation authority :: "ctx \<Rightarrow> authority_context" where
  "authority cx \<equiv> di_authority (cx_input cx)"

record reducer =
  r_state :: state
  r_deltas :: "delta list"
  r_effects :: "effect_intent list"

type_synonym 'a red = "reducer \<Rightarrow> domain_outcome + 'a \<times> reducer"

definition ret :: "'a \<Rightarrow> 'a red" where
  "ret x r = Inr (x, r)"

definition fail :: "domain_outcome \<Rightarrow> 'a red" where
  "fail e r = Inl e"

definition bindR :: "'a red \<Rightarrow> ('a \<Rightarrow> 'b red) \<Rightarrow> 'b red" where
  "bindR m f r = (case m r of Inl e \<Rightarrow> Inl e | Inr (x, r') \<Rightarrow> f x r')"

definition thenR :: "unit red \<Rightarrow> 'b red \<Rightarrow> 'b red" where
  "thenR m n = bindR m (\<lambda>_. n)"

definition with_state :: "(state \<Rightarrow> 'a red) \<Rightarrow> 'a red" where
  "with_state f r = f (r_state r) r"

definition modifyR :: "(state \<Rightarrow> state) \<Rightarrow> unit red" where
  "modifyR f r = Inr ((), r\<lparr>r_state := f (r_state r)\<rparr>)"

definition reject_if :: "bool \<Rightarrow> domain_outcome \<Rightarrow> unit red" where
  "reject_if b e = (if b then fail e else ret ())"

definition refuse_if :: "bool \<Rightarrow> error_code \<Rightarrow> unit red" where
  "refuse_if b e = reject_if b (Refuse e)"

definition ok_or :: "'a option \<Rightarrow> error_code \<Rightarrow> 'a red" where
  "ok_or x e = (case x of None \<Rightarrow> fail (Refuse e) | Some y \<Rightarrow> ret y)"

definition canonicalR :: "canonical_error + 'a \<Rightarrow> 'a red" where
  "canonicalR x = (case x of Inl e \<Rightarrow> fail (outcome_of_canonical e) | Inr y \<Rightarrow> ret y)"

fun forR :: "('a \<Rightarrow> unit red) \<Rightarrow> 'a list \<Rightarrow> unit red" where
  "forR f [] = ret ()"
| "forR f (x # xs) = thenR (f x) (forR f xs)"

definition stepsR :: "unit red list \<Rightarrow> unit red" where
  "stepsR ms = forR (\<lambda>m. m) ms"

subsection \<open>What success means\<close>

lemma ret_Inr [simp, red_inv]: "ret x r = Inr (y, r') \<longleftrightarrow> y = x \<and> r' = r"
  by (auto simp: ret_def)

lemma fail_Inr [simp, red_inv]: "fail e r = Inr p \<longleftrightarrow> False"
  by (simp add: fail_def)

lemma bindR_Inr [simp, red_inv]: "bindR m f r = Inr p \<longleftrightarrow> (\<exists>x r1. m r = Inr (x, r1) \<and> f x r1 = Inr p)"
  by (auto simp: bindR_def split: sum.splits)

lemma thenR_Inr [simp, red_inv]: "thenR m n r = Inr p \<longleftrightarrow> (\<exists>r1. m r = Inr ((), r1) \<and> n r1 = Inr p)"
  by (auto simp: thenR_def)

lemma with_state_Inr [simp, red_inv]: "with_state f r = Inr p \<longleftrightarrow> f (r_state r) r = Inr p"
  by (simp add: with_state_def)

lemma modifyR_Inr [simp, red_inv]: "modifyR f r = Inr (y, r') \<longleftrightarrow> r' = r\<lparr>r_state := f (r_state r)\<rparr>"
  by (auto simp: modifyR_def)

lemma reject_if_Inr [simp, red_inv]: "reject_if b e r = Inr (y, r') \<longleftrightarrow> \<not> b \<and> r' = r"
  by (auto simp: reject_if_def)

lemma refuse_if_Inr [simp, red_inv]: "refuse_if b e r = Inr (y, r') \<longleftrightarrow> \<not> b \<and> r' = r"
  by (simp add: refuse_if_def)

lemma ok_or_Inr [simp, red_inv]: "ok_or x e r = Inr (y, r') \<longleftrightarrow> x = Some y \<and> r' = r"
  by (auto simp: ok_or_def split: option.splits)

lemma canonicalR_Inr [simp, red_inv]: "canonicalR x r = Inr (y, r') \<longleftrightarrow> x = Inr y \<and> r' = r"
  by (auto simp: canonicalR_def split: sum.splits)

lemma forR_append: "forR f (xs @ ys) r = bindR (forR f xs) (\<lambda>_. forR f ys) r"
  by (induction xs arbitrary: r) (auto simp: bindR_def thenR_def ret_def split: sum.splits)

lemma stepsR_Nil [simp]: "stepsR [] = ret ()"
  by (simp add: stepsR_def)

lemma stepsR_Cons [simp]: "stepsR (m # ms) = thenR m (stepsR ms)"
  by (simp add: stepsR_def)

lemma if_Inr: "(if b then m else n) r = Inr p \<longleftrightarrow> (b \<and> m r = Inr p) \<or> (\<not> b \<and> n r = Inr p)"
  by simp

text \<open>A check reads and may reject, and leaves the reducer as it was.\<close>

definition checkR :: "'a red \<Rightarrow> bool" where
  "checkR m \<longleftrightarrow> (\<forall>r x r'. m r = Inr (x, r') \<longrightarrow> r' = r)"

lemma checkR_D: "checkR m \<Longrightarrow> m r = Inr (x, r') \<Longrightarrow> r' = r"
  by (simp add: checkR_def)

lemma checkR_forR: "(\<And>x. x \<in> set xs \<Longrightarrow> checkR (f x)) \<Longrightarrow> checkR (forR f xs)"
proof (induction xs)
  case (Cons x xs)
  then have "checkR (f x)" "checkR (forR f xs)" by auto
  then show ?case unfolding checkR_def by (auto; metis)
qed (simp add: checkR_def)

lemma forR_check:
  assumes "\<And>x. x \<in> set xs \<Longrightarrow> checkR (f x)" "forR f xs r = Inr (u, r')" "x \<in> set xs"
  shows "f x r = Inr ((), r)"
  using assms
proof (induction xs)
  case (Cons y ys)
  then have "checkR (f y)" by simp
  from Cons.prems(2) obtain r1 where 1: "f y r = Inr ((), r1)" "forR f ys r1 = Inr (u, r')" by auto
  with \<open>checkR (f y)\<close> have "r1 = r" by (auto dest: checkR_D)
  with 1 Cons show ?case by auto
qed simp

section \<open>Shared operations of the reducer\<close>

definition first_opt :: "'a list \<Rightarrow> 'a option" where
  "first_opt xs = (case xs of [] \<Rightarrow> None | x # _ \<Rightarrow> Some x)"

definition nth_opt :: "'a list \<Rightarrow> nat \<Rightarrow> 'a option" where
  "nth_opt xs n = (if n < length xs then Some (xs ! n) else None)"

definition effectR :: "effect_intent \<Rightarrow> unit red" where
  "effectR e r = Inr ((), r\<lparr>r_effects := r_effects r @ [e]\<rparr>)"

definition emit :: "ctx \<Rightarrow> claim_id option \<Rightarrow> lifecycle_action \<Rightarrow> delta_fact \<Rightarrow> unit red" where
  "emit cx c a f r = (case u32_of_len (length (r_deltas r)) of
      None \<Rightarrow> Inl (Refuse EC_Capacity)
    | Some ord \<Rightarrow>
        (let d = \<lparr>de_schema = SCHEMA,
                  de_id = \<lparr>did_ledger = st_ledger (r_state r), did_sequence = cx_sequence cx,
                           did_ordinal = ord\<rparr>,
                  de_action = a, de_actor = principal cx, de_claim = c, de_fact = f\<rparr>
         in Inr ((), r\<lparr>r_deltas := r_deltas r @ [d]\<rparr>)))"

definition get_claim :: "claim_id \<Rightarrow> claim red" where
  "get_claim i = with_state (\<lambda>s. ok_or (claim_at s i) EC_UnknownObject)"

definition require_runtime :: "ctx \<Rightarrow> unit red" where
  "require_runtime cx = refuse_if (\<not> au_runtime (authority cx)) EC_WrongActor"

definition allowed :: "claim_id \<Rightarrow> claim_status list \<Rightarrow> claim red" where
  "allowed i statuses =
     bindR (get_claim i) (\<lambda>c.
     bindR (reject_if (is_terminal (status_of c)) (Inform (Some i) (InformTerminal (status_of c)))) (\<lambda>_.
     bindR (reject_if (status_of c \<notin> set statuses) (Inform (Some i) (InformStatus (status_of c)))) (\<lambda>_.
     ret c)))"

definition allow_active :: "claim_id \<Rightarrow> claim red" where
  "allow_active i = allowed i
     [Generated, Posted, Received, Progressed, TestamentGenerated, TestamentAcknowledged, Validating]"

definition require_holder :: "ctx \<Rightarrow> claim \<Rightarrow> receipt_fence \<Rightarrow> unit red" where
  "require_holder cx c fence =
     bindR (ok_or (cl_receipt (so_lifecycle c)) EC_StaleReceipt) (\<lambda>rc.
     stepsR [refuse_if (rc_fence rc \<noteq> fence) EC_StaleReceipt,
             refuse_if (rc_holder rc \<noteq> principal cx) EC_WrongActor])"

definition require_issuer :: "ctx \<Rightarrow> claim \<Rightarrow> unit red" where
  "require_issuer cx c =
     refuse_if (\<not> (au_runtime (authority cx) \<or> issuer (so_content c) = Some (principal cx))) EC_WrongActor"

definition check_text :: "ctx \<Rightarrow> string \<Rightarrow> unit red" where
  "check_text cx s = refuse_if (length s > lim_max_text_bytes (cx_limits cx)) EC_Capacity"

definition set_status :: "ctx \<Rightarrow> claim_id \<Rightarrow> claim_status \<Rightarrow> claim_id option \<Rightarrow> unit red" where
  "set_status cx i st witness =
     bindR (get_claim i) (\<lambda>c.
     let l = so_lifecycle c in
     bindR (reject_if (is_terminal (cl_status l)) (Inform (Some i) (InformTerminal (cl_status l)))) (\<lambda>_.
     bindR (ok_or (checked_add (cl_revision l) 1) EC_Capacity) (\<lambda>rv.
     let l' = l\<lparr>cl_status := st, cl_revision := rv,
                cl_history := cl_history l @ [StatusFact st (cx_sequence cx)],
                cl_terminal_witness := witness\<rparr> in
     stepsR
       [modifyR (put_claim i (with_lifecycle c l')),
        emit cx (Some i) (lifecycle_action_of st) (FactStatus (Some (cl_status l)) st witness),
        if is_terminal st \<and> st \<noteq> Satisfied
        then effectR (CancelExecution i (map_option rc_fence (cl_receipt l)))
        else ret ()])))"

definition claim_result :: "claim_id \<Rightarrow> command_result red" where
  "claim_result i = bindR (get_claim i) (\<lambda>c. ret (ClaimResult i (status_of c)))"

definition free_id :: "state \<Rightarrow> object_id \<Rightarrow> bool" where
  "free_id s i \<longleftrightarrow> \<not> is_zero i
     \<and> \<not> bm_contains (st_claims s) i \<and> \<not> bm_contains (st_validations s) i
     \<and> \<not> bm_contains (st_artifacts s) i \<and> \<not> bm_contains (st_testaments s) i"

definition object_exists :: "state \<Rightarrow> object_ref \<Rightarrow> bool" where
  "object_exists s ob = (case or_kind ob of
      OK_Claim \<Rightarrow> bm_contains (st_claims s) (or_id ob)
    | OK_Testament \<Rightarrow> bm_contains (st_testaments s) (or_id ob)
    | OK_Validation \<Rightarrow> bm_contains (st_validations s) (or_id ob)
    | OK_Artifact \<Rightarrow> bm_contains (st_artifacts s) (or_id ob))"

definition artifact_verified :: "state \<Rightarrow> artifact_ref \<Rightarrow> bool" where
  "artifact_verified s a = (case bm_get (st_artifacts s) (ar_id a) of
      None \<Rightarrow> False
    | Some x \<Rightarrow> so_content_hash x = ar_hash a)"

definition verify_artifacts :: "artifact_ref list \<Rightarrow> unit red" where
  "verify_artifacts refs =
     with_state (\<lambda>s. forR (\<lambda>a. refuse_if (\<not> artifact_verified s a) EC_InvalidManifest) refs)"

definition verify_error :: "artifact_ref \<Rightarrow> unit red" where
  "verify_error a =
     thenR (verify_artifacts [a])
     (with_state (\<lambda>s.
     bindR (ok_or (bm_get (st_artifacts s) (ar_id a)) EC_InvalidManifest) (\<lambda>x.
     refuse_if (ac_kind (so_content x) \<noteq> ''error'') EC_InvalidSchema)))"

section \<open>Evidence\<close>

definition artifact_kind_byte :: "char \<Rightarrow> bool" where
  "artifact_kind_byte b \<longleftrightarrow>
     (CHR ''a'' \<le> b \<and> b \<le> CHR ''z'') \<or> (CHR ''0'' \<le> b \<and> b \<le> CHR ''9'') \<or> b \<in> set ''_./-''"

definition check_artifact :: "ctx \<Rightarrow> artifact_content \<Rightarrow> unit red" where
  "check_artifact cx c =
     with_state (\<lambda>s. stepsR
       [refuse_if (ac_ledger c \<noteq> st_ledger s) EC_InvalidNamespace,
        refuse_if (ac_schema c \<noteq> SCHEMA \<or> ac_kind c = [] \<or> length (ac_kind c) > 128
          \<or> \<not> list_all artifact_kind_byte (ac_kind c)) EC_InvalidSchema,
        refuse_if (length (ac_metadata c) > lim_max_inline_bytes (cx_limits cx)
          \<or> bm_len (ac_inputs c) > lim_max_relations (cx_limits cx)
          \<or> bm_len (ac_visibility c) > lim_max_relations (cx_limits cx)) EC_Capacity,
        forR (check_text cx) (bm_keys (ac_visibility c)),
        (case ac_payload c of
           Inline v \<Rightarrow> refuse_if (length v > lim_max_inline_bytes (cx_limits cx)) EC_Capacity
         | Content _ \<Rightarrow> ret ()),
        forR (\<lambda>ob. stepsR
          [refuse_if (or_ledger ob \<noteq> st_ledger s) EC_InvalidNamespace,
           refuse_if (\<not> object_exists s ob) EC_UnknownObject]) (bm_keys (ac_inputs c))])"

definition accepts_attestation :: "content_hash \<Rightarrow> evidence_attestation \<Rightarrow> bool" where
  "accepts_attestation h a \<longleftrightarrow> ea_descriptor_hash a = h \<and> ea_durable a \<and> ea_schema_valid a"

definition create_artifact :: "ctx \<Rightarrow> new_artifact \<Rightarrow> artifact_ref red" where
  "create_artifact cx new =
     thenR (check_artifact cx (na_content new))
     (bindR (canonicalR (artifact_content_hash (cx_host cx) (na_content new))) (\<lambda>h.
     bindR (ok_or (List.find (accepts_attestation h) (au_evidence (authority cx))) EC_EvidenceNotDurable) (\<lambda>att.
     with_state (\<lambda>s. case bm_get (st_identities s) (OK_Artifact, h) of
         Some i \<Rightarrow> ret (ArtifactRef i h)
       | None \<Rightarrow>
           thenR (stepsR
             [refuse_if (\<not> free_id s (na_id new)) EC_ObjectIdConflict,
              modifyR (put_artifact (na_id new) (stored_new (na_content new) h
                \<lparr>al_created = cx_sequence cx, al_custody_revision = ea_custody_revision att\<rparr>)),
              modifyR (put_identity OK_Artifact h (na_id new))])
           (ret (ArtifactRef (na_id new) h))))))"

definition create_testament :: "ctx \<Rightarrow> testament_id \<Rightarrow> testament_content \<Rightarrow> unit red" where
  "create_testament cx i content =
     thenR (with_state (\<lambda>s. refuse_if (\<not> free_id s i) EC_ObjectIdConflict))
     (thenR (verify_artifacts (tc_artifacts content))
     (bindR (canonicalR (testament_content_hash (cx_host cx) content)) (\<lambda>h.
     with_state (\<lambda>s.
     thenR (stepsR
       [refuse_if (bm_contains (st_identities s) (OK_Testament, h)) EC_ObjectIdConflict,
        modifyR (put_testament i (stored_new content h
          \<lparr>tl_created = cx_sequence cx, tl_acknowledged = None\<rparr>)),
        modifyR (put_identity OK_Testament h i)])
     (with_state (\<lambda>s.
     bindR (ok_or (bm_get (st_evidence_sets s) (tc_evidence_set content)) EC_InvalidManifest) (\<lambda>e.
     thenR (modifyR (put_set (tc_evidence_set content) (e\<lparr>es_closed := True\<rparr>)))
     (bindR (get_claim (tc_claim content)) (\<lambda>c.
     stepsR
       [modifyR (put_claim (tc_claim content) (with_lifecycle c ((so_lifecycle c)
          \<lparr>cl_evidence_set := Some (tc_evidence_set content), cl_testament := Some i\<rparr>))),
        emit cx (Some (tc_claim content)) LA_TestamentGenerated (FactTestament i h)])))))))))"

end
