(* ===== verification/GraphRules.thy ===== *)
theory GraphRules
  imports Reducer
begin

text \<open>
  The graph rules of \<open>focal-core/src/graph.rs\<close>: the least fixed point of satisfaction, the
  wait predicates, the lineage cycle check and the wait-cycle search.  Every loop of the
  source is a total function here: the fixed point adds an identifier of a finite table in
  each round, the traversals are bounded by the visit budget they count down.
\<close>

section \<open>Wait predicates\<close>

definition wait_holds :: "state \<Rightarrow> wait_predicate \<Rightarrow> bool" where
  "wait_holds s p = (case p of
      WaitSatisfied i \<Rightarrow> (case claim_at s i of None \<Rightarrow> False | Some c \<Rightarrow> status_of c = Satisfied)
    | WaitTerminal i \<Rightarrow> (case claim_at s i of None \<Rightarrow> False | Some c \<Rightarrow> is_terminal (status_of c))
    | WaitReleased i \<Rightarrow> (case claim_at s i of None \<Rightarrow> False | Some c \<Rightarrow> cl_released (so_lifecycle c)))"

definition open_monitors :: "state \<Rightarrow> claim_id \<Rightarrow> monitor list" where
  "open_monitors s i =
     filter (\<lambda>m. mon_owner m = i \<and> mon_released m = None) (bm_values (st_monitors s))"

section \<open>The least fixed point of satisfaction\<close>

definition terminal_at :: "state \<Rightarrow> claim_id \<Rightarrow> bool" where
  "terminal_at s i = (case claim_at s i of None \<Rightarrow> False | Some c \<Rightarrow> is_terminal (status_of c))"

definition root_ready :: "state \<Rightarrow> claim_id btree_set \<Rightarrow> wait_predicate \<Rightarrow> bool" where
  "root_ready s sat p = (case p of
      WaitSatisfied c \<Rightarrow> bs_contains sat c
    | WaitTerminal c \<Rightarrow> bs_contains sat c \<or> wait_holds s p
    | _ \<Rightarrow> wait_holds s p)"

definition becomes_satisfied :: "state \<Rightarrow> claim_id btree_set \<Rightarrow> claim_id \<Rightarrow> claim \<Rightarrow> bool" where
  "becomes_satisfied s sat i c \<longleftrightarrow>
     \<not> (bs_contains sat i \<or> is_terminal (status_of c) \<or> \<not> cl_local_complete (so_lifecycle c))
     \<and> list_all (bs_contains sat) (dependencies (so_content c) RK_DependsOn)
     \<and> list_all (\<lambda>d. bs_contains sat d \<or> terminal_at s d) (dependencies (so_content c) RK_Awaits)
     \<and> list_all (\<lambda>m. list_all (root_ready s sat) (bm_keys (mon_roots m))) (open_monitors s i)"

definition satisfied_ids :: "state \<Rightarrow> claim_id btree_set" where
  "satisfied_ids s = bs_of_list
     (map fst (filter (\<lambda>(i, c). status_of c = Satisfied) (bm_iter (st_claims s))))"

fun fixpoint_pass ::
    "state \<Rightarrow> (claim_id \<times> claim) list \<Rightarrow> claim_id btree_set \<Rightarrow> bool \<Rightarrow> claim_id btree_set \<times> bool" where
  "fixpoint_pass s [] sat changed = (sat, changed)"
| "fixpoint_pass s ((i, c) # rest) sat changed =
     (if becomes_satisfied s sat i c then fixpoint_pass s rest (bs_insert i sat) True
      else fixpoint_pass s rest sat changed)"

lemma fixpoint_pass_mono: "bs_set sat \<subseteq> bs_set (fst (fixpoint_pass s cs sat ch))"
  by (induction s cs sat ch rule: fixpoint_pass.induct) auto

lemma fixpoint_pass_within:
  "bs_set (fst (fixpoint_pass s cs sat ch)) \<subseteq> bs_set sat \<union> set (map fst cs)"
  by (induction s cs sat ch rule: fixpoint_pass.induct) auto

lemma fixpoint_pass_changed:
  "snd (fixpoint_pass s cs sat ch) \<Longrightarrow> \<not> ch \<Longrightarrow> bs_set sat \<subset> bs_set (fst (fixpoint_pass s cs sat ch))"
proof (induction s cs sat ch rule: fixpoint_pass.induct)
  case (2 s i c rest sat changed)
  show ?case
  proof (cases "becomes_satisfied s sat i c")
    case True
    then have "i \<notin> bs_set sat" by (simp add: becomes_satisfied_def bs_contains_iff)
    moreover have "insert i (bs_set sat) \<subseteq> bs_set (fst (fixpoint_pass s rest (bs_insert i sat) True))"
      using fixpoint_pass_mono [of "bs_insert i sat" s rest True] by simp
    ultimately show ?thesis using True by auto
  next
    case False
    with 2 show ?thesis by simp
  qed
qed simp

function fixpoint_loop :: "state \<Rightarrow> claim_id btree_set \<Rightarrow> claim_id btree_set" where
  "fixpoint_loop s sat =
     (let (sat', changed) = fixpoint_pass s (bm_iter (st_claims s)) sat False
      in if changed then fixpoint_loop s sat' else sat')"
  by pat_completeness auto

termination fixpoint_loop
proof (relation "measure (\<lambda>(s, sat). card (dom (claim_at s) - bs_set sat))", goal_cases)
  case (2 s sat x sat' changed)
  let ?cs = "bm_iter (st_claims s)"
  have eq: "fixpoint_pass s ?cs sat False = (sat', changed)" using 2 by simp
  have ids: "set (map fst ?cs) = dom (claim_at s)"
    using set_bm_keys [of "st_claims s"] by (simp add: bm_keys_def)
  have "bs_set sat \<subset> bs_set sat'"
    using fixpoint_pass_changed [of s ?cs sat False] eq 2 by simp
  moreover have "bs_set sat' \<subseteq> bs_set sat \<union> dom (claim_at s)"
    using fixpoint_pass_within [of s ?cs sat False] eq ids by simp
  ultimately have "dom (claim_at s) - bs_set sat' \<subset> dom (claim_at s) - bs_set sat"
    by blast
  then show ?case by (simp add: psubset_card_mono)
qed simp

declare fixpoint_loop.simps [simp del]

definition tracked_fixpoint :: "state \<Rightarrow> claim_id btree_set" where
  "tracked_fixpoint s = fixpoint_loop s (satisfied_ids s)"

definition least_fixpoint :: "state \<Rightarrow> claim_id btree_set" where
  "least_fixpoint s = tracked_fixpoint s"

section \<open>Lineage cycles\<close>

definition lineage_targets :: "relation_kind list \<Rightarrow> claim \<Rightarrow> claim_id list" where
  "lineage_targets kinds c = concat (map (dependencies (so_content c)) kinds)"

text \<open>
  One start node of \<open>check_acyclic\<close>: the stack of \<open>(id, exit)\<close> entries (top first), the
  nodes on the current path and the nodes done.
\<close>

function acyclic_from ::
    "state \<Rightarrow> relation_kind list \<Rightarrow> nat \<Rightarrow> nat \<Rightarrow> claim_id btree_set \<Rightarrow> claim_id btree_set
       \<Rightarrow> (claim_id \<times> bool) list \<Rightarrow> domain_outcome + nat \<times> claim_id btree_set" where
  "acyclic_from s kinds limit visits don path [] = Inr (visits, don)"
| "acyclic_from s kinds limit visits don path ((i, exit) # stack) =
     (case usize_add visits 1 of
        None \<Rightarrow> Inl (Refuse EC_Capacity)
      | Some visits' \<Rightarrow>
          if visits' > limit then Inl (Refuse EC_Capacity)
          else if exit then
            acyclic_from s kinds limit visits' (bs_insert i don) (bm_retain (\<lambda>x. x \<noteq> i) path) stack
          else if bs_contains path i then Inl (Refuse EC_InvalidRelation)
          else if bs_contains don i then acyclic_from s kinds limit visits' don path stack
          else (case claim_at s i of
             None \<Rightarrow> Inl (Refuse EC_InvalidRelation)
           | Some c \<Rightarrow>
               acyclic_from s kinds limit visits' don (bs_insert i path)
                 (rev (map (\<lambda>d. (d, False)) (lineage_targets kinds c)) @ (i, True) # stack)))"
  by pat_completeness auto

termination acyclic_from
  by (relation "measure (\<lambda>(s, kinds, limit, visits, don, path, stack). Suc limit - visits)")
    (auto dest!: usize_add_Some)

fun acyclic_starts ::
    "state \<Rightarrow> relation_kind list \<Rightarrow> nat \<Rightarrow> claim_id list \<Rightarrow> nat \<Rightarrow> claim_id btree_set
       \<Rightarrow> domain_outcome + nat \<times> claim_id btree_set" where
  "acyclic_starts s kinds limit [] visits don = Inr (visits, don)"
| "acyclic_starts s kinds limit (start # rest) visits don =
     (if bs_contains don start then acyclic_starts s kinds limit rest visits don
      else (case acyclic_from s kinds limit visits don bm_empty [(start, False)] of
          Inl e \<Rightarrow> Inl e
        | Inr (visits', don') \<Rightarrow> acyclic_starts s kinds limit rest visits' don'))"

definition check_acyclic :: "state \<Rightarrow> relation_kind list \<Rightarrow> nat \<Rightarrow> domain_outcome + unit" where
  "check_acyclic s kinds limit =
     (case acyclic_starts s kinds limit (bm_keys (st_claims s)) 0 bm_empty of
        Inl e \<Rightarrow> Inl e
      | Inr _ \<Rightarrow> Inr ())"

section \<open>Wait cycles\<close>

definition active_at :: "state \<Rightarrow> claim_id \<Rightarrow> bool" where
  "active_at s i = (case claim_at s i of None \<Rightarrow> False | Some c \<Rightarrow> is_active (status_of c))"

definition neighbors :: "state \<Rightarrow> claim_id \<Rightarrow> domain_outcome + claim_id list" where
  "neighbors s i = (case claim_at s i of
      None \<Rightarrow> Inl (Refuse EC_InvalidRelation)
    | Some c \<Rightarrow> Inr (remdups_adj (sort
        (filter (active_at s) (dependencies (so_content c) RK_DependsOn @ dependencies (so_content c) RK_Awaits)
         @ concat (map (\<lambda>m. map wp_claim (filter (\<lambda>p. \<not> wait_holds s p) (bm_keys (mon_roots m))))
             (open_monitors s i))))))"

function reachable_loop ::
    "state \<Rightarrow> claim_id btree_set \<Rightarrow> nat \<Rightarrow> claim_id list \<Rightarrow> domain_outcome + claim_id btree_set \<times> nat" where
  "reachable_loop s seen limit [] = Inr (seen, limit)"
| "reachable_loop s seen limit (i # stack) =
     (if bs_contains seen i then reachable_loop s seen limit stack
      else if limit = 0 then Inl (Refuse EC_Capacity)
      else (case neighbors s i of
          Inl e \<Rightarrow> Inl e
        | Inr ns \<Rightarrow> reachable_loop s (bs_insert i seen) (limit - 1) (rev ns @ stack)))"
  by pat_completeness auto

termination reachable_loop
  by (relation "measures [\<lambda>(s, seen, limit, stack). limit, \<lambda>(s, seen, limit, stack). length stack]") auto

definition reachable_set :: "state \<Rightarrow> claim_id \<Rightarrow> nat \<Rightarrow> domain_outcome + claim_id btree_set \<times> nat" where
  "reachable_set s start limit = reachable_loop s bm_empty limit [start]"

fun cycle_component ::
    "state \<Rightarrow> claim_id \<Rightarrow> claim_id list \<Rightarrow> nat \<Rightarrow> claim_id btree_set \<Rightarrow> domain_outcome + claim_id btree_set" where
  "cycle_component s start [] limit component = Inr component"
| "cycle_component s start (node # rest) limit component =
     (case reachable_set s node limit of
        Inl e \<Rightarrow> Inl e
      | Inr (seen, limit') \<Rightarrow>
          cycle_component s start rest limit' (if bs_contains seen start then bs_insert node component else component))"

definition cycle_containing ::
    "state \<Rightarrow> claim_id \<Rightarrow> nat \<Rightarrow> domain_outcome + claim_id btree_set option" where
  "cycle_containing s start limit =
     (case reachable_set s start limit of
        Inl e \<Rightarrow> Inl e
      | Inr (reachable_from, limit') \<Rightarrow>
          (case cycle_component s start (bm_keys reachable_from) limit' bm_empty of
             Inl e \<Rightarrow> Inl e
           | Inr component \<Rightarrow>
               if bm_len component > 1 then Inr (Some component)
               else (case neighbors s start of
                   Inl e \<Rightarrow> Inl e
                 | Inr ns \<Rightarrow> Inr (if start \<in> set ns then Some component else None))))"

end
