(* ===== verification/Generate.thy ===== *)
theory Generate
  imports GraphRules
begin

text \<open>
  Claim creation: \<open>Reducer::generate\<close> of \<open>focal-core/src/reduce.rs\<close>.  The loop over the batch
  checks every proposal before anything is written; the second loop writes the validations,
  the claim and their identities; the lineage check runs on the result.
\<close>

section \<open>Checks of one proposal\<close>

definition relation_count :: "claim_content \<Rightarrow> relation_kind \<Rightarrow> nat" where
  "relation_count c k = length (filter (\<lambda>r. rel_kind r = k) (bm_keys (cc_relations c)))"

definition check_fields :: "ctx \<Rightarrow> claim_content \<Rightarrow> unit red" where
  "check_fields cx c =
     with_state (\<lambda>s. stepsR
       [refuse_if (cc_ledger c \<noteq> st_ledger s) EC_InvalidNamespace,
        refuse_if (cc_schema c \<noteq> SCHEMA) EC_UnsupportedSchema,
        check_text cx (cc_description c),
        refuse_if (is_zero (cc_occurrence c)
          \<or> bm_len (cc_relations c) > lim_max_relations (cx_limits cx)
          \<or> bm_len (cc_scopes c) > lim_max_relations (cx_limits cx)
          \<or> length (cc_requirements c) > lim_max_requirements (cx_limits cx)) EC_Capacity])"

definition check_parties :: "ctx \<Rightarrow> claim_content \<Rightarrow> unit red" where
  "check_parties cx c = stepsR
     [forR (\<lambda>k. refuse_if (relation_count c k \<noteq> 1) EC_InvalidRelation)
        [RK_Issuer, RK_Subject, RK_ClaimAction, RK_CausedBy],
      refuse_if (issuer c = None \<or> subject c = None \<or> action c = None \<or> cause c = None) EC_InvalidRelation,
      refuse_if (issuer c \<noteq> Some (principal cx) \<and> \<not> au_runtime (authority cx)) EC_WrongActor,
      refuse_if (cause c \<noteq> Some (au_cause (authority cx))) EC_InvalidCause,
      refuse_if (issuer c = subject c \<and> action c \<noteq> Some AT_Handoff) EC_InvalidRelation]"

text \<open>\<open>str::trim\<close> strips code points with the \<open>White_Space\<close> property; these are their UTF-8 encodings.\<close>

definition white_space :: "string list" where
  "white_space = map (\<lambda>b. [b]) [CHR 0x09, CHR 0x0A, CHR 0x0B, CHR 0x0C, CHR 0x0D, CHR 0x20]
     @ map (\<lambda>b. [CHR 0xC2, b]) [CHR 0x85, CHR 0xA0]
     @ [[CHR 0xE1, CHR 0x9A, CHR 0x80]]
     @ map (\<lambda>b. [CHR 0xE2, CHR 0x80, b])
         [CHR 0x80, CHR 0x81, CHR 0x82, CHR 0x83, CHR 0x84, CHR 0x85, CHR 0x86, CHR 0x87, CHR 0x88,
          CHR 0x89, CHR 0x8A, CHR 0xA8, CHR 0xA9, CHR 0xAF]
     @ [[CHR 0xE2, CHR 0x81, CHR 0x9F], [CHR 0xE3, CHR 0x80, CHR 0x80]]"

definition trimmed :: "string \<Rightarrow> bool" where
  "trimmed s \<longleftrightarrow> \<not> list_ex (\<lambda>w. take (length w) s = w \<or> take (length w) (rev s) = rev w) white_space"

definition check_scope :: "ctx \<Rightarrow> scope \<Rightarrow> unit red" where
  "check_scope cx s = stepsR
     [check_text cx (sc_key s),
      refuse_if (sc_key s = [] \<or> \<not> trimmed (sc_key s) \<or> CHR 0x00 \<in> set (sc_key s)) EC_InvalidSchema]"

definition agentic_positions :: "handler_ref list \<Rightarrow> nat list" where
  "agentic_positions hs = map fst (filter (\<lambda>(_, h). hd_agentic h) (enumerate 0 hs))"

definition quality_handlers_ok :: "handler_ref list \<Rightarrow> bool" where
  "quality_handlers_ok hs \<longleftrightarrow> list_ex hd_agentic hs
     \<and> (case first_opt hs of None \<Rightarrow> False | Some h \<Rightarrow> \<not> hd_agentic h)"

definition agentic_last :: "handler_ref list \<Rightarrow> bool" where
  "agentic_last hs \<longleftrightarrow> \<not> (length (agentic_positions hs) > 1
     \<or> (case first_opt (agentic_positions hs) of
          None \<Rightarrow> False
        | Some i \<Rightarrow> usize_add i 1 \<noteq> Some (length hs)))"

definition check_handlers :: "ctx \<Rightarrow> validation_content \<Rightarrow> unit red" where
  "check_handlers cx v = stepsR
     [(case vc_quality_bar v of
         None \<Rightarrow> ret ()
       | Some q \<Rightarrow> stepsR
           [check_text cx q,
            refuse_if (\<not> quality_handlers_ok (vc_handlers v)) EC_InvalidHandler]),
      refuse_if (\<not> agentic_last (vc_handlers v)) EC_InvalidHandler,
      refuse_if (vc_kind v \<noteq> VK_Receipt \<and> vc_handlers v = []) EC_InvalidHandler,
      refuse_if (vc_kind v = VK_Receipt \<and> vc_phase v \<noteq> PH_WholeWork) EC_InvalidSchema]"

definition check_validation :: "ctx \<Rightarrow> new_claim \<Rightarrow> requirement_ref \<Rightarrow> validation_content \<Rightarrow> unit red" where
  "check_validation cx new ref v =
     with_state (\<lambda>s.
     thenR (refuse_if (vc_ledger v \<noteq> st_ledger s \<or> vc_claim v \<noteq> nc_id new \<or> vc_schema v \<noteq> SCHEMA)
       EC_InvalidSchema)
     (bindR (canonicalR (specification_hash (cx_host cx) v)) (\<lambda>h. stepsR
       [refuse_if (h \<noteq> rq_specification ref) EC_InvalidSchema,
        check_text cx (vc_description v),
        refuse_if (is_zero (vc_evaluator v)
          \<or> length (vc_handlers v) > lim_max_requirements (cx_limits cx)
          \<or> bm_len (vc_evidence_schemas v) > lim_max_relations (cx_limits cx)
          \<or> bm_len (vc_contributed_by v) > lim_max_relations (cx_limits cx)) EC_Capacity,
        check_handlers cx v])))"

definition required_receipt :: "validation_content \<Rightarrow> bool" where
  "required_receipt v \<longleftrightarrow> vc_kind v = VK_Receipt \<and> vc_phase v = PH_WholeWork \<and> vc_mode v = MO_Required"

fun check_requirements ::
    "ctx \<Rightarrow> new_claim \<Rightarrow> requirement_ref list \<Rightarrow> validation_id btree_set \<Rightarrow> bool \<Rightarrow> unit red" where
  "check_requirements cx new [] ids found = refuse_if (\<not> found) EC_EmptyRequiredSet"
| "check_requirements cx new (ref # rest) ids found =
     thenR (refuse_if (bs_contains ids (rq_id ref)) EC_InvalidRelation)
     (bindR (ok_or (List.find (\<lambda>v. nv_id v = rq_id ref) (nc_validations new)) EC_InvalidRelation) (\<lambda>v.
     thenR (check_validation cx new ref (nv_content v))
     (check_requirements cx new rest (bs_insert (rq_id ref) ids)
        (found \<or> required_receipt (nv_content v)))))"

definition claim_edge_kinds :: "relation_kind list" where
  "claim_edge_kinds = [RK_DependsOn, RK_Awaits, RK_CausedBy, RK_Supersedes, RK_Amends, RK_Refines,
     RK_ConflictsWith, RK_DerivedFrom, RK_Reviews]"

definition lineage_kinds :: "relation_kind list" where
  "lineage_kinds = [RK_CausedBy, RK_Supersedes, RK_Amends]"

definition check_edge :: "state \<Rightarrow> claim_id btree_set \<Rightarrow> claim_id \<Rightarrow> relation_kind \<Rightarrow> object_ref \<Rightarrow> unit red" where
  "check_edge s new_ids new_id k ob = stepsR
     [refuse_if (or_ledger ob \<noteq> st_ledger s) EC_InvalidNamespace,
      refuse_if (or_kind ob \<noteq> OK_Claim) EC_InvalidRelation,
      refuse_if (\<not> bs_contains new_ids (or_id ob) \<and> \<not> bm_contains (st_claims s) (or_id ob)) EC_UnknownObject,
      refuse_if (or_id ob = new_id \<and> k \<in> set lineage_kinds) EC_InvalidRelation]"

definition check_relation :: "claim_id btree_set \<Rightarrow> claim_id \<Rightarrow> relation \<Rightarrow> unit red" where
  "check_relation new_ids new_id r =
     with_state (\<lambda>s. case rel_target r of
       TParticipant p \<Rightarrow>
         if (rel_kind r = RK_Issuer \<or> rel_kind r = RK_Subject) \<and> \<not> is_zero p then ret ()
         else fail (Refuse (if rel_kind r = RK_Invalidates then EC_StandingDenied else EC_InvalidRelation))
     | TAction _ \<Rightarrow>
         if rel_kind r = RK_ClaimAction then ret ()
         else fail (Refuse (if rel_kind r = RK_Invalidates then EC_StandingDenied else EC_InvalidRelation))
     | TRoot root \<Rightarrow>
         if rel_kind r = RK_CausedBy \<and> \<not> is_zero root then ret ()
         else fail (Refuse (if rel_kind r = RK_Invalidates then EC_StandingDenied else EC_InvalidRelation))
     | TObject ob \<Rightarrow>
         if rel_kind r \<in> set claim_edge_kinds then check_edge s new_ids new_id (rel_kind r) ob
         else fail (Refuse (if rel_kind r = RK_Invalidates then EC_StandingDenied else EC_InvalidRelation))
     | TEvidence _ \<Rightarrow>
         fail (Refuse (if rel_kind r = RK_Invalidates then EC_StandingDenied else EC_InvalidRelation)))"

section \<open>The batch\<close>

record batch_acc =
  ba_ids :: "object_id btree_set"
  ba_hashes :: "content_hash btree_set"
  ba_existing :: "claim_id list"

fun allocate_validations :: "new_validation list \<Rightarrow> object_id btree_set \<Rightarrow> object_id btree_set red" where
  "allocate_validations [] ids = ret ids"
| "allocate_validations (v # rest) ids =
     thenR (refuse_if (bs_contains ids (nv_id v)) EC_ObjectIdConflict)
     (allocate_validations rest (bs_insert (nv_id v) ids))"

definition check_proposal ::
    "ctx \<Rightarrow> claim_id btree_set \<Rightarrow> new_claim \<Rightarrow> batch_acc \<Rightarrow> batch_acc red" where
  "check_proposal cx new_ids new acc =
     thenR (stepsR
       [check_fields cx (nc_content new),
        check_parties cx (nc_content new),
        forR (check_scope cx) (bm_keys (cc_scopes (nc_content new)))])
     (bindR (canonicalR (claim_content_hash (cx_host cx) (nc_content new))) (\<lambda>h.
     thenR (refuse_if (bs_contains (ba_hashes acc) h) EC_PartialDuplicateBatch)
     (with_state (\<lambda>s.
     let existing = (case bm_get (st_identities s) (OK_Claim, h) of
           None \<Rightarrow> ba_existing acc | Some i \<Rightarrow> ba_existing acc @ [i]) in
     thenR (refuse_if (bs_contains (ba_ids acc) (nc_id new)) EC_ObjectIdConflict)
     (bindR (allocate_validations (nc_validations new) (bs_insert (nc_id new) (ba_ids acc))) (\<lambda>ids.
     thenR (stepsR
       [refuse_if (length (cc_requirements (nc_content new)) \<noteq> length (nc_validations new)) EC_InvalidRelation,
        check_requirements cx new (cc_requirements (nc_content new)) bm_empty False,
        forR (check_relation new_ids (nc_id new)) (bm_keys (cc_relations (nc_content new)))])
     (ret \<lparr>ba_ids = ids, ba_hashes = bs_insert h (ba_hashes acc), ba_existing = existing\<rparr>)))))))"

fun check_batch :: "ctx \<Rightarrow> claim_id btree_set \<Rightarrow> new_claim list \<Rightarrow> batch_acc \<Rightarrow> batch_acc red" where
  "check_batch cx new_ids [] acc = ret acc"
| "check_batch cx new_ids (new # rest) acc =
     bindR (check_proposal cx new_ids new acc) (check_batch cx new_ids rest)"

section \<open>Writing the batch\<close>

definition initial_lifecycle :: "session_seq \<Rightarrow> claim_lifecycle" where
  "initial_lifecycle q =
     \<lparr>cl_status = Generated, cl_revision = 1, cl_created = q, cl_history = [StatusFact Generated q],
      cl_receipt = None, cl_evidence_set = None, cl_testament = None, cl_local_complete = False,
      cl_released = False, cl_terminal_witness = None\<rparr>"

definition insert_validation :: "ctx \<Rightarrow> new_validation \<Rightarrow> unit red" where
  "insert_validation cx v =
     bindR (canonicalR (validation_content_hash (cx_host cx) (nv_content v))) (\<lambda>h. stepsR
       [modifyR (put_validation (nv_id v) (stored_new (nv_content v) h
          \<lparr>vl_created = cx_sequence cx, vl_latest_epoch = 0\<rparr>)),
        modifyR (put_identity OK_Validation h (nv_id v))])"

definition insert_claim :: "ctx \<Rightarrow> new_claim \<Rightarrow> unit red" where
  "insert_claim cx new =
     bindR (canonicalR (claim_content_hash (cx_host cx) (nc_content new))) (\<lambda>h. stepsR
       [forR (insert_validation cx) (nc_validations new),
        modifyR (put_claim (nc_id new) (stored_new (nc_content new) h (initial_lifecycle (cx_sequence cx)))),
        modifyR (put_identity OK_Claim h (nc_id new)),
        emit cx (Some (nc_id new)) LA_Generated (FactStatus None Generated None),
        (case cc_deadline (nc_content new) of
           None \<Rightarrow> ret ()
         | Some d \<Rightarrow> effectR (ScheduleDeadline (nc_id new) d))])"

definition acyclicR :: "ctx \<Rightarrow> unit red" where
  "acyclicR cx = with_state (\<lambda>s.
     case check_acyclic s lineage_kinds (lim_max_graph_visits (cx_limits cx)) of
       Inl e \<Rightarrow> fail e
     | Inr _ \<Rightarrow> ret ())"

definition generate :: "ctx \<Rightarrow> new_claim list \<Rightarrow> command_result red" where
  "generate cx claims =
     thenR (refuse_if (claims = [] \<or> length claims > lim_max_batch (cx_limits cx)) EC_Capacity)
     (bindR (check_batch cx (bs_of_list (map nc_id claims)) claims
        \<lparr>ba_ids = bm_empty, ba_hashes = bm_empty, ba_existing = []\<rparr>) (\<lambda>acc.
     if ba_existing acc \<noteq> [] then
       (if length (ba_existing acc) = length claims then ret (ClaimsExisting (ba_existing acc))
        else fail (Refuse EC_PartialDuplicateBatch))
     else
       with_state (\<lambda>s.
       thenR (stepsR
         [refuse_if (list_ex (\<lambda>i. \<not> free_id s i) (bm_keys (ba_ids acc))) EC_ObjectIdConflict,
          forR (insert_claim cx) claims,
          acyclicR cx])
       (ret (ClaimsGenerated (map nc_id claims))))))"

end
