(* ===== verification/Propagation.thy ===== *)
theory Propagation
  imports GraphRules
begin

text \<open>
  Closure operations of \<open>focal-core/src/reduce.rs\<close>: cancellation of a causal subtree, the
  victim of a wait cycle, and the propagation that follows every command (dependency
  failures, satisfaction, scope release, monitor release).  The loops count visits against
  \<open>max_graph_visits\<close>; that budget is the measure of their termination.
\<close>

section \<open>Cancellation of a causal subtree\<close>

definition caused_children :: "state \<Rightarrow> claim_id \<Rightarrow> claim_id list" where
  "caused_children s i =
     map fst (filter (\<lambda>(_, c). cause (so_content c) = Some (CauseClaim i)) (bm_iter (st_claims s)))"

definition cancel_visit :: "ctx \<Rightarrow> claim_id \<Rightarrow> claim_status \<Rightarrow> claim_id \<Rightarrow> unit red" where
  "cancel_visit cx root st i =
     bindR (get_claim i) (\<lambda>c.
     if is_active (status_of c) then set_status cx i (if i = root then st else Cancelled) (Some root)
     else ret ())"

function cancel_loop ::
    "ctx \<Rightarrow> claim_id \<Rightarrow> claim_status \<Rightarrow> claim_id btree_set \<Rightarrow> claim_id list \<Rightarrow> unit red" where
  "cancel_loop cx root st seen [] r = Inr ((), r)"
| "cancel_loop cx root st seen (i # queue) r =
     (if bs_contains seen i then cancel_loop cx root st seen queue r
      else if bm_len (bs_insert i seen) > lim_max_graph_visits (cx_limits cx) then Inl (Refuse EC_Capacity)
      else (case cancel_visit cx root st i r of
          Inl e \<Rightarrow> Inl e
        | Inr (_, r') \<Rightarrow>
            cancel_loop cx root st (bs_insert i seen) (rev (caused_children (r_state r) i) @ queue) r'))"
  by pat_completeness auto

lemma bm_len_bs_insert: "\<not> bs_contains s i \<Longrightarrow> bm_len (bs_insert i s) = Suc (bm_len s)"
  by (simp add: bs_insert_def bm_len_insert bs_contains_def bm_contains_def)

termination cancel_loop
  by (relation "measures [\<lambda>(cx, root, st, seen, queue, r). Suc (lim_max_graph_visits (cx_limits cx)) - bm_len seen,
      \<lambda>(cx, root, st, seen, queue, r). length queue]")
    (auto simp: bm_len_bs_insert)

definition cancel_tree :: "ctx \<Rightarrow> claim_id \<Rightarrow> claim_status \<Rightarrow> unit red" where
  "cancel_tree cx root st = cancel_loop cx root st bm_empty [root]"

section \<open>The victim of a wait cycle\<close>

fun oldest_of :: "claim_id list \<Rightarrow> (session_seq \<times> claim_id) option \<Rightarrow> (session_seq \<times> claim_id) option red" where
  "oldest_of [] oldest = ret oldest"
| "oldest_of (i # rest) oldest =
     bindR (get_claim i) (\<lambda>c.
     let key = (cl_created (so_lifecycle c), i) in
     oldest_of rest (case oldest of
         None \<Rightarrow> Some key
       | Some current \<Rightarrow> if key < current then Some key else oldest))"

definition cycle_victim :: "claim_id btree_set \<Rightarrow> claim_id red" where
  "cycle_victim component =
     bindR (oldest_of (bm_keys component) None) (\<lambda>oldest.
     ok_or (map_option snd oldest) EC_InvalidRelation)"

section \<open>Propagation of dependency failures\<close>

definition min_opt :: "'a::linorder list \<Rightarrow> 'a option" where
  "min_opt xs = (case xs of [] \<Rightarrow> None | x # r \<Rightarrow> Some (fold min r x))"

definition failed_dependency :: "state \<Rightarrow> claim \<Rightarrow> (session_seq \<times> claim_id) option" where
  "failed_dependency s c = min_opt (filter_map (\<lambda>d. case claim_at s d of
       None \<Rightarrow> None
     | Some t \<Rightarrow>
         if is_terminal (status_of t) \<and> status_of t \<noteq> Satisfied
         then Some (cl_created (so_lifecycle t), d) else None)
     (dependencies (so_content c) RK_DependsOn))"

fun dependency_scan ::
    "state \<Rightarrow> nat \<Rightarrow> (claim_id \<times> claim) list \<Rightarrow> nat \<Rightarrow> (claim_id \<times> claim_id) list
       \<Rightarrow> domain_outcome + nat \<times> (claim_id \<times> claim_id) list" where
  "dependency_scan s limit [] visits changes = Inr (visits, changes)"
| "dependency_scan s limit ((i, c) # rest) visits changes =
     (case usize_add visits 1 of
        None \<Rightarrow> Inl (Refuse EC_Capacity)
      | Some visits' \<Rightarrow>
          if visits' > limit then Inl (Refuse EC_Capacity)
          else if is_terminal (status_of c) then dependency_scan s limit rest visits' changes
          else (case failed_dependency s c of
              None \<Rightarrow> dependency_scan s limit rest visits' changes
            | Some (_, w) \<Rightarrow> dependency_scan s limit rest visits' (changes @ [(i, w)])))"

lemma dependency_scan_visits:
  "dependency_scan s limit cs v ch = Inr (v', ch') \<Longrightarrow>
     v' = v + length cs \<and> (v' \<le> limit \<or> cs = []) \<and> (ch' = ch \<or> cs \<noteq> [])"
proof (induction cs arbitrary: v ch)
  case (Cons p cs)
  obtain i c where p: "p = (i, c)" by (cases p)
  from Cons.prems obtain ch1 where "Suc v \<le> limit" and "dependency_scan s limit cs (Suc v) ch1 = Inr (v', ch')"
    by (auto simp: p split: option.splits if_splits prod.splits dest!: usize_add_Some)
  with Cons.IH [of "Suc v" ch1] show ?case by auto
qed simp

definition fail_dependents :: "ctx \<Rightarrow> (claim_id \<times> claim_id) list \<Rightarrow> unit red" where
  "fail_dependents cx changes = forR (\<lambda>(i, w). set_status cx i DependencyFailed (Some w)) changes"

function propagate_failures :: "ctx \<Rightarrow> nat \<Rightarrow> nat red" where
  "propagate_failures cx visits r =
     (case dependency_scan (r_state r) (lim_max_graph_visits (cx_limits cx))
        (bm_iter (st_claims (r_state r))) visits [] of
        Inl e \<Rightarrow> Inl e
      | Inr (visits', changes) \<Rightarrow>
          if changes = [] then Inr (visits', r)
          else (case fail_dependents cx changes r of
              Inl e \<Rightarrow> Inl e
            | Inr (_, r') \<Rightarrow> propagate_failures cx visits' r'))"
  by pat_completeness auto

termination propagate_failures
  by (relation "measure (\<lambda>(cx, visits, r). lim_max_graph_visits (cx_limits cx) - visits)")
    (use dependency_scan_visits in \<open>fastforce simp: neq_Nil_conv\<close>)+

declare propagate_failures.simps [simp del]

section \<open>Satisfaction and release\<close>

text \<open>The \<open>changed\<close> flag of each phase of a release round is the returned value.\<close>

fun satisfy_all :: "ctx \<Rightarrow> claim_id list \<Rightarrow> bool \<Rightarrow> bool red" where
  "satisfy_all cx [] changed = ret changed"
| "satisfy_all cx (i # rest) changed =
     with_state (\<lambda>s.
     if (case claim_at s i of None \<Rightarrow> False | Some c \<Rightarrow> status_of c \<noteq> Satisfied)
     then thenR (set_status cx i Satisfied None) (satisfy_all cx rest True)
     else satisfy_all cx rest changed)"

definition unreleased_child :: "state \<Rightarrow> claim_id \<Rightarrow> bool" where
  "unreleased_child s i \<longleftrightarrow> list_ex (\<lambda>c. cause (so_content c) = Some (CauseClaim i)
     \<and> \<not> cl_released (so_lifecycle c)) (bm_values (st_claims s))"

definition releasable :: "state \<Rightarrow> claim_id list" where
  "releasable s = map fst (filter (\<lambda>(i, c). is_terminal (status_of c) \<and> \<not> cl_released (so_lifecycle c)
     \<and> \<not> unreleased_child s i) (bm_iter (st_claims s)))"

definition release_claim :: "claim_id \<Rightarrow> unit red" where
  "release_claim i =
     bindR (get_claim i) (\<lambda>c. modifyR (put_claim i (with_lifecycle c ((so_lifecycle c)\<lparr>cl_released := True\<rparr>))))"

fun released_monitors ::
    "state \<Rightarrow> (monitor_id \<times> monitor) list \<Rightarrow> domain_outcome + (monitor_id \<times> claim_id) list" where
  "released_monitors s [] = Inr []"
| "released_monitors s ((i, m) # rest) =
     (if mon_released m \<noteq> None then released_monitors s rest
      else (case claim_at s (mon_owner m) of
          None \<Rightarrow> Inl (Refuse EC_InvalidRelation)
        | Some ow \<Rightarrow>
            (case released_monitors s rest of
               Inl e \<Rightarrow> Inl e
             | Inr ms \<Rightarrow>
                 Inr (if cl_released (so_lifecycle ow) \<or> list_all (wait_holds s) (bm_keys (mon_roots m))
                      then (i, mon_owner m) # ms else ms))))"

definition release_monitor :: "ctx \<Rightarrow> monitor_id \<times> claim_id \<Rightarrow> unit red" where
  "release_monitor cx p = (case p of (i, ow) \<Rightarrow>
     with_state (\<lambda>s.
     bindR (ok_or (bm_get (st_monitors s) i) EC_InvalidManifest) (\<lambda>m. stepsR
       [modifyR (put_monitor i (m\<lparr>mon_released := Some (cx_sequence cx)\<rparr>)),
        emit cx (Some ow) LA_ScopeReleased (FactScope i),
        effectR (MonitorReleased i)])))"

definition release_round :: "ctx \<Rightarrow> bool red" where
  "release_round cx =
     with_state (\<lambda>s.
     bindR (satisfy_all cx (bm_keys (tracked_fixpoint s)) False) (\<lambda>changed1.
     with_state (\<lambda>s1.
     let ids = releasable s1 in
     thenR (forR release_claim ids)
     (with_state (\<lambda>s2.
     case released_monitors s2 (bm_iter (st_monitors s2)) of
       Inl e \<Rightarrow> fail e
     | Inr ms \<Rightarrow>
         thenR (forR (release_monitor cx) ms)
         (ret (changed1 \<or> ids \<noteq> [] \<or> ms \<noteq> [])))))))"

text \<open>The visits of one round, counted before its work.\<close>

definition round_visits :: "ctx \<Rightarrow> nat \<Rightarrow> state \<Rightarrow> nat option" where
  "round_visits cx visits s =
     (case Option.bind (usize_add visits (bm_len (st_claims s))) (\<lambda>n. usize_add n (bm_len (st_monitors s))) of
        None \<Rightarrow> None
      | Some v \<Rightarrow> if v > lim_max_graph_visits (cx_limits cx) then None else Some v)"

lemma round_visits_Some:
  "round_visits cx v s = Some v' \<Longrightarrow>
     v' = v + bm_len (st_claims s) + bm_len (st_monitors s) \<and> v' \<le> lim_max_graph_visits (cx_limits cx)"
  by (auto simp: round_visits_def Option.bind_eq_Some_conv split: option.splits if_splits
      dest!: usize_add_Some)

text \<open>With no claim and no monitor a round changes nothing, so every further round costs a visit.\<close>

lemma bs_set_satisfied_ids: "bs_set (satisfied_ids s) = {i. \<exists>c. claim_at s i = Some c \<and> status_of c = Satisfied}"
  by (force simp: satisfied_ids_def bm_iter_get [symmetric])

lemma fixpoint_loop_within:
  "bs_set (fixpoint_loop s sat) \<subseteq> bs_set sat \<union> dom (claim_at s)"
proof (induction s sat rule: fixpoint_loop.induct)
  case (1 s sat)
  let ?cs = "bm_iter (st_claims s)"
  have ids: "set (map fst ?cs) = dom (claim_at s)"
    using set_bm_keys [of "st_claims s"] by (simp add: bm_keys_def)
  obtain sat' changed where eq: "fixpoint_pass s ?cs sat False = (sat', changed)" by fastforce
  have "bs_set sat' \<subseteq> bs_set sat \<union> dom (claim_at s)"
    using fixpoint_pass_within [of s ?cs sat False] eq ids by simp
  moreover have "changed \<Longrightarrow> bs_set (fixpoint_loop s sat') \<subseteq> bs_set sat' \<union> dom (claim_at s)"
    using 1 [of "(sat', changed)" sat' changed] eq by simp
  moreover have "fixpoint_loop s sat = (if changed then fixpoint_loop s sat' else sat')"
    using eq by (simp add: fixpoint_loop.simps [of s sat])
  ultimately show ?case by (cases changed) auto
qed

lemma tracked_fixpoint_within: "bs_set (tracked_fixpoint s) \<subseteq> dom (claim_at s)"
  using fixpoint_loop_within [of s "satisfied_ids s"]
  by (auto simp: tracked_fixpoint_def bs_set_satisfied_ids)

lemma release_round_empty:
  assumes "bm_len (st_claims (r_state r)) = 0" "bm_len (st_monitors (r_state r)) = 0"
  shows "release_round cx r = Inr (False, r)"
proof -
  have "dom (claim_at (r_state r)) = {}" using assms(1) by (simp add: bm_len_card)
  then have "bs_set (tracked_fixpoint (r_state r)) = {}" using tracked_fixpoint_within by blast
  then have "bm_keys (tracked_fixpoint (r_state r)) = []" by (simp add: bs_set_def)
  moreover have "bm_iter (st_claims (r_state r)) = []" "bm_iter (st_monitors (r_state r)) = []"
    using assms by (auto simp: bm_len_def)
  ultimately show ?thesis
    by (simp add: release_round_def with_state_def bindR_def thenR_def ret_def releasable_def)
qed

function propagate_releases :: "ctx \<Rightarrow> nat \<Rightarrow> unit red" where
  "propagate_releases cx visits r =
     (case round_visits cx visits (r_state r) of
        None \<Rightarrow> Inl (Refuse EC_Capacity)
      | Some visits' \<Rightarrow>
          (case release_round cx r of
             Inl e \<Rightarrow> Inl e
           | Inr (changed, r') \<Rightarrow> if changed then propagate_releases cx visits' r' else Inr ((), r')))"
  by pat_completeness auto

termination propagate_releases
proof (relation "measure (\<lambda>(cx, visits, r). lim_max_graph_visits (cx_limits cx) - visits)", goal_cases)
  case (2 cx visits r v' res changed r')
  then have v: "v' = visits + bm_len (st_claims (r_state r)) + bm_len (st_monitors (r_state r))"
    "v' \<le> lim_max_graph_visits (cx_limits cx)" by (auto dest: round_visits_Some)
  have "visits < v'"
  proof (rule ccontr)
    assume "\<not> visits < v'"
    with v have "release_round cx r = Inr (False, r)" by (intro release_round_empty) auto
    with 2 show False by auto
  qed
  with v show ?case by auto
qed simp

declare propagate_releases.simps [simp del]

definition propagate :: "ctx \<Rightarrow> unit red" where
  "propagate cx = bindR (propagate_failures cx 0) (propagate_releases cx)"

end
