(* ===== verification/ValidationRules.thy ===== *)
theory ValidationRules
  imports Reducer
begin

text \<open>
  Validation scheduling and verdicts: \<open>focal-core/src/validation.rs\<close>.  A run walks the pinned
  handlers of its requirement; an error falls back to the next programmatic handler, a pass
  of the programmatic phase of a requirement with a quality bar continues with the agentic
  evaluator, everything else is final.
\<close>

section \<open>Scheduling\<close>

definition scheduled_for :: "state \<Rightarrow> validation_id \<Rightarrow> content_hash \<Rightarrow> bool" where
  "scheduled_for s i target \<longleftrightarrow>
     list_ex (\<lambda>x. ri_validation (run_id x) = i \<and> ri_target_hash (run_id x) = target) (bm_values (st_runs s))"

definition new_run :: "validation \<Rightarrow> validation_run_id \<Rightarrow> content_hash \<Rightarrow> handler_ref \<Rightarrow> validation_run" where
  "new_run v i manifest first =
     \<lparr>run_id = i, run_claim = vc_claim (so_content v), run_evaluator = vc_evaluator (so_content v),
      run_manifest = manifest, run_handler_index = 0,
      run_quality_phase = (hd_agentic first \<and> vc_quality_bar (so_content v) \<noteq> None),
      run_attempts = [], run_final_verdict = None\<rparr>"

definition schedule :: "ctx \<Rightarrow> validation_id \<Rightarrow> content_hash \<Rightarrow> content_hash \<Rightarrow> validation_run_id red" where
  "schedule cx i target manifest =
     with_state (\<lambda>s.
     bindR (ok_or (bm_get (st_validations s) i) EC_UnknownObject) (\<lambda>v.
     thenR (refuse_if (scheduled_for s i target) EC_ConflictingVerdict)
     (bindR (ok_or (checked_add (vl_latest_epoch (so_lifecycle v)) 1) EC_Capacity) (\<lambda>epoch.
     let rid = ValidationRunId i target (vc_phase (so_content v)) epoch in
     bindR (ok_or (first_opt (vc_handlers (so_content v))) EC_InvalidHandler) (\<lambda>first.
     thenR (stepsR
       [modifyR (put_run rid (new_run v rid manifest first)),
        modifyR (put_validation i (with_lifecycle v
          \<lparr>vl_created = vl_created (so_lifecycle v), vl_latest_epoch = epoch\<rparr>)),
        emit cx (Some (vc_claim (so_content v))) LA_ValidationScheduled (FactValidationScheduled rid),
        effectR (ExecuteValidation rid first (vc_evaluator (so_content v)) 0 manifest
          (hd_agentic first \<and> vc_quality_bar (so_content v) \<noteq> None))])
     (ret rid))))))"

definition phase_ids :: "state \<Rightarrow> claim_id \<Rightarrow> validation_phase \<Rightarrow> validation_id list" where
  "phase_ids s claim phase = map fst (filter (\<lambda>(i, v). vc_claim (so_content v) = claim
     \<and> vc_phase (so_content v) = phase \<and> vc_kind (so_content v) \<noteq> VK_Receipt) (bm_iter (st_validations s)))"

definition schedule_phase ::
    "ctx \<Rightarrow> claim_id \<Rightarrow> validation_phase \<Rightarrow> content_hash \<Rightarrow> content_hash \<Rightarrow> unit red" where
  "schedule_phase cx claim phase target manifest =
     with_state (\<lambda>s. forR (\<lambda>i. bindR (schedule cx i target manifest) (\<lambda>_. ret ())) (phase_ids s claim phase))"

section \<open>Receipt validations\<close>

definition receipt_ids :: "state \<Rightarrow> claim_id \<Rightarrow> validation_id list" where
  "receipt_ids s claim = map fst (filter (\<lambda>(i, v). vc_claim (so_content v) = claim
     \<and> vc_kind (so_content v) = VK_Receipt) (bm_iter (st_validations s)))"

definition receipt_handler :: "host \<Rightarrow> handler_ref" where
  "receipt_handler h =
     \<lparr>hd_id = 1, hd_version = blake3 h (as_bytes ''focal.builtin.receipt.v1''), hd_agentic = False\<rparr>"

definition receipt_verdict ::
    "host \<Rightarrow> validation \<Rightarrow> validation_run_id \<Rightarrow> content_hash \<Rightarrow> verdict_record" where
  "receipt_verdict h v rid manifest =
     \<lparr>vr_run = rid, vr_evaluator = vc_evaluator (so_content v), vr_handler = receipt_handler h,
      vr_attempt = 0, vr_manifest = manifest, vr_value = VV_Pass, vr_evidence = []\<rparr>"

definition receipt_run ::
    "host \<Rightarrow> claim_id \<Rightarrow> validation \<Rightarrow> validation_run_id \<Rightarrow> content_hash \<Rightarrow> validation_run" where
  "receipt_run h claim v rid manifest =
     \<lparr>run_id = rid, run_claim = claim, run_evaluator = vc_evaluator (so_content v),
      run_manifest = manifest, run_handler_index = 0, run_quality_phase = False,
      run_attempts = [receipt_verdict h v rid manifest], run_final_verdict = Some VV_Pass\<rparr>"

definition receipt_pass :: "ctx \<Rightarrow> claim_id \<Rightarrow> content_hash \<Rightarrow> content_hash \<Rightarrow> validation_id \<Rightarrow> unit red" where
  "receipt_pass cx claim target manifest i =
     with_state (\<lambda>s.
     bindR (ok_or (bm_get (st_validations s) i) EC_InvalidManifest) (\<lambda>v.
     if list_ex (\<lambda>k. ri_validation k = i \<and> ri_target_hash k = target) (bm_keys (st_runs s)) then ret ()
     else
       bindR (ok_or (checked_add (vl_latest_epoch (so_lifecycle v)) 1) EC_Capacity) (\<lambda>epoch.
       let rid = ValidationRunId i target PH_WholeWork epoch in
       stepsR
         [modifyR (put_run rid (receipt_run (cx_host cx) claim v rid manifest)),
          modifyR (put_validation i (with_lifecycle v
            \<lparr>vl_created = vl_created (so_lifecycle v), vl_latest_epoch = epoch\<rparr>)),
          emit cx (Some claim) LA_ValidationVerdict
            (FactVerdict (receipt_verdict (cx_host cx) v rid manifest))])))"

definition receipt_passes :: "ctx \<Rightarrow> claim_id \<Rightarrow> content_hash \<Rightarrow> content_hash \<Rightarrow> unit red" where
  "receipt_passes cx claim target manifest =
     with_state (\<lambda>s. forR (receipt_pass cx claim target manifest) (receipt_ids s claim))"

section \<open>Phase completion and the aggregate verdict\<close>

definition runs_of :: "state \<Rightarrow> validation_id \<Rightarrow> validation_run list" where
  "runs_of s i = filter (\<lambda>x. ri_validation (run_id x) = i) (bm_values (st_runs s))"

definition required_in :: "claim_id \<Rightarrow> validation_phase \<Rightarrow> validation \<Rightarrow> bool" where
  "required_in claim phase v \<longleftrightarrow> vc_claim (so_content v) = claim \<and> vc_phase (so_content v) = phase
     \<and> vc_mode (so_content v) = MO_Required"

definition phase_complete :: "state \<Rightarrow> claim_id \<Rightarrow> validation_phase \<Rightarrow> bool" where
  "phase_complete s claim phase \<longleftrightarrow> list_all (\<lambda>(i, v). required_in claim phase v \<longrightarrow>
     runs_of s i \<noteq> [] \<and> list_all (\<lambda>x. run_final_verdict x \<noteq> None) (runs_of s i)) (bm_iter (st_validations s))"

definition phase_passed :: "state \<Rightarrow> claim_id \<Rightarrow> validation_phase \<Rightarrow> bool" where
  "phase_passed s claim phase \<longleftrightarrow> list_all (\<lambda>(i, v). required_in claim phase v \<longrightarrow>
     runs_of s i \<noteq> [] \<and> list_all (\<lambda>x. run_final_verdict x = Some VV_Pass) (runs_of s i)) (bm_iter (st_validations s))"

fun worst_of_runs :: "validation_run list \<Rightarrow> verdict_value \<Rightarrow> verdict_value option" where
  "worst_of_runs [] worst = Some worst"
| "worst_of_runs (x # xs) worst = (case run_final_verdict x of
      None \<Rightarrow> None
    | Some v \<Rightarrow> worst_of_runs xs (if severity v > severity worst then v else worst))"

fun aggregate_loop ::
    "state \<Rightarrow> claim_id \<Rightarrow> (validation_id \<times> validation) list \<Rightarrow> verdict_value \<Rightarrow> bool \<Rightarrow> verdict_value option" where
  "aggregate_loop s claim [] worst any = (if any then Some worst else None)"
| "aggregate_loop s claim ((i, v) # rest) worst any =
     (if vc_claim (so_content v) \<noteq> claim \<or> vc_mode (so_content v) \<noteq> MO_Required
         \<or> vc_phase (so_content v) = PH_Admission
      then aggregate_loop s claim rest worst any
      else if runs_of s i = [] then None
      else (case worst_of_runs (runs_of s i) worst of
          None \<Rightarrow> None
        | Some w \<Rightarrow> aggregate_loop s claim rest w True))"

definition aggregate :: "state \<Rightarrow> claim_id \<Rightarrow> verdict_value option" where
  "aggregate s claim = aggregate_loop s claim (bm_iter (st_validations s)) VV_Pass False"

section \<open>Verdicts\<close>

definition control_fenced :: "claim_status \<Rightarrow> bool" where
  "control_fenced st \<longleftrightarrow> st \<in> set [Cancelled, Revoked, Superseded, Expired, Deadlocked, DependencyFailed]"

definition phase_active :: "validation_phase \<Rightarrow> claim_status \<Rightarrow> bool" where
  "phase_active phase st = (case phase of
      PH_Admission \<Rightarrow> st = Posted
    | PH_Increment \<Rightarrow> st \<in> set [Received, Progressed, TestamentGenerated, TestamentAcknowledged, Validating]
    | PH_WholeWork \<Rightarrow> st = Validating)"

definition verdict_state_ok :: "validation_phase \<Rightarrow> claim_status \<Rightarrow> validation_mode \<Rightarrow> bool" where
  "verdict_state_ok phase st mode \<longleftrightarrow> phase_active phase st \<or> is_terminal st \<and> mode = MO_Observe"

text \<open>The evidence of a verdict covers the required schemas, or is a diagnostic for an unavailable result.\<close>

fun evidence_schemas_of ::
    "state \<Rightarrow> artifact_ref list \<Rightarrow> content_hash btree_set \<Rightarrow> bool \<Rightarrow> (content_hash btree_set \<times> bool) option" where
  "evidence_schemas_of s [] actual diagnostic = Some (actual, diagnostic)"
| "evidence_schemas_of s (a # rest) actual diagnostic = (case bm_get (st_artifacts s) (ar_id a) of
      None \<Rightarrow> None
    | Some x \<Rightarrow> evidence_schemas_of s rest (bs_insert (ac_schema_hash (so_content x)) actual)
        (diagnostic \<or> ac_kind (so_content x) = ''error''))"

definition check_evidence :: "validation \<Rightarrow> verdict_record \<Rightarrow> unit red" where
  "check_evidence v verdict =
     with_state (\<lambda>s. if bm_keys (vc_evidence_schemas (so_content v)) = [] then ret ()
     else bindR (ok_or (evidence_schemas_of s (vr_evidence verdict) bm_empty False) EC_InvalidManifest)
       (\<lambda>(actual, diagnostic).
        refuse_if (\<not> list_all (bs_contains actual) (bm_keys (vc_evidence_schemas (so_content v)))
          \<and> \<not> ((vr_value verdict = VV_Incomplete \<or> vr_value verdict = VV_Error) \<and> diagnostic))
          EC_InvalidManifest))"

definition find_from :: "('a \<Rightarrow> bool) \<Rightarrow> nat \<Rightarrow> 'a list \<Rightarrow> nat option" where
  "find_from P k xs = map_option fst (List.find (\<lambda>(_, x). P x) (drop k (enumerate 0 xs)))"

definition next_handler :: "validation_content \<Rightarrow> bool \<Rightarrow> nat \<Rightarrow> verdict_value \<Rightarrow> nat option" where
  "next_handler v quality following value =
     (if value = VV_Error \<and> \<not> quality
      then find_from (\<lambda>h. vc_quality_bar v = None \<or> \<not> hd_agentic h) following (vc_handlers v)
      else if value = VV_Pass \<and> \<not> quality \<and> vc_quality_bar v \<noteq> None
      then find_from hd_agentic following (vc_handlers v)
      else None)"

definition check_verdict :: "ctx \<Rightarrow> verdict_record \<Rightarrow> validation_run \<Rightarrow> validation \<Rightarrow> claim \<Rightarrow> unit red" where
  "check_verdict cx verdict run v c =
     bindR (stepsR
       [refuse_if (run_final_verdict run \<noteq> None) EC_ConflictingVerdict,
        reject_if (is_terminal (status_of c) \<and> vc_mode (so_content v) = MO_Required)
          (Inform (Some (run_claim run)) (InformTerminal (status_of c))),
        refuse_if (\<not> verdict_state_ok (ri_phase (run_id run)) (status_of c) (vc_mode (so_content v)))
          EC_InvalidTransition]) (\<lambda>_.
     bindR (ok_or (nth_opt (vc_handlers (so_content v)) (unat (run_handler_index run))) EC_InvalidHandler) (\<lambda>current.
     thenR (refuse_if (vr_handler verdict \<noteq> current) EC_StaleEvaluator)
     (bindR (ok_or (u32_of_len (length (run_attempts run))) EC_Capacity) (\<lambda>attempt.
     stepsR
       [refuse_if (vr_attempt verdict \<noteq> attempt \<or> vr_manifest verdict \<noteq> run_manifest run) EC_StaleEvaluator,
        verify_artifacts (vr_evidence verdict),
        check_evidence v verdict]))))"

definition advance_run :: "ctx \<Rightarrow> verdict_record \<Rightarrow> validation_run \<Rightarrow> validation \<Rightarrow> validation_run red" where
  "advance_run cx verdict run0 v =
     (let run = run0\<lparr>run_attempts := run_attempts run0 @ [verdict]\<rparr> in
     bindR (ok_or (usize_add (unat (run_handler_index run)) 1) EC_InvalidHandler) (\<lambda>following.
     case next_handler (so_content v) (run_quality_phase run) following (vr_value verdict) of
       None \<Rightarrow> ret (run\<lparr>run_final_verdict := Some (vr_value verdict)\<rparr>)
     | Some n \<Rightarrow>
         bindR (ok_or (nth_opt (vc_handlers (so_content v)) n) EC_InvalidHandler) (\<lambda>handler.
         bindR (ok_or (u32_of_len n) EC_InvalidHandler) (\<lambda>index.
         let quality = hd_agentic handler \<and> vc_quality_bar (so_content v) \<noteq> None in
         bindR (ok_or (u32_of_len (length (run_attempts run))) EC_Capacity) (\<lambda>attempt.
         thenR (effectR (ExecuteValidation (run_id run) handler (run_evaluator run) attempt
           (run_manifest run) quality))
         (ret (run\<lparr>run_handler_index := index, run_quality_phase := quality\<rparr>)))))))"

definition accept_verdict ::
    "ctx \<Rightarrow> verdict_record \<Rightarrow> validation_run \<Rightarrow> validation \<Rightarrow> command_result red" where
  "accept_verdict cx verdict run0 v =
     bindR (advance_run cx verdict run0 v) (\<lambda>run.
     thenR (stepsR
       [modifyR (put_run (run_id run) run),
        emit cx (Some (run_claim run)) LA_ValidationVerdict (FactVerdict verdict)])
     (with_state (\<lambda>s.
     thenR (if ri_phase (run_id run) = PH_Admission \<and> vc_mode (so_content v) = MO_Required
               \<and> phase_complete s (run_claim run) PH_Admission \<and> \<not> phase_passed s (run_claim run) PH_Admission
            then set_status cx (run_claim run) PostFailed None else ret ())
     (ret (ValidationResult (run_id run))))))"

definition record_verdict :: "ctx \<Rightarrow> verdict_record \<Rightarrow> command_result red" where
  "record_verdict cx verdict =
     with_state (\<lambda>s.
     bindR (ok_or (bm_get (st_runs s) (vr_run verdict)) EC_StaleEvaluator) (\<lambda>run.
     bindR (ok_or (bm_get (st_validations s) (ri_validation (run_id run))) EC_UnknownObject) (\<lambda>v.
     bindR (get_claim (run_claim run)) (\<lambda>c.
     thenR (stepsR
       [refuse_if (vr_evaluator verdict \<noteq> principal cx \<or> run_evaluator run \<noteq> principal cx) EC_WrongActor,
        refuse_if (control_fenced (status_of c)) EC_StaleEvaluator])
     (case List.find (\<lambda>old. vr_attempt old = vr_attempt verdict) (run_attempts run) of
        Some old \<Rightarrow>
          if old = verdict then ret (ValidationResult (run_id run)) else fail (Refuse EC_ConflictingVerdict)
      | None \<Rightarrow> thenR (check_verdict cx verdict run v c) (accept_verdict cx verdict run v))))))"

end
