(* ===== verification/ReduceCommands.thy ===== *)
theory ReduceCommands
  imports Generate Propagation ValidationRules
begin

text \<open>
  The commands: one definition per arm of \<open>Reducer::command\<close> in \<open>focal-core/src/reduce.rs\<close>,
  the dispatch, and \<open>execute_domain_on\<close> (command, propagation, object budget).
\<close>

section \<open>Request epochs\<close>

definition cmd_negotiate_epoch :: "ctx \<Rightarrow> request_epoch \<Rightarrow> command_result red" where
  "cmd_negotiate_epoch cx epoch =
     thenR (require_runtime cx)
     (thenR (refuse_if (epoch = 0 \<or> Some epoch \<noteq> di_legacy_epoch (cx_input cx)) EC_InvalidEpoch)
     (with_state (\<lambda>s.
     let window = (case bm_get (st_epochs s) (principal cx) of
           None \<Rightarrow> \<lparr>ew_minimum = epoch, ew_admitted = bm_empty\<rparr> | Some w \<Rightarrow> w) in
     thenR (refuse_if (epoch < ew_minimum window) EC_RequestHistoryExpired)
     (if bs_contains (ew_admitted window) epoch then ret (EpochAdmitted epoch)
      else
        thenR (case bs_last (ew_admitted window) of
           Some lst \<Rightarrow>
             bindR (ok_or (checked_add lst 1) EC_InvalidEpoch) (\<lambda>n. refuse_if (epoch \<noteq> n) EC_InvalidEpoch)
         | None \<Rightarrow> refuse_if (epoch \<noteq> 1) EC_InvalidEpoch)
        (thenR (stepsR
           [modifyR (put_epoch (principal cx) (window\<lparr>ew_admitted := bs_insert epoch (ew_admitted window)\<rparr>)),
            emit cx None LA_EpochAdmitted (FactEpoch epoch)])
         (ret (EpochAdmitted epoch)))))))"

definition cmd_advance_epoch_floor :: "ctx \<Rightarrow> request_epoch \<Rightarrow> command_result red" where
  "cmd_advance_epoch_floor cx minimum =
     thenR (require_runtime cx)
     (thenR (refuse_if (di_legacy_epoch (cx_input cx) = None) EC_InvalidEpoch)
     (with_state (\<lambda>s.
     bindR (ok_or (bm_get (st_epochs s) (principal cx)) EC_RequestEpochNotAdmitted) (\<lambda>window.
     thenR (stepsR
       [refuse_if (minimum < ew_minimum window \<or> \<not> bs_contains (ew_admitted window) minimum) EC_InvalidEpoch,
        modifyR (put_epoch (principal cx)
          (window\<lparr>ew_minimum := minimum, ew_admitted := bm_retain (\<lambda>e. e \<ge> minimum) (ew_admitted window)\<rparr>)),
        emit cx None LA_EpochFloorAdvanced (FactEpoch minimum)])
     (ret (EpochFloorAdvanced minimum))))))"

section \<open>Posting and receipts\<close>

definition newer_policy :: "ctx \<Rightarrow> state \<Rightarrow> claim \<Rightarrow> bool" where
  "newer_policy cx s c \<longleftrightarrow> list_ex (\<lambda>q. case bm_get (st_validations s) (rq_id q) of
       None \<Rightarrow> False
     | Some v \<Rightarrow> vc_policy_revision (so_content v) > au_policy_revision (authority cx))
     (cc_requirements (so_content c))"

definition cmd_post_claim :: "ctx \<Rightarrow> claim_id \<Rightarrow> command_result red" where
  "cmd_post_claim cx i =
     bindR (allowed i [Generated]) (\<lambda>c.
     thenR (require_issuer cx c)
     (with_state (\<lambda>s.
     thenR (stepsR
       [reject_if (newer_policy cx s c) (Inform (Some i) InformStandingDenied),
        set_status cx i Posted None])
     (bindR (canonicalR (manifest_hash (cx_host cx) [])) (\<lambda>manifest.
     thenR (stepsR
       [schedule_phase cx i PH_Admission (so_content_hash c) manifest,
        effectR (DispatchClaim i)])
     (claim_result i))))))"

definition receipt_allocated :: "state \<Rightarrow> receipt_id \<Rightarrow> bool" where
  "receipt_allocated s r \<longleftrightarrow> list_ex (\<lambda>c. case cl_receipt (so_lifecycle c) of
       None \<Rightarrow> False
     | Some rc \<Rightarrow> fence_receipt (rc_fence rc) = r) (bm_values (st_claims s))"

definition check_dependency :: "claim_id \<Rightarrow> claim_id \<Rightarrow> unit red" where
  "check_dependency i d =
     bindR (get_claim d) (\<lambda>t. reject_if (status_of t \<noteq> Satisfied) (Inform (Some i) (DependencyPending d)))"

definition cmd_acquire_receipt :: "ctx \<Rightarrow> claim_id \<Rightarrow> receipt_id \<Rightarrow> u64 \<Rightarrow> command_result red" where
  "cmd_acquire_receipt cx i rid epoch =
     bindR (allowed i [Posted]) (\<lambda>c.
     with_state (\<lambda>s.
     thenR (stepsR
       [refuse_if (subject (so_content c) \<noteq> Some (principal cx)) EC_WrongActor,
        reject_if (\<not> phase_passed s i PH_Admission) (Inform (Some i) ValidationPending),
        forR (check_dependency i) (dependencies (so_content c) RK_DependsOn),
        refuse_if (epoch \<noteq> 1 \<or> is_zero rid \<or> receipt_allocated s rid) EC_StaleReceipt])
     (let rc = \<lparr>rc_fence = ReceiptFence rid epoch, rc_holder = principal cx, rc_acquired = cx_sequence cx\<rparr> in
     thenR (stepsR
       [modifyR (put_claim i (with_lifecycle c ((so_lifecycle c)\<lparr>cl_receipt := Some rc\<rparr>))),
        set_status cx i Received None,
        emit cx (Some i) LA_Received (FactReceipt rc)])
     (ret (ReceiptResult i (rc_fence rc))))))"

definition refence_open_set :: "claim \<Rightarrow> receipt_fence \<Rightarrow> state \<Rightarrow> state" where
  "refence_open_set c fence s = (case cl_evidence_set (so_lifecycle c) of
      None \<Rightarrow> s
    | Some e \<Rightarrow> (case bm_get (st_evidence_sets s) e of
        None \<Rightarrow> s
      | Some es \<Rightarrow> if es_closed es then s else put_set e (es\<lparr>es_receipt := fence\<rparr>) s))"

definition cmd_adopt_receipt ::
    "ctx \<Rightarrow> claim_id \<Rightarrow> receipt_fence \<Rightarrow> receipt_id \<Rightarrow> participant_id \<Rightarrow> u64 \<Rightarrow> command_result red" where
  "cmd_adopt_receipt cx i previous rid holder epoch =
     thenR (require_runtime cx)
     (bindR (allowed i [Received, Progressed, TestamentGenerated, TestamentAcknowledged, Validating]) (\<lambda>c.
     bindR (ok_or (cl_receipt (so_lifecycle c)) EC_StaleReceipt) (\<lambda>old.
     thenR (refuse_if (rc_fence old \<noteq> previous) EC_StaleReceipt)
     (bindR (ok_or (checked_add (fence_epoch previous) 1) EC_StaleReceipt) (\<lambda>following.
     with_state (\<lambda>s.
     thenR (stepsR
       [refuse_if (epoch \<noteq> following \<or> is_zero rid \<or> is_zero holder) EC_StaleReceipt,
        refuse_if (receipt_allocated s rid) EC_StaleReceipt])
     (let rc = \<lparr>rc_fence = ReceiptFence rid epoch, rc_holder = holder, rc_acquired = cx_sequence cx\<rparr> in
     thenR (stepsR
       [modifyR (refence_open_set c (rc_fence rc)),
        modifyR (put_claim i (with_lifecycle c ((so_lifecycle c)\<lparr>cl_receipt := Some rc\<rparr>))),
        emit cx (Some i) LA_ReceiptAdopted (FactReceipt rc)])
     (ret (ReceiptResult i (rc_fence rc))))))))))"

section \<open>Work and evidence\<close>

definition cmd_record_progress :: "ctx \<Rightarrow> claim_id \<Rightarrow> receipt_fence \<Rightarrow> string \<Rightarrow> command_result red" where
  "cmd_record_progress cx i fence message =
     bindR (allowed i [Received, Progressed]) (\<lambda>c.
     thenR (stepsR
       [require_holder cx c fence,
        check_text cx message,
        if status_of c = Received then set_status cx i Progressed None else ret (),
        emit cx (Some i) LA_Progressed (FactProgress message)])
     (claim_result i))"

definition empty_set :: "evidence_set_id \<Rightarrow> claim_id \<Rightarrow> receipt_fence \<Rightarrow> evidence_set" where
  "empty_set e i fence = \<lparr>es_id = e, es_claim = i, es_receipt = fence, es_artifacts = [], es_closed = False\<rparr>"

definition cmd_begin_evidence_set :: "ctx \<Rightarrow> claim_id \<Rightarrow> receipt_fence \<Rightarrow> evidence_set_id \<Rightarrow> command_result red" where
  "cmd_begin_evidence_set cx i fence e =
     bindR (allowed i [Received, Progressed]) (\<lambda>c.
     with_state (\<lambda>s.
     thenR (stepsR
       [require_holder cx c fence,
        refuse_if (is_zero e \<or> bm_contains (st_evidence_sets s) e
          \<or> cl_evidence_set (so_lifecycle c) \<noteq> None) EC_ObjectIdConflict,
        modifyR (put_set e (empty_set e i fence)),
        modifyR (put_claim i (with_lifecycle c ((so_lifecycle c)\<lparr>cl_evidence_set := Some e\<rparr>))),
        emit cx (Some i) LA_EvidenceOpened (FactEvidenceSet e)])
     (ret (EvidenceSetResult e))))"

definition attach_reference :: "ctx \<Rightarrow> claim_id \<Rightarrow> evidence_set_id \<Rightarrow> artifact_ref \<Rightarrow> unit red" where
  "attach_reference cx i e reference =
     with_state (\<lambda>s.
     bindR (ok_or (bm_get (st_evidence_sets s) e) EC_InvalidManifest) (\<lambda>es.
     if reference \<in> set (es_artifacts es) then ret ()
     else stepsR
       [modifyR (put_set e (es\<lparr>es_artifacts := es_artifacts es @ [reference]\<rparr>)),
        emit cx (Some i) LA_ArtifactAttached (FactArtifact reference)]))"

definition cmd_attach_artifact ::
    "ctx \<Rightarrow> claim_id \<Rightarrow> receipt_fence \<Rightarrow> evidence_set_id \<Rightarrow> new_artifact \<Rightarrow> command_result red" where
  "cmd_attach_artifact cx i fence e artifact =
     bindR (allowed i [Received, Progressed]) (\<lambda>c.
     thenR (require_holder cx c fence)
     (with_state (\<lambda>s.
     bindR (ok_or (bm_get (st_evidence_sets s) e) EC_UnknownObject) (\<lambda>es.
     thenR (stepsR
       [refuse_if (es_claim es \<noteq> i \<or> es_receipt es \<noteq> fence \<or> es_closed es) EC_StaleReceipt,
        refuse_if (length (es_artifacts es) \<ge> lim_max_artifacts_per_set (cx_limits cx)) EC_Capacity,
        refuse_if (ac_receipt (na_content artifact) \<noteq> Some fence
          \<or> ac_producer (na_content artifact) \<noteq> principal cx) EC_WrongActor])
     (bindR (create_artifact cx artifact) (\<lambda>reference.
     thenR (attach_reference cx i e reference)
     (ret (ArtifactResult reference))))))))"

definition cmd_close_testament ::
    "ctx \<Rightarrow> claim_id \<Rightarrow> receipt_fence \<Rightarrow> testament_id \<Rightarrow> evidence_set_id \<Rightarrow> artifact_ref list \<Rightarrow> string
       \<Rightarrow> confidence \<Rightarrow> outcome_kind \<Rightarrow> command_result red" where
  "cmd_close_testament cx i fence t e manifest summary conf out =
     bindR (allowed i [Received, Progressed]) (\<lambda>c.
     thenR (stepsR [require_holder cx c fence, check_text cx summary])
     (with_state (\<lambda>s.
     bindR (ok_or (bm_get (st_evidence_sets s) e) EC_UnknownObject) (\<lambda>es.
     thenR (stepsR
       [refuse_if (es_claim es \<noteq> i \<or> es_receipt es \<noteq> fence \<or> es_closed es) EC_StaleReceipt,
        refuse_if (es_artifacts es \<noteq> manifest) EC_InvalidManifest,
        create_testament cx t
          \<lparr>tc_ledger = st_ledger s, tc_schema = SCHEMA, tc_claim = i, tc_receipt = fence,
           tc_evidence_set = e, tc_artifacts = manifest, tc_summary = summary,
           tc_confidence = conf, tc_outcome = out\<rparr>,
        set_status cx i TestamentGenerated None])
     (ret (TestamentResult t))))))"

definition acknowledge :: "ctx \<Rightarrow> session_seq \<Rightarrow> testament_id \<Rightarrow> testament \<Rightarrow> unit red" where
  "acknowledge cx created i t = modifyR (put_testament i (with_lifecycle t
     \<lparr>tl_created = created, tl_acknowledged = Some (cx_sequence cx)\<rparr>))"

definition cmd_acknowledge_testament :: "ctx \<Rightarrow> claim_id \<Rightarrow> testament_id \<Rightarrow> command_result red" where
  "cmd_acknowledge_testament cx i tid =
     thenR (require_runtime cx)
     (bindR (allowed i [TestamentGenerated]) (\<lambda>c.
     thenR (refuse_if (cl_testament (so_lifecycle c) \<noteq> Some tid) EC_InvalidManifest)
     (with_state (\<lambda>s.
     bindR (ok_or (bm_get (st_testaments s) tid) EC_UnknownObject) (\<lambda>t.
     thenR (stepsR
       [verify_artifacts (tc_artifacts (so_content t)),
        acknowledge cx (tl_created (so_lifecycle t)) tid t,
        set_status cx i TestamentAcknowledged None])
     (bindR (canonicalR (manifest_hash (cx_host cx) (tc_artifacts (so_content t)))) (\<lambda>manifest.
     thenR (receipt_passes cx i (so_content_hash t) manifest)
     (claim_result i))))))))"

section \<open>Validation\<close>

definition cmd_begin_whole_work :: "ctx \<Rightarrow> claim_id \<Rightarrow> command_result red" where
  "cmd_begin_whole_work cx i =
     thenR (require_runtime cx)
     (bindR (allowed i [TestamentAcknowledged]) (\<lambda>c.
     with_state (\<lambda>s.
     thenR (reject_if (\<not> phase_complete s i PH_Increment) (Inform (Some i) ValidationPending))
     (bindR (ok_or (cl_testament (so_lifecycle c)) EC_InvalidManifest) (\<lambda>tid.
     bindR (ok_or (bm_get (st_testaments s) tid) EC_InvalidManifest) (\<lambda>t.
     bindR (canonicalR (manifest_hash (cx_host cx) (tc_artifacts (so_content t)))) (\<lambda>manifest.
     thenR (stepsR
       [set_status cx i Validating None,
        schedule_phase cx i PH_WholeWork (so_content_hash t) manifest])
     (claim_result i))))))))"

definition cmd_begin_increment ::
    "ctx \<Rightarrow> claim_id \<Rightarrow> validation_id \<Rightarrow> content_hash \<Rightarrow> content_hash \<Rightarrow> command_result red" where
  "cmd_begin_increment cx i vid target manifest =
     thenR (require_runtime cx)
     (bindR (allowed i [Received, Progressed, TestamentGenerated, TestamentAcknowledged]) (\<lambda>_.
     with_state (\<lambda>s.
     bindR (ok_or (bm_get (st_validations s) vid) EC_UnknownObject) (\<lambda>v.
     thenR (refuse_if (vc_claim (so_content v) \<noteq> i \<or> vc_phase (so_content v) \<noteq> PH_Increment) EC_InvalidRelation)
     (bindR (schedule cx vid target manifest) (\<lambda>rid.
     ret (ValidationResult rid)))))))"

definition cmd_fenced_verdict :: "ctx \<Rightarrow> verdict_record \<Rightarrow> receipt_fence option \<Rightarrow> command_result red" where
  "cmd_fenced_verdict cx verdict fence =
     with_state (\<lambda>s.
     bindR (ok_or (bm_get (st_runs s) (vr_run verdict)) EC_UnknownObject) (\<lambda>run.
     bindR (get_claim (run_claim run)) (\<lambda>c.
     thenR (refuse_if (map_option rc_fence (cl_receipt (so_lifecycle c)) \<noteq> fence) EC_StaleReceipt)
     (record_verdict cx verdict))))"

definition complete_local :: "ctx \<Rightarrow> claim_id \<Rightarrow> unit red" where
  "complete_local cx i =
     bindR (get_claim i) (\<lambda>c. stepsR
       [modifyR (put_claim i (with_lifecycle c ((so_lifecycle c)\<lparr>cl_local_complete := True\<rparr>))),
        emit cx (Some i) LA_LocalCompleted FactLocalCompletion])"

definition cmd_complete_whole_work :: "ctx \<Rightarrow> claim_id \<Rightarrow> command_result red" where
  "cmd_complete_whole_work cx i =
     thenR (require_runtime cx)
     (bindR (allowed i [Validating]) (\<lambda>c.
     thenR (reject_if (cl_local_complete (so_lifecycle c)) (Inform (Some i) AlreadyApplied))
     (with_state (\<lambda>s. case aggregate s i of
        None \<Rightarrow> fail (Inform (Some i) ValidationPending)
      | Some value \<Rightarrow>
          thenR (case value of
              VV_Pass \<Rightarrow> complete_local cx i
            | VV_Fail \<Rightarrow> set_status cx i ValidationFailed None
            | VV_Error \<Rightarrow> set_status cx i ValidationErrored None
            | VV_Incomplete \<Rightarrow> set_status cx i ValidationIncomplete None)
          (thenR (propagate cx)
          (claim_result i))))))"

section \<open>Boundary failures\<close>

definition cmd_fail_post :: "ctx \<Rightarrow> claim_id \<Rightarrow> artifact_ref \<Rightarrow> command_result red" where
  "cmd_fail_post cx i evidence =
     thenR (require_runtime cx)
     (bindR (allowed i [Generated, Posted]) (\<lambda>_.
     thenR (stepsR [verify_error evidence, set_status cx i PostFailed None])
     (claim_result i)))"

definition cmd_fail_receipt :: "ctx \<Rightarrow> claim_id \<Rightarrow> artifact_ref \<Rightarrow> command_result red" where
  "cmd_fail_receipt cx i evidence =
     thenR (require_runtime cx)
     (bindR (allowed i [Posted]) (\<lambda>_.
     thenR (stepsR [verify_error evidence, set_status cx i ReceiptFailed None])
     (claim_result i)))"

definition open_failure_set :: "claim_id \<Rightarrow> receipt_fence \<Rightarrow> evidence_set_id \<Rightarrow> unit red" where
  "open_failure_set i fence e =
     with_state (\<lambda>s. case bm_get (st_evidence_sets s) e of
        Some es \<Rightarrow> refuse_if (es_claim es \<noteq> i \<or> es_closed es) EC_InvalidManifest
      | None \<Rightarrow> modifyR (put_set e (empty_set e i fence)))"

definition stage_failure :: "evidence_set_id \<Rightarrow> artifact_ref \<Rightarrow> artifact_ref list red" where
  "stage_failure e a =
     with_state (\<lambda>s.
     bindR (ok_or (bm_get (st_evidence_sets s) e) EC_InvalidManifest) (\<lambda>es.
     if a \<in> set (es_artifacts es) then ret (es_artifacts es)
     else thenR (modifyR (put_set e (es\<lparr>es_artifacts := es_artifacts es @ [a]\<rparr>)))
       (ret (es_artifacts es @ [a]))))"

definition close_failed ::
    "ctx \<Rightarrow> claim_id \<Rightarrow> testament_id \<Rightarrow> testament_content \<Rightarrow> command_result red" where
  "close_failed cx i tid content =
     bindR (canonicalR (testament_content_hash (cx_host cx) content)) (\<lambda>h.
     bindR (canonicalR (manifest_hash (cx_host cx) (tc_artifacts content))) (\<lambda>manifest.
     thenR (create_testament cx tid content)
     (with_state (\<lambda>s.
     bindR (ok_or (bm_get (st_testaments s) tid) EC_InvalidManifest) (\<lambda>t.
     thenR (stepsR
       [acknowledge cx (cx_sequence cx) tid t,
        emit cx (Some i) LA_TestamentAcknowledged (FactTestament tid h),
        receipt_passes cx i h manifest,
        set_status cx i TestamentGenerationFailed None])
     (claim_result i))))))"

definition cmd_fail_testament_generation ::
    "ctx \<Rightarrow> claim_id \<Rightarrow> testament_id \<Rightarrow> evidence_set_id \<Rightarrow> new_artifact \<Rightarrow> string \<Rightarrow> command_result red" where
  "cmd_fail_testament_generation cx i tid e error summary =
     thenR (require_runtime cx)
     (bindR (allowed i [Received, Progressed]) (\<lambda>c.
     thenR (stepsR
       [check_text cx summary,
        refuse_if (ac_kind (na_content error) \<noteq> ''error'') EC_InvalidSchema])
     (bindR (create_artifact cx error) (\<lambda>a.
     bindR (ok_or (cl_receipt (so_lifecycle c)) EC_StaleReceipt) (\<lambda>rc.
     thenR (open_failure_set i (rc_fence rc) e)
     (bindR (stage_failure e a) (\<lambda>artifacts.
     with_state (\<lambda>s. close_failed cx i tid
       \<lparr>tc_ledger = st_ledger s, tc_schema = SCHEMA, tc_claim = i, tc_receipt = rc_fence rc,
        tc_evidence_set = e, tc_artifacts = artifacts, tc_summary = summary,
        tc_confidence = CF_Committed, tc_outcome = OC_Failed\<rparr>))))))))"

section \<open>Control\<close>

definition cmd_cancel_claim :: "ctx \<Rightarrow> claim_id \<Rightarrow> string \<Rightarrow> command_result red" where
  "cmd_cancel_claim cx i reason =
     bindR (allow_active i) (\<lambda>c.
     thenR (stepsR [require_issuer cx c, check_text cx reason, cancel_tree cx i Cancelled])
     (claim_result i))"

definition cmd_revoke_claim :: "ctx \<Rightarrow> claim_id \<Rightarrow> string \<Rightarrow> command_result red" where
  "cmd_revoke_claim cx i reason =
     thenR (require_runtime cx)
     (bindR (allow_active i) (\<lambda>_.
     thenR (stepsR [check_text cx reason, cancel_tree cx i Revoked])
     (claim_result i)))"

definition expire_scope :: "ctx \<Rightarrow> claim_id \<Rightarrow> unit red" where
  "expire_scope cx i =
     with_state (\<lambda>s. case cycle_containing s i (lim_max_graph_visits (cx_limits cx)) of
        Inl e \<Rightarrow> fail e
      | Inr (Some component) \<Rightarrow> bindR (cycle_victim component) (\<lambda>victim. cancel_tree cx victim Deadlocked)
      | Inr None \<Rightarrow> cancel_tree cx i Expired)"

definition cmd_expire_claim :: "ctx \<Rightarrow> claim_id \<Rightarrow> timer_id \<Rightarrow> u64 \<Rightarrow> u64 \<Rightarrow> command_result red" where
  "cmd_expire_claim cx i timer generation fired_at =
     thenR (require_runtime cx)
     (bindR (get_claim i) (\<lambda>c.
     if is_terminal (status_of c) then ret Noop
     else (case cc_deadline (so_content c) of
        None \<Rightarrow> ret Noop
      | Some d \<Rightarrow>
          if dl_timer d \<noteq> timer \<or> dl_generation d \<noteq> generation then ret Noop
          else thenR (stepsR
            [refuse_if (fired_at < dl_at d \<or> au_logical_time (authority cx) < fired_at) EC_DeadlineNotDue,
             expire_scope cx i])
            (claim_result i))))"

definition cmd_supersede_claim :: "ctx \<Rightarrow> claim_id \<Rightarrow> new_claim \<Rightarrow> command_result red" where
  "cmd_supersede_claim cx predecessor successor =
     bindR (get_claim predecessor) (\<lambda>c.
     thenR (stepsR
       [require_issuer cx c,
        refuse_if (issuer (nc_content successor) \<noteq> issuer (so_content c)
          \<or> subject (nc_content successor) \<noteq> subject (so_content c)
          \<or> predecessor \<notin> set (dependencies (nc_content successor) RK_Supersedes)) EC_InvalidRelation])
     (bindR (generate cx [successor]) (\<lambda>result.
     thenR (if is_active (status_of c) then cancel_tree cx predecessor Superseded else ret ())
     (ret result))))"

section \<open>Monitors and scopes\<close>

definition cmd_register_monitor ::
    "ctx \<Rightarrow> monitor_id \<Rightarrow> claim_id \<Rightarrow> wait_predicate btree_set \<Rightarrow> deadline \<Rightarrow> command_result red" where
  "cmd_register_monitor cx mid ow roots d =
     bindR (allow_active ow) (\<lambda>c.
     with_state (\<lambda>s.
     thenR (stepsR
       [require_issuer cx c,
        refuse_if (is_zero mid \<or> bm_contains (st_monitors s) mid) EC_ObjectIdConflict,
        refuse_if (dl_at d \<le> au_logical_time (authority cx) \<or> is_zero (dl_timer d)) EC_MissingDeadline,
        refuse_if (bm_keys roots = [] \<or> bm_len roots > lim_max_relations (cx_limits cx)
          \<or> bm_len (st_monitors s) \<ge> lim_max_monitors (cx_limits cx)) EC_Capacity,
        forR (\<lambda>p. bindR (get_claim (wp_claim p)) (\<lambda>_. ret ())) (bm_keys roots),
        modifyR (put_monitor mid
          \<lparr>mon_id = mid, mon_owner = ow, mon_roots = roots, mon_deadline = d,
           mon_registered = cx_sequence cx, mon_released = None\<rparr>),
        emit cx (Some ow) LA_ScopeRegistered (FactScope mid),
        effectR (ScheduleDeadline ow d)])
     (ret (MonitorResult mid))))"

definition rebind_predicate :: "claim_id \<Rightarrow> claim_id \<Rightarrow> wait_predicate \<Rightarrow> wait_predicate" where
  "rebind_predicate old new p = (if wp_claim p = old then
     (case p of WaitSatisfied _ \<Rightarrow> WaitSatisfied new | WaitTerminal _ \<Rightarrow> WaitTerminal new
       | WaitReleased _ \<Rightarrow> WaitReleased new) else p)"

definition cmd_rebind_monitor :: "ctx \<Rightarrow> monitor_id \<Rightarrow> claim_id \<Rightarrow> claim_id \<Rightarrow> command_result red" where
  "cmd_rebind_monitor cx mid predecessor successor =
     thenR (require_runtime cx)
     (bindR (get_claim successor) (\<lambda>new.
     thenR (refuse_if (predecessor \<notin> set (dependencies (so_content new) RK_Supersedes)) EC_InvalidRelation)
     (with_state (\<lambda>s.
     bindR (ok_or (bm_get (st_monitors s) mid) EC_UnknownObject) (\<lambda>m.
     thenR (stepsR
       [reject_if (mon_released m \<noteq> None) (Inform (Some (mon_owner m)) AlreadyApplied),
        refuse_if (\<not> list_ex (\<lambda>p. wp_claim p = predecessor) (bm_keys (mon_roots m))) EC_InvalidRelation,
        modifyR (put_monitor mid (m\<lparr>mon_roots :=
          bs_of_list (map (rebind_predicate predecessor successor) (bm_keys (mon_roots m)))\<rparr>)),
        emit cx (Some (mon_owner m)) LA_ScopeRebound (FactScope mid)])
     (ret (MonitorResult mid)))))))"

definition cmd_release_scope :: "ctx \<Rightarrow> claim_id \<Rightarrow> command_result red" where
  "cmd_release_scope cx i =
     thenR (require_runtime cx)
     (bindR (get_claim i) (\<lambda>c.
     with_state (\<lambda>s.
     thenR (stepsR
       [reject_if (\<not> is_terminal (status_of c) \<or> unreleased_child s i) (Inform (Some i) (DependencyPending i)),
        modifyR (put_claim i (with_lifecycle c ((so_lifecycle c)\<lparr>cl_released := True\<rparr>)))])
     (claim_result i))))"

definition cmd_register_artifact :: "ctx \<Rightarrow> new_artifact \<Rightarrow> command_result red" where
  "cmd_register_artifact cx artifact =
     thenR (stepsR
       [require_runtime cx,
        refuse_if (ac_producer (na_content artifact) \<noteq> principal cx) EC_WrongActor])
     (bindR (create_artifact cx artifact) (\<lambda>reference.
     thenR (emit cx None LA_ArtifactAttached (FactArtifact reference))
     (ret (ArtifactResult reference))))"

definition cmd_expire_monitor :: "ctx \<Rightarrow> monitor_id \<Rightarrow> timer_id \<Rightarrow> u64 \<Rightarrow> u64 \<Rightarrow> command_result red" where
  "cmd_expire_monitor cx mid timer generation fired_at =
     thenR (require_runtime cx)
     (with_state (\<lambda>s.
     bindR (ok_or (bm_get (st_monitors s) mid) EC_UnknownObject) (\<lambda>m.
     if mon_released m \<noteq> None \<or> dl_timer (mon_deadline m) \<noteq> timer \<or> dl_generation (mon_deadline m) \<noteq> generation
     then ret Noop
     else thenR (stepsR
       [refuse_if (fired_at < dl_at (mon_deadline m) \<or> au_logical_time (authority cx) < fired_at) EC_DeadlineNotDue,
        expire_scope cx (mon_owner m)])
       (ret (MonitorResult mid)))))"

section \<open>Dispatch\<close>

definition command_step :: "ctx \<Rightarrow> command_result red" where
  "command_step cx = (case di_command (cx_input cx) of
      NegotiateEpoch e \<Rightarrow> cmd_negotiate_epoch cx e
    | AdvanceEpochFloor m \<Rightarrow> cmd_advance_epoch_floor cx m
    | GenerateClaim c \<Rightarrow> generate cx [c]
    | GenerateClaimBatch cs \<Rightarrow> generate cx cs
    | PostClaim i \<Rightarrow> cmd_post_claim cx i
    | AcquireReceipt i r e \<Rightarrow> cmd_acquire_receipt cx i r e
    | AdoptReceipt i p r h e \<Rightarrow> cmd_adopt_receipt cx i p r h e
    | RecordProgress i f m \<Rightarrow> cmd_record_progress cx i f m
    | BeginEvidenceSet i f e \<Rightarrow> cmd_begin_evidence_set cx i f e
    | AttachArtifact i f e a \<Rightarrow> cmd_attach_artifact cx i f e a
    | CloseTestament i f t e ms sm cf oc \<Rightarrow> cmd_close_testament cx i f t e ms sm cf oc
    | AcknowledgeTestament i t \<Rightarrow> cmd_acknowledge_testament cx i t
    | BeginWholeWorkValidation i \<Rightarrow> cmd_begin_whole_work cx i
    | BeginIncrementValidation i v t m \<Rightarrow> cmd_begin_increment cx i v t m
    | RecordValidationVerdict v \<Rightarrow> record_verdict cx v
    | CompleteWholeWork i \<Rightarrow> cmd_complete_whole_work cx i
    | FailPost i a \<Rightarrow> cmd_fail_post cx i a
    | FailReceipt i a \<Rightarrow> cmd_fail_receipt cx i a
    | FailTestamentGeneration i t e a sm \<Rightarrow> cmd_fail_testament_generation cx i t e a sm
    | CancelClaim i m \<Rightarrow> cmd_cancel_claim cx i m
    | RevokeClaim i m \<Rightarrow> cmd_revoke_claim cx i m
    | ExpireClaim i t g f \<Rightarrow> cmd_expire_claim cx i t g f
    | SupersedeClaim p n \<Rightarrow> cmd_supersede_claim cx p n
    | RegisterMonitor m ow rs d \<Rightarrow> cmd_register_monitor cx m ow rs d
    | RebindMonitor m p n \<Rightarrow> cmd_rebind_monitor cx m p n
    | ReleaseScope i \<Rightarrow> cmd_release_scope cx i
    | RegisterArtifact a \<Rightarrow> cmd_register_artifact cx a
    | ExpireMonitor m t g f \<Rightarrow> cmd_expire_monitor cx m t g f
    | RecordFencedValidationVerdict v f \<Rightarrow> cmd_fenced_verdict cx v f)"

fun usize_sum :: "nat list \<Rightarrow> nat \<Rightarrow> nat option" where
  "usize_sum [] acc = Some acc"
| "usize_sum (n # ns) acc = Option.bind (usize_add acc n) (usize_sum ns)"

definition object_budget :: "ctx \<Rightarrow> unit red" where
  "object_budget cx = with_state (\<lambda>s.
     bindR (ok_or (usize_sum [bm_len (st_claims s), bm_len (st_validations s), bm_len (st_artifacts s),
        bm_len (st_testaments s), bm_len (st_evidence_sets s), bm_len (st_runs s)] 0) EC_Capacity) (\<lambda>objects.
     refuse_if (objects > lim_max_objects (cx_limits cx)) EC_Capacity))"

definition execute_domain_on ::
    "ctx \<Rightarrow> state \<Rightarrow> domain_outcome + state \<times> command_result \<times> delta list \<times> effect_intent list" where
  "execute_domain_on cx s =
     (case bindR (command_step cx) (\<lambda>result.
             thenR (stepsR [propagate cx, object_budget cx]) (ret result))
           \<lparr>r_state = s, r_deltas = [], r_effects = []\<rparr> of
        Inl e \<Rightarrow> Inl e
      | Inr (result, r) \<Rightarrow> Inr (r_state r, result, r_deltas r, r_effects r))"

definition execute_on ::
    "host \<Rightarrow> limits \<Rightarrow> authenticated_input \<Rightarrow> session_seq \<Rightarrow> state
       \<Rightarrow> domain_outcome + state \<times> command_result \<times> delta list \<times> effect_intent list" where
  "execute_on h lims input sequence s = execute_domain_on
     \<lparr>cx_host = h, cx_limits = lims,
      cx_input = \<lparr>di_principal = ai_principal input, di_authority = ai_authority input,
                  di_command = ai_command input, di_legacy_epoch = Some (ai_request_epoch input)\<rparr>,
      cx_sequence = sequence\<rparr> s"

end
