(* ===== verification/ReducerFacts.thy ===== *)
theory ReducerFacts
  imports ReduceCommands
begin

text \<open>
  What success of a reducer operation says: for each shared operation an equivalence that
  gives the reducer it ends in.  All are simplification rules, so that unfolding a command
  turns its success into guards and a final state.
\<close>

section \<open>Guards\<close>

lemma get_claim_Inr [simp, red_inv]: "get_claim i r = Inr (c, r') \<longleftrightarrow> claim_at (r_state r) i = Some c \<and> r' = r"
  by (simp add: get_claim_def)

lemma require_runtime_Inr [simp, red_inv]: "require_runtime cx r = Inr (u, r') \<longleftrightarrow> au_runtime (authority cx) \<and> r' = r"
  by (simp add: require_runtime_def)

lemma allowed_Inr [simp, red_inv]:
  "allowed i sts r = Inr (c, r') \<longleftrightarrow>
     claim_at (r_state r) i = Some c \<and> \<not> is_terminal (status_of c) \<and> status_of c \<in> set sts \<and> r' = r"
  by (auto simp: allowed_def)

lemma is_active_iff [simp]: "is_active st \<longleftrightarrow> \<not> is_terminal st"
  by (simp add: is_active_def)

lemma active_cases:
  "\<not> is_terminal st \<longleftrightarrow> st \<in> set [Generated, Posted, Received, Progressed, TestamentGenerated,
     TestamentAcknowledged, Validating]"
  by (cases st) auto

lemma allow_active_Inr [simp, red_inv]:
  "allow_active i r = Inr (c, r') \<longleftrightarrow> claim_at (r_state r) i = Some c \<and> \<not> is_terminal (status_of c) \<and> r' = r"
  unfolding allow_active_def allowed_Inr active_cases by blast

lemma require_holder_Inr [simp, red_inv]:
  "require_holder cx c fence r = Inr (u, r') \<longleftrightarrow>
     (\<exists>rc. cl_receipt (so_lifecycle c) = Some rc \<and> rc_fence rc = fence \<and> rc_holder rc = principal cx) \<and> r' = r"
  by (auto simp: require_holder_def)

lemma require_issuer_Inr [simp, red_inv]:
  "require_issuer cx c r = Inr (u, r') \<longleftrightarrow>
     (au_runtime (authority cx) \<or> issuer (so_content c) = Some (principal cx)) \<and> r' = r"
  by (auto simp: require_issuer_def)

lemma check_text_Inr [simp, red_inv]:
  "check_text cx t r = Inr (u, r') \<longleftrightarrow> length t \<le> lim_max_text_bytes (cx_limits cx) \<and> r' = r"
  by (auto simp: check_text_def)

lemma claim_result_Inr [simp, red_inv]:
  "claim_result i r = Inr (x, r') \<longleftrightarrow>
     (\<exists>c. claim_at (r_state r) i = Some c \<and> x = ClaimResult i (status_of c)) \<and> r' = r"
  by (auto simp: claim_result_def)

lemma forR_refuse_if [simp]:
  "forR (\<lambda>x. refuse_if (P x) e) xs r = Inr (u, r') \<longleftrightarrow> (\<forall>x \<in> set xs. \<not> P x) \<and> r' = r"
  by (induction xs arbitrary: r) auto

lemma verify_artifacts_Inr [simp, red_inv]:
  "verify_artifacts refs r = Inr (u, r') \<longleftrightarrow> (\<forall>a \<in> set refs. artifact_verified (r_state r) a) \<and> r' = r"
  by (simp add: verify_artifacts_def)

lemma artifact_verified_iff:
  "artifact_verified s a \<longleftrightarrow> (\<exists>x. bm_get (st_artifacts s) (ar_id a) = Some x \<and> so_content_hash x = ar_hash a)"
  by (auto simp: artifact_verified_def split: option.splits)

lemma verify_error_Inr [simp, red_inv]:
  "verify_error a r = Inr (u, r') \<longleftrightarrow> r' = r \<and> artifact_verified (r_state r) a
     \<and> (\<exists>x. bm_get (st_artifacts (r_state r)) (ar_id a) = Some x \<and> ac_kind (so_content x) = ''error'')"
  by (auto simp: verify_error_def)

section \<open>Outputs\<close>

definition push_delta :: "ctx \<Rightarrow> claim_id option \<Rightarrow> lifecycle_action \<Rightarrow> delta_fact \<Rightarrow> reducer \<Rightarrow> reducer" where
  "push_delta cx c a f r = r\<lparr>r_deltas := r_deltas r @
     [\<lparr>de_schema = SCHEMA,
       de_id = \<lparr>did_ledger = st_ledger (r_state r), did_sequence = cx_sequence cx,
                did_ordinal = of_nat (length (r_deltas r))\<rparr>,
       de_action = a, de_actor = principal cx, de_claim = c, de_fact = f\<rparr>]\<rparr>"

abbreviation ordinal_free :: "reducer \<Rightarrow> bool" where
  "ordinal_free r \<equiv> length (r_deltas r) < 2 ^ 32"

lemma push_delta_sel [simp]:
  "r_state (push_delta cx c a f r) = r_state r" "r_effects (push_delta cx c a f r) = r_effects r"
  "length (r_deltas (push_delta cx c a f r)) = Suc (length (r_deltas r))"
  by (simp_all add: push_delta_def)

lemma emit_Inr [simp, red_inv]:
  "emit cx c a f r = Inr (u, r') \<longleftrightarrow> ordinal_free r \<and> r' = push_delta cx c a f r"
  by (auto simp: emit_def u32_of_len_def push_delta_def Let_def)

lemma effectR_Inr [simp, red_inv]: "effectR e r = Inr (u, r') \<longleftrightarrow> r' = r\<lparr>r_effects := r_effects r @ [e]\<rparr>"
  by (auto simp: effectR_def)

section \<open>Status\<close>

definition advance_claim :: "ctx \<Rightarrow> claim_status \<Rightarrow> claim_id option \<Rightarrow> claim \<Rightarrow> claim" where
  "advance_claim cx st w c = with_lifecycle c ((so_lifecycle c)
     \<lparr>cl_status := st, cl_revision := cl_revision (so_lifecycle c) + 1,
      cl_history := cl_history (so_lifecycle c) @ [StatusFact st (cx_sequence cx)],
      cl_terminal_witness := w\<rparr>)"

lemma advance_claim_sel [simp]:
  "so_content (advance_claim cx st w c) = so_content c"
  "so_content_hash (advance_claim cx st w c) = so_content_hash c"
  "cl_status (so_lifecycle (advance_claim cx st w c)) = st"
  "cl_revision (so_lifecycle (advance_claim cx st w c)) = cl_revision (so_lifecycle c) + 1"
  "cl_created (so_lifecycle (advance_claim cx st w c)) = cl_created (so_lifecycle c)"
  "cl_history (so_lifecycle (advance_claim cx st w c)) =
     cl_history (so_lifecycle c) @ [StatusFact st (cx_sequence cx)]"
  "cl_receipt (so_lifecycle (advance_claim cx st w c)) = cl_receipt (so_lifecycle c)"
  "cl_evidence_set (so_lifecycle (advance_claim cx st w c)) = cl_evidence_set (so_lifecycle c)"
  "cl_testament (so_lifecycle (advance_claim cx st w c)) = cl_testament (so_lifecycle c)"
  "cl_local_complete (so_lifecycle (advance_claim cx st w c)) = cl_local_complete (so_lifecycle c)"
  "cl_released (so_lifecycle (advance_claim cx st w c)) = cl_released (so_lifecycle c)"
  "cl_terminal_witness (so_lifecycle (advance_claim cx st w c)) = w"
  by (simp_all add: advance_claim_def)

definition revision_free :: "claim \<Rightarrow> bool" where
  "revision_free c \<longleftrightarrow> unat (cl_revision (so_lifecycle c)) + 1 < 2 ^ 64"

definition write_status :: "ctx \<Rightarrow> claim_id \<Rightarrow> claim_status \<Rightarrow> claim_id option \<Rightarrow> claim \<Rightarrow> reducer \<Rightarrow> reducer" where
  "write_status cx i st w c r =
     (let r1 = push_delta cx (Some i) (lifecycle_action_of st) (FactStatus (Some (status_of c)) st w)
                 (r\<lparr>r_state := put_claim i (advance_claim cx st w c) (r_state r)\<rparr>)
      in if is_terminal st \<and> st \<noteq> Satisfied
         then r1\<lparr>r_effects := r_effects r1 @ [CancelExecution i (map_option rc_fence (cl_receipt (so_lifecycle c)))]\<rparr>
         else r1)"

lemma write_status_state [simp]:
  "r_state (write_status cx i st w c r) = put_claim i (advance_claim cx st w c) (r_state r)"
  by (simp add: write_status_def Let_def)

lemma write_status_deltas [simp]:
  "r_deltas (write_status cx i st w c r) = r_deltas (push_delta cx (Some i) (lifecycle_action_of st)
     (FactStatus (Some (status_of c)) st w) r)"
  by (simp add: write_status_def Let_def push_delta_def)

lemma set_status_Inr [simp, red_inv]:
  "set_status cx i st w r = Inr (u, r') \<longleftrightarrow>
     (\<exists>c. claim_at (r_state r) i = Some c \<and> \<not> is_terminal (status_of c) \<and> revision_free c
        \<and> ordinal_free r \<and> r' = write_status cx i st w c r)"
  unfolding set_status_def Let_def
  by (auto simp: checked_add_def revision_free_def write_status_def advance_claim_def Let_def if_Inr)

section \<open>Evidence\<close>

lemma bm_contains_get: "bm_contains m k \<longleftrightarrow> (\<exists>v. bm_get m k = Some v)"
  by (auto simp: bm_contains_def)

lemma free_id_iff:
  "free_id s i \<longleftrightarrow> i \<noteq> 0 \<and> claim_at s i = None \<and> bm_get (st_validations s) i = None
     \<and> bm_get (st_artifacts s) i = None \<and> bm_get (st_testaments s) i = None"
  by (auto simp: free_id_def is_zero_def bm_contains_def)

lemma forR_checks [simp]:
  assumes "\<And>x r r'. f x r = Inr ((), r') \<longleftrightarrow> P x r \<and> r' = r"
  shows "forR f xs r = Inr (u, r') \<longleftrightarrow> (\<forall>x \<in> set xs. P x r) \<and> r' = r"
  by (induction xs arbitrary: r) (auto simp: assms)

lemma check_artifact_Inr:
  assumes "check_artifact cx c r = Inr (u, r')"
  shows "r' = r" "ac_ledger c = st_ledger (r_state r)" "ac_schema c = SCHEMA"
    "\<forall>ob \<in> set (bm_keys (ac_inputs c)). or_ledger ob = st_ledger (r_state r) \<and> object_exists (r_state r) ob"
proof -
  have inp: "forR (\<lambda>ob. thenR (refuse_if (P ob) e) (thenR (refuse_if (Q ob) e') (ret ()))) xs r = Inr ((), r') \<longleftrightarrow>
      (\<forall>ob \<in> set xs. \<not> P ob \<and> \<not> Q ob) \<and> r' = r" for P Q e e' r r' and xs :: "object_ref list"
    by (induction xs arbitrary: r) auto
  show "r' = r" "ac_ledger c = st_ledger (r_state r)" "ac_schema c = SCHEMA"
    "\<forall>ob \<in> set (bm_keys (ac_inputs c)). or_ledger ob = st_ledger (r_state r) \<and> object_exists (r_state r) ob"
    using assms unfolding check_artifact_def
    by (auto simp: inp split: artifact_payload.splits)
qed

definition artifact_row :: "ctx \<Rightarrow> artifact_content \<Rightarrow> content_hash \<Rightarrow> evidence_attestation \<Rightarrow> artifact" where
  "artifact_row cx c h att =
     stored_new c h \<lparr>al_created = cx_sequence cx, al_custody_revision = ea_custody_revision att\<rparr>"

text \<open>A created artifact is either the stored row of the same content, or a new row under a free id.\<close>

lemma create_artifact_cases:
  assumes "create_artifact cx new r = Inr (a, r')"
  obtains (existing) h i where "artifact_content_hash (cx_host cx) (na_content new) = Inr h"
      "bm_get (st_identities (r_state r)) (OK_Artifact, h) = Some i" "a = ArtifactRef i h" "r' = r"
  | (new) h att where "artifact_content_hash (cx_host cx) (na_content new) = Inr h"
      "bm_get (st_identities (r_state r)) (OK_Artifact, h) = None"
      "free_id (r_state r) (na_id new)" "check_artifact cx (na_content new) r = Inr ((), r)"
      "List.find (accepts_attestation h) (au_evidence (authority cx)) = Some att"
      "a = ArtifactRef (na_id new) h"
      "r' = r\<lparr>r_state := put_identity OK_Artifact h (na_id new)
                 (put_artifact (na_id new) (artifact_row cx (na_content new) h att) (r_state r))\<rparr>"
proof -
  from assms obtain r1 where chk: "check_artifact cx (na_content new) r = Inr ((), r1)"
    by (auto simp: create_artifact_def)
  then have "r1 = r" by (rule check_artifact_Inr)
  with assms chk obtain h att where h: "artifact_content_hash (cx_host cx) (na_content new) = Inr h"
    and att: "List.find (accepts_attestation h) (au_evidence (authority cx)) = Some att"
    and rest: "(case bm_get (st_identities (r_state r)) (OK_Artifact, h) of
         Some i \<Rightarrow> ret (ArtifactRef i h)
       | None \<Rightarrow>
           thenR (stepsR
             [refuse_if (\<not> free_id (r_state r) (na_id new)) EC_ObjectIdConflict,
              modifyR (put_artifact (na_id new) (artifact_row cx (na_content new) h att)),
              modifyR (put_identity OK_Artifact h (na_id new))])
           (ret (ArtifactRef (na_id new) h))) r = Inr (a, r')"
    unfolding create_artifact_def artifact_row_def by auto
  show thesis
  proof (cases "bm_get (st_identities (r_state r)) (OK_Artifact, h)")
    case None
    with rest have "free_id (r_state r) (na_id new)" "a = ArtifactRef (na_id new) h"
      "r' = r\<lparr>r_state := put_identity OK_Artifact h (na_id new)
                 (put_artifact (na_id new) (artifact_row cx (na_content new) h att) (r_state r))\<rparr>" by auto
    with new h att None chk \<open>r1 = r\<close> show thesis by blast
  next
    case (Some i)
    with rest existing h show thesis by auto
  qed
qed

definition testament_row :: "ctx \<Rightarrow> testament_content \<Rightarrow> content_hash \<Rightarrow> testament" where
  "testament_row cx content h = stored_new content h \<lparr>tl_created = cx_sequence cx, tl_acknowledged = None\<rparr>"

definition close_claim :: "testament_id \<Rightarrow> testament_content \<Rightarrow> claim \<Rightarrow> claim" where
  "close_claim i content c = with_lifecycle c ((so_lifecycle c)
     \<lparr>cl_evidence_set := Some (tc_evidence_set content), cl_testament := Some i\<rparr>)"

definition testament_written ::
    "ctx \<Rightarrow> testament_id \<Rightarrow> testament_content \<Rightarrow> content_hash \<Rightarrow> evidence_set \<Rightarrow> claim \<Rightarrow> state \<Rightarrow> state" where
  "testament_written cx i content h e c s =
     put_claim (tc_claim content) (close_claim i content c)
      (put_set (tc_evidence_set content) (e\<lparr>es_closed := True\<rparr>)
        (put_identity OK_Testament h i (put_testament i (testament_row cx content h) s)))"

lemma create_testament_Inr:
  "create_testament cx i content r = Inr (u, r') \<longleftrightarrow>
     (\<exists>h e c. free_id (r_state r) i \<and> (\<forall>a \<in> set (tc_artifacts content). artifact_verified (r_state r) a)
        \<and> testament_content_hash (cx_host cx) content = Inr h
        \<and> bm_get (st_identities (r_state r)) (OK_Testament, h) = None
        \<and> bm_get (st_evidence_sets (r_state r)) (tc_evidence_set content) = Some e
        \<and> claim_at (r_state r) (tc_claim content) = Some c \<and> ordinal_free r
        \<and> r' = push_delta cx (Some (tc_claim content)) LA_TestamentGenerated (FactTestament i h)
            (r\<lparr>r_state := testament_written cx i content h e c (r_state r)\<rparr>))"
  unfolding create_testament_def testament_written_def testament_row_def close_claim_def
  by (auto simp: bm_contains_def)

end
