(* ===== verification/GenerateFacts.thy ===== *)
theory GenerateFacts
  imports ReducerFacts
begin

text \<open>
  What an admitted batch of claims satisfies and what it writes.  \<open>proposal_ok\<close> is the
  declarative reading of the checks of \<open>Reducer::generate\<close>; \<open>write_batch\<close> is the effect of
  its second loop on the rows.
\<close>

section \<open>Admitted proposals\<close>

definition handlers_ok :: "validation_content \<Rightarrow> bool" where
  "handlers_ok v \<longleftrightarrow> (vc_quality_bar v \<noteq> None \<longrightarrow> quality_handlers_ok (vc_handlers v))
     \<and> agentic_last (vc_handlers v)
     \<and> (vc_kind v \<noteq> VK_Receipt \<longrightarrow> vc_handlers v \<noteq> [])
     \<and> (vc_kind v = VK_Receipt \<longrightarrow> vc_phase v = PH_WholeWork)"

definition parties_ok :: "ctx \<Rightarrow> claim_content \<Rightarrow> bool" where
  "parties_ok cx c \<longleftrightarrow>
     (\<forall>k \<in> {RK_Issuer, RK_Subject, RK_ClaimAction, RK_CausedBy}. relation_count c k = 1)
     \<and> issuer c \<noteq> None \<and> subject c \<noteq> None \<and> action c \<noteq> None
     \<and> (issuer c = Some (principal cx) \<or> au_runtime (authority cx))
     \<and> cause c = Some (au_cause (authority cx))
     \<and> (issuer c = subject c \<longrightarrow> action c = Some AT_Handoff)"

definition edge_ok :: "state \<Rightarrow> claim_id set \<Rightarrow> claim_id \<Rightarrow> relation_kind \<Rightarrow> object_ref \<Rightarrow> bool" where
  "edge_ok s new_ids new_id k ob \<longleftrightarrow> k \<in> set claim_edge_kinds \<and> or_ledger ob = st_ledger s
     \<and> or_kind ob = OK_Claim \<and> (or_id ob \<in> new_ids \<or> claim_at s (or_id ob) \<noteq> None)
     \<and> \<not> (or_id ob = new_id \<and> k \<in> set lineage_kinds)"

definition validation_ok :: "ctx \<Rightarrow> state \<Rightarrow> new_claim \<Rightarrow> requirement_ref \<Rightarrow> validation_content \<Rightarrow> bool" where
  "validation_ok cx s new q v \<longleftrightarrow> vc_ledger v = st_ledger s \<and> vc_claim v = nc_id new \<and> vc_schema v = SCHEMA
     \<and> specification_hash (cx_host cx) v = Inr (rq_specification q) \<and> vc_evaluator v \<noteq> 0 \<and> handlers_ok v"

definition requirements_ok :: "ctx \<Rightarrow> state \<Rightarrow> new_claim \<Rightarrow> bool" where
  "requirements_ok cx s new \<longleftrightarrow>
     length (cc_requirements (nc_content new)) = length (nc_validations new)
     \<and> distinct (map rq_id (cc_requirements (nc_content new)))
     \<and> (\<forall>q \<in> set (cc_requirements (nc_content new)). \<exists>v \<in> set (nc_validations new).
          nv_id v = rq_id q \<and> validation_ok cx s new q (nv_content v))
     \<and> (\<exists>v \<in> set (nc_validations new). required_receipt (nv_content v))"

definition proposal_ok :: "ctx \<Rightarrow> state \<Rightarrow> claim_id set \<Rightarrow> new_claim \<Rightarrow> bool" where
  "proposal_ok cx s new_ids new \<longleftrightarrow>
     cc_ledger (nc_content new) = st_ledger s \<and> cc_schema (nc_content new) = SCHEMA
     \<and> parties_ok cx (nc_content new)
     \<and> requirements_ok cx s new
     \<and> (\<forall>k ob. Relation k (TObject ob) \<in> set (bm_keys (cc_relations (nc_content new))) \<longrightarrow>
          edge_ok s new_ids (nc_id new) k ob)"

subsection \<open>Each check means its part\<close>

lemma check_fields_Inr:
  "check_fields cx c r = Inr (u, r') \<Longrightarrow>
     r' = r \<and> cc_ledger c = st_ledger (r_state r) \<and> cc_schema c = SCHEMA"
  by (auto simp: check_fields_def)

lemma check_parties_Inr: "check_parties cx c r = Inr (u, r') \<Longrightarrow> r' = r \<and> parties_ok cx c"
  by (auto simp: check_parties_def parties_ok_def)

lemma check_scope_Inr: "check_scope cx s r = Inr (u, r') \<Longrightarrow> r' = r"
  by (auto simp: check_scope_def)

lemma check_scopes_Inr: "forR (check_scope cx) xs r = Inr (u, r') \<Longrightarrow> r' = r"
  by (rule checkR_D [OF checkR_forR]) (auto simp: checkR_def dest: check_scope_Inr)

lemma check_handlers_Inr: "check_handlers cx v r = Inr (u, r') \<Longrightarrow> r' = r \<and> handlers_ok v"
  by (auto simp: check_handlers_def handlers_ok_def split: option.splits)

lemma check_validation_Inr:
  "check_validation cx new q v r = Inr (u, r') \<Longrightarrow> r' = r \<and> validation_ok cx (r_state r) new q v"
  by (auto simp: check_validation_def validation_ok_def is_zero_def dest!: check_handlers_Inr)

lemma check_requirements_Inr:
  assumes "check_requirements cx new qs ids found r = Inr (u, r')"
  shows "r' = r \<and> distinct (map rq_id qs) \<and> set (map rq_id qs) \<inter> bs_set ids = {}
    \<and> (\<forall>q \<in> set qs. \<exists>v \<in> set (nc_validations new). nv_id v = rq_id q
        \<and> validation_ok cx (r_state r) new q (nv_content v))
    \<and> (found \<or> (\<exists>v \<in> set (nc_validations new). required_receipt (nv_content v)))"
  using assms
proof (induction qs arbitrary: ids found r)
  case (Cons q qs)
  from Cons.prems obtain v r1 where q: "rq_id q \<notin> bs_set ids"
    and v: "List.find (\<lambda>v. nv_id v = rq_id q) (nc_validations new) = Some v"
    and chk: "check_validation cx new q (nv_content v) r = Inr ((), r1)"
    and rest: "check_requirements cx new qs (bs_insert (rq_id q) ids)
      (found \<or> required_receipt (nv_content v)) r1 = Inr (u, r')"
    by (auto simp: bs_contains_iff)
  from check_validation_Inr [OF chk] have "r1 = r"
    and ok: "validation_ok cx (r_state r) new q (nv_content v)" by auto
  from v have "v \<in> set (nc_validations new)" "nv_id v = rq_id q" by (auto dest!: find_Some_set)
  with Cons.IH [OF rest] q ok \<open>r1 = r\<close> show ?case by auto
qed auto

lemma check_relation_Inr:
  assumes "check_relation ids new_id rel r = Inr (u, r')"
  shows "r' = r \<and> (\<forall>k ob. rel = Relation k (TObject ob) \<longrightarrow> edge_ok (r_state r) (bs_set ids) new_id k ob)"
  using assms
  by (cases rel) (auto simp: check_relation_def check_edge_def edge_ok_def if_Inr bs_contains_iff
      bm_contains_get split: relation_target.splits)

lemma check_relations_Inr:
  assumes "forR (check_relation ids new_id) rels r = Inr (u, r')"
  shows "r' = r \<and> (\<forall>k ob. Relation k (TObject ob) \<in> set rels \<longrightarrow> edge_ok (r_state r) (bs_set ids) new_id k ob)"
proof -
  have chk: "checkR (check_relation ids new_id rel)" for rel
    by (auto simp: checkR_def dest: check_relation_Inr)
  then have "r' = r" using assms by (blast intro: checkR_D checkR_forR)
  moreover have "check_relation ids new_id rel r = Inr ((), r)" if "rel \<in> set rels" for rel
    using forR_check [OF chk assms that] .
  ultimately show ?thesis by (blast dest: check_relation_Inr)
qed

lemma allocate_validations_Inr:
  assumes "allocate_validations vs ids r = Inr (ids', r')"
  shows "r' = r \<and> bs_set ids' = bs_set ids \<union> set (map nv_id vs) \<and> distinct (map nv_id vs)
    \<and> set (map nv_id vs) \<inter> bs_set ids = {}"
  using assms by (induction vs arbitrary: ids r) (auto simp: bs_contains_iff; force)+

definition new_ids_of :: "new_claim \<Rightarrow> object_id list" where
  "new_ids_of new = nc_id new # map nv_id (nc_validations new)"

lemma check_proposal_Inr:
  assumes "check_proposal cx ids new acc r = Inr (acc', r')"
  obtains h where "r' = r" "claim_content_hash (cx_host cx) (nc_content new) = Inr h"
    "proposal_ok cx (r_state r) (bs_set ids) new"
    "h \<notin> bs_set (ba_hashes acc)" "bs_set (ba_hashes acc') = insert h (bs_set (ba_hashes acc))"
    "distinct (new_ids_of new)" "set (new_ids_of new) \<inter> bs_set (ba_ids acc) = {}"
    "bs_set (ba_ids acc') = bs_set (ba_ids acc) \<union> set (new_ids_of new)"
    "ba_existing acc' = [] \<longleftrightarrow> ba_existing acc = [] \<and> bm_get (st_identities (r_state r)) (OK_Claim, h) = None"
proof -
  from assms obtain r1 r2 r3 h vids r4 r5 where
    1: "check_fields cx (nc_content new) r = Inr ((), r1)"
    and 2: "check_parties cx (nc_content new) r1 = Inr ((), r2)"
    and 3: "forR (check_scope cx) (bm_keys (cc_scopes (nc_content new))) r2 = Inr ((), r3)"
    and h: "claim_content_hash (cx_host cx) (nc_content new) = Inr h"
    and hs: "h \<notin> bs_set (ba_hashes acc)" and nid: "nc_id new \<notin> bs_set (ba_ids acc)"
    and 4: "allocate_validations (nc_validations new) (bs_insert (nc_id new) (ba_ids acc)) r3 = Inr (vids, r4)"
    and len: "length (cc_requirements (nc_content new)) = length (nc_validations new)"
    and 5: "check_requirements cx new (cc_requirements (nc_content new)) bm_empty False r4 = Inr ((), r5)"
    and 6: "forR (check_relation ids (nc_id new)) (bm_keys (cc_relations (nc_content new))) r5 = Inr ((), r')"
    and acc': "acc' = \<lparr>ba_ids = vids, ba_hashes = bs_insert h (ba_hashes acc),
        ba_existing = (case bm_get (st_identities (r_state r3)) (OK_Claim, h) of
           None \<Rightarrow> ba_existing acc | Some i \<Rightarrow> ba_existing acc @ [i])\<rparr>"
    unfolding check_proposal_def Let_def by (auto simp: bs_contains_iff)
  have same: "r1 = r" "r2 = r" "r3 = r" "r4 = r" "r5 = r" "r' = r"
    using check_fields_Inr [OF 1] check_parties_Inr [OF 2] check_scopes_Inr [OF 3]
      allocate_validations_Inr [OF 4] check_requirements_Inr [OF 5] check_relations_Inr [OF 6] by auto
  have "proposal_ok cx (r_state r) (bs_set ids) new"
    using check_fields_Inr [OF 1] check_parties_Inr [OF 2] check_requirements_Inr [OF 5]
      check_relations_Inr [OF 6] len same by (simp add: proposal_ok_def requirements_ok_def)
  moreover have "distinct (new_ids_of new)" "set (new_ids_of new) \<inter> bs_set (ba_ids acc) = {}"
    "bs_set (ba_ids acc') = bs_set (ba_ids acc) \<union> set (new_ids_of new)"
    using allocate_validations_Inr [OF 4] nid acc' by (auto simp: new_ids_of_def)
  ultimately show thesis
    using that [of h] h hs acc' same by (simp split: option.splits)
qed

section \<open>Admitted batches\<close>

definition claim_hash :: "ctx \<Rightarrow> new_claim \<Rightarrow> content_hash" where
  "claim_hash cx new = (case claim_content_hash (cx_host cx) (nc_content new) of Inr h \<Rightarrow> h | Inl _ \<Rightarrow> 0)"

definition validation_hash :: "ctx \<Rightarrow> new_validation \<Rightarrow> content_hash" where
  "validation_hash cx v = (case validation_content_hash (cx_host cx) (nv_content v) of Inr h \<Rightarrow> h | Inl _ \<Rightarrow> 0)"

definition hashable :: "ctx \<Rightarrow> new_claim \<Rightarrow> bool" where
  "hashable cx new \<longleftrightarrow> claim_content_hash (cx_host cx) (nc_content new) = Inr (claim_hash cx new)
     \<and> (\<forall>v \<in> set (nc_validations new).
          validation_content_hash (cx_host cx) (nv_content v) = Inr (validation_hash cx v))"

definition batch_ok :: "ctx \<Rightarrow> state \<Rightarrow> new_claim list \<Rightarrow> bool" where
  "batch_ok cx s claims \<longleftrightarrow>
     (\<forall>new \<in> set claims. proposal_ok cx s (set (map nc_id claims)) new \<and> hashable cx new
        \<and> bm_get (st_identities s) (OK_Claim, claim_hash cx new) = None)
     \<and> distinct (concat (map new_ids_of claims))
     \<and> (\<forall>i \<in> set (concat (map new_ids_of claims)). free_id s i)
     \<and> distinct (map (claim_hash cx) claims)"

lemma check_batch_Inr:
  assumes "check_batch cx ids claims acc r = Inr (acc', r')"
  shows "r' = r \<and> (\<forall>new \<in> set claims. proposal_ok cx (r_state r) (bs_set ids) new
      \<and> claim_content_hash (cx_host cx) (nc_content new) = Inr (claim_hash cx new))
    \<and> distinct (map (claim_hash cx) claims) \<and> set (map (claim_hash cx) claims) \<inter> bs_set (ba_hashes acc) = {}
    \<and> distinct (concat (map new_ids_of claims))
    \<and> set (concat (map new_ids_of claims)) \<inter> bs_set (ba_ids acc) = {}
    \<and> bs_set (ba_ids acc') = bs_set (ba_ids acc) \<union> set (concat (map new_ids_of claims))
    \<and> (ba_existing acc' = [] \<longrightarrow> ba_existing acc = [] \<and>
        (\<forall>new \<in> set claims. bm_get (st_identities (r_state r)) (OK_Claim, claim_hash cx new) = None))"
  using assms
proof (induction claims arbitrary: acc r)
  case (Cons new claims)
  from Cons.prems obtain acc1 r1 where 1: "check_proposal cx ids new acc r = Inr (acc1, r1)"
    and 2: "check_batch cx ids claims acc1 r1 = Inr (acc', r')" by auto
  from 1 obtain h where *: "r1 = r" "claim_content_hash (cx_host cx) (nc_content new) = Inr h"
    "proposal_ok cx (r_state r) (bs_set ids) new"
    "h \<notin> bs_set (ba_hashes acc)" "bs_set (ba_hashes acc1) = insert h (bs_set (ba_hashes acc))"
    "distinct (new_ids_of new)" "set (new_ids_of new) \<inter> bs_set (ba_ids acc) = {}"
    "bs_set (ba_ids acc1) = bs_set (ba_ids acc) \<union> set (new_ids_of new)"
    "ba_existing acc1 = [] \<longleftrightarrow> ba_existing acc = [] \<and> bm_get (st_identities (r_state r)) (OK_Claim, h) = None"
    by (rule check_proposal_Inr)
  have h: "claim_hash cx new = h" using *(2) by (simp add: claim_hash_def)
  show ?case using Cons.IH [OF 2] * h by auto
qed auto

section \<open>What the batch writes\<close>

definition validation_row :: "ctx \<Rightarrow> new_validation \<Rightarrow> validation" where
  "validation_row cx v = stored_new (nv_content v) (validation_hash cx v)
     \<lparr>vl_created = cx_sequence cx, vl_latest_epoch = 0\<rparr>"

definition claim_row :: "ctx \<Rightarrow> new_claim \<Rightarrow> claim" where
  "claim_row cx new = stored_new (nc_content new) (claim_hash cx new) (initial_lifecycle (cx_sequence cx))"

definition write_validation :: "ctx \<Rightarrow> new_validation \<Rightarrow> state \<Rightarrow> state" where
  "write_validation cx v s = put_identity OK_Validation (validation_hash cx v) (nv_id v)
     (put_validation (nv_id v) (validation_row cx v) s)"

definition write_claim :: "ctx \<Rightarrow> new_claim \<Rightarrow> state \<Rightarrow> state" where
  "write_claim cx new s = put_identity OK_Claim (claim_hash cx new) (nc_id new)
     (put_claim (nc_id new) (claim_row cx new) (fold (write_validation cx) (nc_validations new) s))"

definition write_batch :: "ctx \<Rightarrow> new_claim list \<Rightarrow> state \<Rightarrow> state" where
  "write_batch cx claims s = fold (write_claim cx) claims s"

lemma insert_validation_Inr:
  "insert_validation cx v r = Inr (u, r') \<longleftrightarrow>
     validation_content_hash (cx_host cx) (nv_content v) = Inr (validation_hash cx v)
     \<and> r' = r\<lparr>r_state := write_validation cx v (r_state r)\<rparr>"
  by (cases "validation_content_hash (cx_host cx) (nv_content v)")
    (auto simp: insert_validation_def validation_hash_def write_validation_def validation_row_def)

lemma insert_validations_Inr:
  assumes "forR (insert_validation cx) vs r = Inr (u, r')"
  shows "r_state r' = fold (write_validation cx) vs (r_state r) \<and> r_deltas r' = r_deltas r
    \<and> (\<forall>v \<in> set vs. validation_content_hash (cx_host cx) (nv_content v) = Inr (validation_hash cx v))"
  using assms
proof (induction vs arbitrary: r)
  case (Cons v vs)
  from Cons.prems have "validation_content_hash (cx_host cx) (nv_content v) = Inr (validation_hash cx v)"
    and "forR (insert_validation cx) vs (r\<lparr>r_state := write_validation cx v (r_state r)\<rparr>) = Inr (u, r')"
    by (auto simp: insert_validation_Inr)
  with Cons.IH show ?case by fastforce
qed auto

lemma insert_claim_Inr:
  assumes "insert_claim cx new r = Inr (u, r')"
  shows "r_state r' = write_claim cx new (r_state r) \<and> hashable cx new
    \<and> r_deltas r' = r_deltas (push_delta cx (Some (nc_id new)) LA_Generated (FactStatus None Generated None)
        (r\<lparr>r_state := write_claim cx new (r_state r)\<rparr>))"
proof -
  from assms obtain h r1 where h: "claim_content_hash (cx_host cx) (nc_content new) = Inr h"
    and vs: "forR (insert_validation cx) (nc_validations new) r = Inr ((), r1)"
    and rest: "stepsR
       [modifyR (put_claim (nc_id new) (stored_new (nc_content new) h (initial_lifecycle (cx_sequence cx)))),
        modifyR (put_identity OK_Claim h (nc_id new)),
        emit cx (Some (nc_id new)) LA_Generated (FactStatus None Generated None),
        (case cc_deadline (nc_content new) of
           None \<Rightarrow> ret ()
         | Some d \<Rightarrow> effectR (ScheduleDeadline (nc_id new) d))] r1 = Inr (u, r')"
    unfolding insert_claim_def by auto
  have ch: "claim_hash cx new = h" using h by (simp add: claim_hash_def)
  show ?thesis
    using rest insert_validations_Inr [OF vs] h
    by (auto simp: ch write_claim_def claim_row_def hashable_def push_delta_def split: option.splits)
qed

lemma insert_claims_Inr:
  assumes "forR (insert_claim cx) claims r = Inr (u, r')"
  shows "r_state r' = write_batch cx claims (r_state r) \<and> (\<forall>new \<in> set claims. hashable cx new)"
  using assms
proof (induction claims arbitrary: r)
  case (Cons new claims)
  from Cons.prems obtain r1 where "insert_claim cx new r = Inr ((), r1)"
    and "forR (insert_claim cx) claims r1 = Inr (u, r')" by auto
  with Cons.IH [of r1] show ?case by (auto simp: write_batch_def dest: insert_claim_Inr)
qed (simp add: write_batch_def)

lemma acyclicR_Inr:
  "acyclicR cx r = Inr (u, r') \<longleftrightarrow>
     check_acyclic (r_state r) lineage_kinds (lim_max_graph_visits (cx_limits cx)) = Inr () \<and> r' = r"
  by (auto simp: acyclicR_def split: sum.splits)

lemma generate_cases:
  assumes "generate cx claims r = Inr (res, r')"
  obtains (existing) ids where "res = ClaimsExisting ids" "r' = r"
  | (generated) r1 where "res = ClaimsGenerated (map nc_id claims)" "claims \<noteq> []"
      "batch_ok cx (r_state r) claims" "forR (insert_claim cx) claims r = Inr ((), r')"
      "r_state r' = write_batch cx claims (r_state r)"
      "check_acyclic (r_state r') lineage_kinds (lim_max_graph_visits (cx_limits cx)) = Inr ()"
proof -
  let ?acc = "\<lparr>ba_ids = bm_empty, ba_hashes = bm_empty, ba_existing = []\<rparr>"
  from assms obtain acc r1 where ne: "claims \<noteq> []"
    and chk: "check_batch cx (bs_of_list (map nc_id claims)) claims ?acc r = Inr (acc, r1)"
    and rest: "(if ba_existing acc \<noteq> [] then
       (if length (ba_existing acc) = length claims then ret (ClaimsExisting (ba_existing acc))
        else fail (Refuse EC_PartialDuplicateBatch))
     else
       with_state (\<lambda>s.
       thenR (stepsR
         [refuse_if (list_ex (\<lambda>i. \<not> free_id s i) (bm_keys (ba_ids acc))) EC_ObjectIdConflict,
          forR (insert_claim cx) claims,
          acyclicR cx])
       (ret (ClaimsGenerated (map nc_id claims))))) r1 = Inr (res, r')"
    unfolding generate_def by auto
  note facts = check_batch_Inr [OF chk]
  then have r1: "r1 = r" by blast
  show thesis
  proof (cases "ba_existing acc = []")
    case False
    with rest r1 existing show thesis by (auto simp: if_Inr)
  next
    case True
    with rest r1 have free: "\<forall>i \<in> bs_set (ba_ids acc). free_id (r_state r) i"
      and ins: "forR (insert_claim cx) claims r = Inr ((), r')"
      and acyc: "check_acyclic (r_state r') lineage_kinds (lim_max_graph_visits (cx_limits cx)) = Inr ()"
      and res: "res = ClaimsGenerated (map nc_id claims)"
      by (auto simp: acyclicR_Inr list_ex_iff bs_set_def)
    have "batch_ok cx (r_state r) claims"
      using facts True free insert_claims_Inr [OF ins] by (auto simp: batch_ok_def)
    then show thesis
      using generated res ne ins acyc insert_claims_Inr [OF ins] by blast
  qed
qed

section \<open>Reading the written batch\<close>

abbreviation batch_validations :: "new_claim list \<Rightarrow> new_validation list" where
  "batch_validations claims \<equiv> concat (map nc_validations claims)"

lemma write_validations_frame [simp]:
  "st_ledger (fold (write_validation cx) vs s) = st_ledger s"
  "st_sequence (fold (write_validation cx) vs s) = st_sequence s"
  "st_claims (fold (write_validation cx) vs s) = st_claims s"
  "st_artifacts (fold (write_validation cx) vs s) = st_artifacts s"
  "st_testaments (fold (write_validation cx) vs s) = st_testaments s"
  "st_evidence_sets (fold (write_validation cx) vs s) = st_evidence_sets s"
  "st_runs (fold (write_validation cx) vs s) = st_runs s"
  "st_monitors (fold (write_validation cx) vs s) = st_monitors s"
  "st_epochs (fold (write_validation cx) vs s) = st_epochs s"
  "st_receipts (fold (write_validation cx) vs s) = st_receipts s"
  by (induction vs arbitrary: s) (simp_all add: write_validation_def)

lemma write_batch_frame [simp]:
  "st_ledger (write_batch cx cs s) = st_ledger s"
  "st_sequence (write_batch cx cs s) = st_sequence s"
  "st_artifacts (write_batch cx cs s) = st_artifacts s"
  "st_testaments (write_batch cx cs s) = st_testaments s"
  "st_evidence_sets (write_batch cx cs s) = st_evidence_sets s"
  "st_runs (write_batch cx cs s) = st_runs s"
  "st_monitors (write_batch cx cs s) = st_monitors s"
  "st_epochs (write_batch cx cs s) = st_epochs s"
  "st_receipts (write_batch cx cs s) = st_receipts s"
  unfolding write_batch_def by (induction cs arbitrary: s) (simp_all add: write_claim_def)

lemma write_validations_get:
  assumes "distinct (map nv_id vs)"
  shows "bm_get (st_validations (fold (write_validation cx) vs s)) i = Some v \<longleftrightarrow>
    (\<exists>n \<in> set vs. nv_id n = i \<and> v = validation_row cx n)
    \<or> (i \<notin> nv_id ` set vs \<and> bm_get (st_validations s) i = Some v)"
  using assms
proof (induction vs arbitrary: s)
  case (Cons n vs)
  then show ?case by (auto simp: write_validation_def)
qed simp

lemma write_batch_claims:
  assumes "distinct (map nc_id cs)"
  shows "claim_at (write_batch cx cs s) i = Some c \<longleftrightarrow>
    (\<exists>n \<in> set cs. nc_id n = i \<and> c = claim_row cx n) \<or> (i \<notin> nc_id ` set cs \<and> claim_at s i = Some c)"
  using assms
proof (induction cs arbitrary: s)
  case (Cons n cs)
  have "write_batch cx (n # cs) s = write_batch cx cs (write_claim cx n s)" by (simp add: write_batch_def)
  with Cons show ?case by (auto simp: write_claim_def)
qed (simp add: write_batch_def)

lemma write_batch_validations:
  assumes "distinct (map nv_id (batch_validations cs))"
  shows "bm_get (st_validations (write_batch cx cs s)) i = Some v \<longleftrightarrow>
    (\<exists>n \<in> set (batch_validations cs). nv_id n = i \<and> v = validation_row cx n)
    \<or> (i \<notin> nv_id ` set (batch_validations cs) \<and> bm_get (st_validations s) i = Some v)"
  using assms
proof (induction cs arbitrary: s)
  case (Cons n cs)
  have "write_batch cx (n # cs) s = write_batch cx cs (write_claim cx n s)" by (simp add: write_batch_def)
  moreover have "distinct (map nv_id (nc_validations n))" using Cons.prems by simp
  ultimately show ?case
    using Cons by (simp add: write_claim_def write_validations_get) blast
qed (simp add: write_batch_def)

lemma write_validations_identities:
  "k \<noteq> OK_Validation \<Longrightarrow>
     bm_get (st_identities (fold (write_validation cx) vs s)) (k, h) = bm_get (st_identities s) (k, h)"
  by (induction vs arbitrary: s) (simp_all add: write_validation_def)

lemma write_batch_identities_frame:
  "k \<noteq> OK_Validation \<Longrightarrow> k \<noteq> OK_Claim \<Longrightarrow>
     bm_get (st_identities (write_batch cx cs s)) (k, h) = bm_get (st_identities s) (k, h)"
  unfolding write_batch_def
  by (induction cs arbitrary: s) (simp_all add: write_claim_def write_validations_identities)

lemma write_batch_identities_claim:
  assumes "distinct (map (claim_hash cx) cs)"
  shows "bm_get (st_identities (write_batch cx cs s)) (OK_Claim, h) = Some i \<longleftrightarrow>
    (\<exists>n \<in> set cs. claim_hash cx n = h \<and> nc_id n = i)
    \<or> (h \<notin> claim_hash cx ` set cs \<and> bm_get (st_identities s) (OK_Claim, h) = Some i)"
  using assms
proof (induction cs arbitrary: s)
  case (Cons n cs)
  have "write_batch cx (n # cs) s = write_batch cx cs (write_claim cx n s)" by (simp add: write_batch_def)
  with Cons show ?case
    by (simp add: write_claim_def write_validations_identities) (auto split: if_splits)
qed (simp add: write_batch_def)

lemma write_validations_identity:
  assumes "bm_get (st_identities (fold (write_validation cx) vs s)) (OK_Validation, h) = Some i"
  shows "(\<exists>n \<in> set vs. validation_hash cx n = h \<and> nv_id n = i)
    \<or> bm_get (st_identities s) (OK_Validation, h) = Some i"
  using assms
proof (induction vs arbitrary: s)
  case (Cons n vs)
  from Cons.prems Cons.IH [of "write_validation cx n s"] show ?case
    by (auto simp: write_validation_def split: if_splits)
qed simp

lemma write_batch_identity_validation:
  assumes "bm_get (st_identities (write_batch cx cs s)) (OK_Validation, h) = Some i"
  shows "(\<exists>n \<in> set (batch_validations cs). validation_hash cx n = h \<and> nv_id n = i)
    \<or> bm_get (st_identities s) (OK_Validation, h) = Some i"
  using assms
proof (induction cs arbitrary: s)
  case (Cons n cs)
  have "write_batch cx (n # cs) s = write_batch cx cs (write_claim cx n s)" by (simp add: write_batch_def)
  with Cons.prems Cons.IH [of "write_claim cx n s"] show ?case
    by (auto simp: write_claim_def dest: write_validations_identity)
qed (simp add: write_batch_def)

subsection \<open>Consequences for an admitted batch\<close>

lemma batch_ids_distinct:
  assumes "distinct (concat (map new_ids_of claims))"
  shows "distinct (map nc_id claims)" "distinct (map nv_id (batch_validations claims))"
    "nc_id ` set claims \<inter> nv_id ` set (batch_validations claims) = {}"
  using assms
proof (induction claims)
  case (Cons n cs)
  have ids: "nc_id ` set cs \<subseteq> set (concat (map new_ids_of cs))"
    "nv_id ` set (batch_validations cs) \<subseteq> set (concat (map new_ids_of cs))"
    by (auto simp: new_ids_of_def)
  { case 1 from 1 Cons.IH(1) ids show ?case by (auto simp: new_ids_of_def) }
  { case 2
    then have "set (new_ids_of n) \<inter> set (concat (map new_ids_of cs)) = {}" "distinct (new_ids_of n)" by auto
    moreover have "set (map nv_id (nc_validations n)) \<subseteq> set (new_ids_of n)"
      "set (map nv_id (batch_validations cs)) \<subseteq> set (concat (map new_ids_of cs))"
      using ids(2) by (auto simp: new_ids_of_def)
    ultimately have "set (map nv_id (nc_validations n)) \<inter> set (map nv_id (batch_validations cs)) = {}"
      by blast
    moreover have "distinct (map nv_id (nc_validations n))" using 2 by (simp add: new_ids_of_def)
    ultimately show ?case using 2 Cons.IH(2) by (simp only: list.map concat.simps map_append distinct_append) }
  { case 3 from 3 Cons.IH(3) ids show ?case by (auto simp: new_ids_of_def) }
qed auto

text \<open>In an admitted proposal the requirements and the validations correspond one to one.\<close>

lemma requirement_of_validation:
  assumes "requirements_ok cx s new" "distinct (map nv_id (nc_validations new))" "v \<in> set (nc_validations new)"
  shows "\<exists>q \<in> set (cc_requirements (nc_content new)). nv_id v = rq_id q \<and> validation_ok cx s new q (nv_content v)"
proof -
  let ?qs = "cc_requirements (nc_content new)" and ?vs = "nc_validations new"
  have sub: "rq_id ` set ?qs \<subseteq> nv_id ` set ?vs"
    using assms(1) by (force simp: requirements_ok_def)
  have "card (rq_id ` set ?qs) = length ?qs" "card (nv_id ` set ?vs) = length ?vs"
    using assms(1,2) distinct_card [of "map rq_id ?qs"] distinct_card [of "map nv_id ?vs"]
    by (auto simp: requirements_ok_def)
  then have "rq_id ` set ?qs = nv_id ` set ?vs"
    using assms(1) sub by (intro card_subset_eq) (auto simp: requirements_ok_def)
  then obtain q where q: "q \<in> set ?qs" "rq_id q = nv_id v" using assms(3) by (metis imageE imageI)
  then obtain v' where v': "v' \<in> set ?vs" "nv_id v' = nv_id v" "validation_ok cx s new q (nv_content v')"
    using assms(1) by (fastforce simp: requirements_ok_def)
  then have "v' = v" using assms(2,3) by (auto simp: distinct_map dest: inj_onD)
  with q v' show ?thesis by metis
qed

lemma batch_validation_owner:
  assumes "batch_ok cx s claims" "v \<in> set (batch_validations claims)"
  obtains new q where "new \<in> set claims" "v \<in> set (nc_validations new)"
    "q \<in> set (cc_requirements (nc_content new))" "nv_id v = rq_id q" "validation_ok cx s new q (nv_content v)"
proof -
  from assms(2) obtain new where new: "new \<in> set claims" "v \<in> set (nc_validations new)" by auto
  have "distinct (new_ids_of new)"
    using assms(1) new(1) by (auto simp: batch_ok_def distinct_concat_iff)
  then have "distinct (map nv_id (nc_validations new))" by (simp add: new_ids_of_def)
  moreover have "requirements_ok cx s new"
    using assms(1) new(1) by (auto simp: batch_ok_def proposal_ok_def)
  ultimately show thesis
    using that new requirement_of_validation by blast
qed

end
