(* ===== verification/Steps.thy ===== *)
theory Steps
  imports GenerateFacts
begin

text \<open>
  The abstract ledger machine.  \<open>micro\<close> is a step relation on reducers with one rule per
  guarded write of the source: its premises are the facts the code has checked when it
  writes, its conclusion is the written draft.  The theory Refinement shows that every command and the
  propagation are sequences of these steps; invariants are then proved by rule induction.
\<close>

section \<open>The claim state machine\<close>

primrec edge_from :: "claim_status \<Rightarrow> claim_status list" where
  "edge_from Generated = [Posted, PostFailed]"
| "edge_from Posted = [Received, PostFailed, ReceiptFailed]"
| "edge_from Received = [Progressed, TestamentGenerated, TestamentGenerationFailed]"
| "edge_from Progressed = [TestamentGenerated, TestamentGenerationFailed]"
| "edge_from TestamentGenerated = [TestamentAcknowledged]"
| "edge_from TestamentAcknowledged = [Validating]"
| "edge_from Validating = [Satisfied, ValidationFailed, ValidationErrored, ValidationIncomplete]"
| "edge_from Satisfied = []"
| "edge_from PostFailed = []"
| "edge_from ReceiptFailed = []"
| "edge_from TestamentGenerationFailed = []"
| "edge_from ValidationIncomplete = []"
| "edge_from ValidationFailed = []"
| "edge_from ValidationErrored = []"
| "edge_from Cancelled = []"
| "edge_from Expired = []"
| "edge_from Revoked = []"
| "edge_from Superseded = []"
| "edge_from DependencyFailed = []"
| "edge_from Deadlocked = []"

definition lifecycle_edge :: "claim_status \<Rightarrow> claim_status \<Rightarrow> bool" where
  "lifecycle_edge a b \<longleftrightarrow> b \<in> set (edge_from a) \<or> (\<not> is_terminal a \<and> control_fenced b)"

lemma lifecycle_edge_active: "lifecycle_edge a b \<Longrightarrow> \<not> is_terminal a"
  by (cases a) (auto simp: lifecycle_edge_def)

section \<open>Row updates\<close>

definition with_receipt :: "receipt \<Rightarrow> claim \<Rightarrow> claim" where
  "with_receipt rc c = with_lifecycle c ((so_lifecycle c)\<lparr>cl_receipt := Some rc\<rparr>)"

definition with_set :: "evidence_set_id \<Rightarrow> claim \<Rightarrow> claim" where
  "with_set e c = with_lifecycle c ((so_lifecycle c)\<lparr>cl_evidence_set := Some e\<rparr>)"

definition completed :: "claim \<Rightarrow> claim" where
  "completed c = with_lifecycle c ((so_lifecycle c)\<lparr>cl_local_complete := True\<rparr>)"

definition released :: "claim \<Rightarrow> claim" where
  "released c = with_lifecycle c ((so_lifecycle c)\<lparr>cl_released := True\<rparr>)"

lemmas claim_update_defs = with_receipt_def with_set_def completed_def released_def close_claim_def

lemma claim_update_content [simp]:
  "so_content (with_receipt rc c) = so_content c" "so_content_hash (with_receipt rc c) = so_content_hash c"
  "so_content (with_set e c) = so_content c" "so_content_hash (with_set e c) = so_content_hash c"
  "so_content (completed c) = so_content c" "so_content_hash (completed c) = so_content_hash c"
  "so_content (released c) = so_content c" "so_content_hash (released c) = so_content_hash c"
  "so_content (close_claim t tc c) = so_content c" "so_content_hash (close_claim t tc c) = so_content_hash c"
  by (simp_all add: claim_update_defs)

lemma so_lifecycle_update:
  "so_lifecycle (with_receipt rc c) = (so_lifecycle c)\<lparr>cl_receipt := Some rc\<rparr>"
  "so_lifecycle (with_set e c) = (so_lifecycle c)\<lparr>cl_evidence_set := Some e\<rparr>"
  "so_lifecycle (completed c) = (so_lifecycle c)\<lparr>cl_local_complete := True\<rparr>"
  "so_lifecycle (released c) = (so_lifecycle c)\<lparr>cl_released := True\<rparr>"
  "so_lifecycle (close_claim t tc c) =
     (so_lifecycle c)\<lparr>cl_evidence_set := Some (tc_evidence_set tc), cl_testament := Some t\<rparr>"
  by (simp_all add: claim_update_defs)

definition acknowledged :: "ctx \<Rightarrow> testament \<Rightarrow> testament" where
  "acknowledged cx t = with_lifecycle t
     \<lparr>tl_created = tl_created (so_lifecycle t), tl_acknowledged = Some (cx_sequence cx)\<rparr>"

definition with_epoch :: "u64 \<Rightarrow> validation \<Rightarrow> validation" where
  "with_epoch e v = with_lifecycle v \<lparr>vl_created = vl_created (so_lifecycle v), vl_latest_epoch = e\<rparr>"

lemma row_update_content [simp]:
  "so_content (acknowledged cx t) = so_content t" "so_content_hash (acknowledged cx t) = so_content_hash t"
  "so_content (with_epoch e v) = so_content v" "so_content_hash (with_epoch e v) = so_content_hash v"
  "vl_latest_epoch (so_lifecycle (with_epoch e v)) = e"
  "vl_created (so_lifecycle (with_epoch e v)) = vl_created (so_lifecycle v)"
  "tl_created (so_lifecycle (acknowledged cx t)) = tl_created (so_lifecycle t)"
  "tl_acknowledged (so_lifecycle (acknowledged cx t)) = Some (cx_sequence cx)"
  by (simp_all add: acknowledged_def with_epoch_def)

text \<open>The run after an accepted verdict.\<close>

definition next_run :: "verdict_record \<Rightarrow> validation_run \<Rightarrow> validation \<Rightarrow> validation_run" where
  "next_run verdict run v =
     (let run1 = run\<lparr>run_attempts := run_attempts run @ [verdict]\<rparr> in
      case next_handler (so_content v) (run_quality_phase run) (unat (run_handler_index run) + 1) (vr_value verdict) of
        None \<Rightarrow> run1\<lparr>run_final_verdict := Some (vr_value verdict)\<rparr>
      | Some n \<Rightarrow> run1\<lparr>run_handler_index := of_nat n,
          run_quality_phase := (hd_agentic (vc_handlers (so_content v) ! n) \<and> vc_quality_bar (so_content v) \<noteq> None)\<rparr>)"

definition next_index_fits :: "verdict_record \<Rightarrow> validation_run \<Rightarrow> validation \<Rightarrow> bool" where
  "next_index_fits verdict run v \<longleftrightarrow> (\<forall>n. next_handler (so_content v) (run_quality_phase run)
     (unat (run_handler_index run) + 1) (vr_value verdict) = Some n \<longrightarrow> n < 2 ^ 32)"

lemma next_run_frame [simp]:
  "run_id (next_run verdict run v) = run_id run" "run_claim (next_run verdict run v) = run_claim run"
  "run_evaluator (next_run verdict run v) = run_evaluator run"
  "run_manifest (next_run verdict run v) = run_manifest run"
  "run_attempts (next_run verdict run v) = run_attempts run @ [verdict]"
  by (simp_all add: next_run_def Let_def split: option.splits)

section \<open>Guards\<close>

fun is_status_fact :: "delta_fact \<Rightarrow> bool" where
  "is_status_fact (FactStatus _ _ _) = True"
| "is_status_fact _ = False"

definition failed_at :: "state \<Rightarrow> claim_id \<Rightarrow> bool" where
  "failed_at s d \<longleftrightarrow> (\<exists>t. claim_at s d = Some t \<and> is_terminal (status_of t) \<and> status_of t \<noteq> Satisfied)"

definition status_guard :: "state \<Rightarrow> claim_id \<Rightarrow> claim \<Rightarrow> claim_status \<Rightarrow> claim_id option \<Rightarrow> bool" where
  "status_guard s i c st w \<longleftrightarrow>
     lifecycle_edge (status_of c) st \<and> st \<noteq> Satisfied \<and> st \<noteq> Received
     \<and> (st = DependencyFailed \<longrightarrow> (\<exists>d. w = Some d \<and> d \<in> set (dependencies (so_content c) RK_DependsOn) \<and> failed_at s d))
     \<and> (st = TestamentGenerated \<or> st = TestamentGenerationFailed \<longrightarrow> cl_testament (so_lifecycle c) \<noteq> None)
     \<and> (st = TestamentAcknowledged \<longrightarrow> (\<exists>t x. cl_testament (so_lifecycle c) = Some t
          \<and> bm_get (st_testaments s) t = Some x \<and> tl_acknowledged (so_lifecycle x) \<noteq> None))
     \<and> (st = Validating \<longrightarrow> phase_complete s i PH_Increment)
     \<and> (st = ValidationFailed \<longrightarrow> aggregate s i = Some VV_Fail)
     \<and> (st = ValidationErrored \<longrightarrow> aggregate s i = Some VV_Error)
     \<and> (st = ValidationIncomplete \<longrightarrow> aggregate s i = Some VV_Incomplete)"

definition schedule_status :: "validation_phase \<Rightarrow> claim_status \<Rightarrow> bool" where
  "schedule_status phase st = (case phase of
      PH_Admission \<Rightarrow> st = Posted
    | PH_Increment \<Rightarrow> st \<in> {Received, Progressed, TestamentGenerated, TestamentAcknowledged}
    | PH_WholeWork \<Rightarrow> st = Validating)"

definition verdict_guard ::
    "ctx \<Rightarrow> state \<Rightarrow> verdict_record \<Rightarrow> validation_run \<Rightarrow> validation \<Rightarrow> claim \<Rightarrow> bool" where
  "verdict_guard cx s verdict run v c \<longleftrightarrow>
     vr_evaluator verdict = principal cx \<and> run_evaluator run = principal cx
     \<and> \<not> control_fenced (status_of c) \<and> run_final_verdict run = None
     \<and> \<not> (is_terminal (status_of c) \<and> vc_mode (so_content v) = MO_Required)
     \<and> verdict_state_ok (ri_phase (run_id run)) (status_of c) (vc_mode (so_content v))
     \<and> nth_opt (vc_handlers (so_content v)) (unat (run_handler_index run)) = Some (vr_handler verdict)
     \<and> unat (vr_attempt verdict) = length (run_attempts run) \<and> vr_manifest verdict = run_manifest run
     \<and> (\<forall>a \<in> set (vr_evidence verdict). artifact_verified s a)"

definition working :: "claim \<Rightarrow> bool" where
  "working c \<longleftrightarrow> status_of c = Received \<or> status_of c = Progressed"

section \<open>Steps\<close>

inductive micro :: "ctx \<Rightarrow> reducer \<Rightarrow> reducer \<Rightarrow> bool" for cx where
  m_emit: "\<not> is_status_fact f \<Longrightarrow> ordinal_free r \<Longrightarrow> micro cx r (push_delta cx c a f r)"
| m_effect: "micro cx r (r\<lparr>r_effects := r_effects r @ [e]\<rparr>)"
| m_generate:
    "batch_ok cx (r_state r) claims \<Longrightarrow> forR (insert_claim cx) claims r = Inr ((), r')
     \<Longrightarrow> r_state r' = write_batch cx claims (r_state r)
     \<Longrightarrow> check_acyclic (r_state r') lineage_kinds (lim_max_graph_visits (cx_limits cx)) = Inr ()
     \<Longrightarrow> micro cx r r'"
| m_status:
    "claim_at (r_state r) i = Some c \<Longrightarrow> status_guard (r_state r) i c st w \<Longrightarrow> revision_free c
     \<Longrightarrow> ordinal_free r \<Longrightarrow> micro cx r (write_status cx i st w c r)"
| m_satisfy:
    "satisfy_all cx (bm_keys (tracked_fixpoint (r_state r))) False r = Inr (changed, r') \<Longrightarrow> micro cx r r'"
| m_acquire:
    "claim_at (r_state r) i = Some c \<Longrightarrow> status_of c = Posted \<Longrightarrow> subject (so_content c) = Some (principal cx)
     \<Longrightarrow> phase_passed (r_state r) i PH_Admission
     \<Longrightarrow> \<forall>d \<in> set (dependencies (so_content c) RK_DependsOn).
           \<exists>t. claim_at (r_state r) d = Some t \<and> status_of t = Satisfied
     \<Longrightarrow> fence_epoch (rc_fence rc) = 1 \<Longrightarrow> fence_receipt (rc_fence rc) \<noteq> 0
     \<Longrightarrow> \<not> receipt_allocated (r_state r) (fence_receipt (rc_fence rc))
     \<Longrightarrow> rc_holder rc = principal cx \<Longrightarrow> revision_free c \<Longrightarrow> ordinal_free r
     \<Longrightarrow> micro cx r (write_status cx i Received None (with_receipt rc c)
           (r\<lparr>r_state := put_claim i (with_receipt rc c) (r_state r)\<rparr>))"
| m_adopt:
    "au_runtime (authority cx) \<Longrightarrow> claim_at (r_state r) i = Some c
     \<Longrightarrow> status_of c \<in> {Received, Progressed, TestamentGenerated, TestamentAcknowledged, Validating}
     \<Longrightarrow> cl_receipt (so_lifecycle c) = Some old
     \<Longrightarrow> unat (fence_epoch (rc_fence rc)) = unat (fence_epoch (rc_fence old)) + 1
     \<Longrightarrow> fence_receipt (rc_fence rc) \<noteq> 0 \<Longrightarrow> rc_holder rc \<noteq> 0
     \<Longrightarrow> \<not> receipt_allocated (r_state r) (fence_receipt (rc_fence rc))
     \<Longrightarrow> micro cx r (r\<lparr>r_state := put_claim i (with_receipt rc c)
           (refence_open_set c (rc_fence rc) (r_state r))\<rparr>)"
| m_open:
    "claim_at (r_state r) i = Some c \<Longrightarrow> working c \<Longrightarrow> cl_receipt (so_lifecycle c) = Some rc
     \<Longrightarrow> rc_holder rc = principal cx \<Longrightarrow> e \<noteq> 0 \<Longrightarrow> bm_get (st_evidence_sets (r_state r)) e = None
     \<Longrightarrow> cl_evidence_set (so_lifecycle c) = None
     \<Longrightarrow> micro cx r (r\<lparr>r_state := put_claim i (with_set e c)
           (put_set e (empty_set e i (rc_fence rc)) (r_state r))\<rparr>)"
| m_open_failure:
    "au_runtime (authority cx) \<Longrightarrow> claim_at (r_state r) i = Some c \<Longrightarrow> working c
     \<Longrightarrow> cl_receipt (so_lifecycle c) = Some rc \<Longrightarrow> bm_get (st_evidence_sets (r_state r)) e = None
     \<Longrightarrow> micro cx r (r\<lparr>r_state := put_set e (empty_set e i (rc_fence rc)) (r_state r)\<rparr>)"
| m_stage:
    "bm_get (st_evidence_sets (r_state r)) e = Some es \<Longrightarrow> \<not> es_closed es
     \<Longrightarrow> artifact_verified (r_state r) a \<Longrightarrow> a \<notin> set (es_artifacts es)
     \<Longrightarrow> micro cx r (r\<lparr>r_state := put_set e (es\<lparr>es_artifacts := es_artifacts es @ [a]\<rparr>) (r_state r)\<rparr>)"
| m_artifact:
    "artifact_content_hash (cx_host cx) (na_content (new :: new_artifact)) = Inr h
     \<Longrightarrow> bm_get (st_identities (r_state r)) (OK_Artifact, h) = None \<Longrightarrow> free_id (r_state r) (na_id new)
     \<Longrightarrow> check_artifact cx (na_content new) r = Inr ((), r)
     \<Longrightarrow> List.find (accepts_attestation h) (au_evidence (authority cx)) = Some att
     \<Longrightarrow> micro cx r (r\<lparr>r_state := put_identity OK_Artifact h (na_id new)
           (put_artifact (na_id new) (artifact_row cx (na_content new) h att) (r_state r))\<rparr>)"
| m_testament:
    "free_id (r_state r) t \<Longrightarrow> \<forall>a \<in> set (tc_artifacts content). artifact_verified (r_state r) a
     \<Longrightarrow> testament_content_hash (cx_host cx) content = Inr h
     \<Longrightarrow> bm_get (st_identities (r_state r)) (OK_Testament, h) = None
     \<Longrightarrow> bm_get (st_evidence_sets (r_state r)) (tc_evidence_set content) = Some es
     \<Longrightarrow> es_claim es = tc_claim content \<Longrightarrow> \<not> es_closed es \<Longrightarrow> es_artifacts es = tc_artifacts content
     \<Longrightarrow> claim_at (r_state r) (tc_claim content) = Some c \<Longrightarrow> working c
     \<Longrightarrow> map_option rc_fence (cl_receipt (so_lifecycle c)) = Some (tc_receipt content)
     \<Longrightarrow> tc_ledger content = st_ledger (r_state r)
     \<Longrightarrow> micro cx r (r\<lparr>r_state := testament_written cx t content h es c (r_state r)\<rparr>)"
| m_acknowledge:
    "au_runtime (authority cx) \<Longrightarrow> bm_get (st_testaments (r_state r)) t = Some x
     \<Longrightarrow> micro cx r (r\<lparr>r_state := put_testament t (acknowledged cx x) (r_state r)\<rparr>)"
| m_schedule:
    "bm_get (st_validations (r_state r)) i = Some v \<Longrightarrow> claim_at (r_state r) (vc_claim (so_content v)) = Some c
     \<Longrightarrow> schedule_status (vc_phase (so_content v)) (status_of c) \<Longrightarrow> \<not> cl_local_complete (so_lifecycle c)
     \<Longrightarrow> \<not> scheduled_for (r_state r) i target \<Longrightarrow> checked_add (vl_latest_epoch (so_lifecycle v)) 1 = Some epoch
     \<Longrightarrow> first_opt (vc_handlers (so_content v)) = Some first
     \<Longrightarrow> rid = ValidationRunId i target (vc_phase (so_content v)) epoch
     \<Longrightarrow> micro cx r (r\<lparr>r_state := put_validation i (with_epoch epoch v)
           (put_run rid (new_run v rid manifest first) (r_state r))\<rparr>)"
| m_receipt_pass:
    "bm_get (st_validations (r_state r)) i = Some v \<Longrightarrow> vc_kind (so_content v) = VK_Receipt
     \<Longrightarrow> claim_at (r_state r) (vc_claim (so_content v)) = Some c
     \<Longrightarrow> working c \<or> status_of c = TestamentAcknowledged \<Longrightarrow> \<not> cl_local_complete (so_lifecycle c)
     \<Longrightarrow> \<forall>k \<in> set (bm_keys (st_runs (r_state r))). \<not> (ri_validation k = i \<and> ri_target_hash k = target)
     \<Longrightarrow> checked_add (vl_latest_epoch (so_lifecycle v)) 1 = Some epoch
     \<Longrightarrow> rid = ValidationRunId i target PH_WholeWork epoch
     \<Longrightarrow> micro cx r (r\<lparr>r_state := put_validation i (with_epoch epoch v)
           (put_run rid (receipt_run (cx_host cx) (vc_claim (so_content v)) v rid manifest) (r_state r))\<rparr>)"
| m_verdict:
    "bm_get (st_runs (r_state r)) (vr_run verdict) = Some run
     \<Longrightarrow> bm_get (st_validations (r_state r)) (ri_validation (run_id run)) = Some v
     \<Longrightarrow> claim_at (r_state r) (run_claim run) = Some c
     \<Longrightarrow> verdict_guard cx (r_state r) verdict run v c \<Longrightarrow> next_index_fits verdict run v
     \<Longrightarrow> micro cx r (r\<lparr>r_state := put_run (run_id run) (next_run verdict run v) (r_state r)\<rparr>)"
| m_complete:
    "claim_at (r_state r) i = Some c \<Longrightarrow> status_of c = Validating \<Longrightarrow> aggregate (r_state r) i = Some VV_Pass
     \<Longrightarrow> \<not> cl_local_complete (so_lifecycle c)
     \<Longrightarrow> micro cx r (r\<lparr>r_state := put_claim i (completed c) (r_state r)\<rparr>)"
| m_release:
    "claim_at (r_state r) i = Some c \<Longrightarrow> is_terminal (status_of c) \<Longrightarrow> \<not> unreleased_child (r_state r) i
     \<Longrightarrow> micro cx r (r\<lparr>r_state := put_claim i (released c) (r_state r)\<rparr>)"
| m_monitor:
    "claim_at (r_state r) (mon_owner m) = Some c \<Longrightarrow> \<not> is_terminal (status_of c) \<Longrightarrow> i \<noteq> 0
     \<Longrightarrow> bm_get (st_monitors (r_state r)) i = None \<Longrightarrow> mon_id m = i
     \<Longrightarrow> \<forall>p \<in> set (bm_keys (mon_roots m)). claim_at (r_state r) (wp_claim p) \<noteq> None
     \<Longrightarrow> mon_released m = None \<Longrightarrow> mon_registered m = cx_sequence cx \<Longrightarrow> bm_keys (mon_roots m) \<noteq> []
     \<Longrightarrow> micro cx r (r\<lparr>r_state := put_monitor i m (r_state r)\<rparr>)"
| m_rebind:
    "au_runtime (authority cx) \<Longrightarrow> bm_get (st_monitors (r_state r)) i = Some m \<Longrightarrow> mon_released m = None
     \<Longrightarrow> claim_at (r_state r) successor = Some c
     \<Longrightarrow> predecessor \<in> set (dependencies (so_content c) RK_Supersedes)
     \<Longrightarrow> micro cx r (r\<lparr>r_state := put_monitor i (m\<lparr>mon_roots :=
           bs_of_list (map (rebind_predicate predecessor successor) (bm_keys (mon_roots m)))\<rparr>) (r_state r)\<rparr>)"
| m_release_monitor:
    "bm_get (st_monitors (r_state r)) i = Some m \<Longrightarrow> mon_released m = None
     \<Longrightarrow> claim_at (r_state r) (mon_owner m) = Some c
     \<Longrightarrow> cl_released (so_lifecycle c) \<or> (\<forall>p \<in> set (bm_keys (mon_roots m)). wait_holds (r_state r) p)
     \<Longrightarrow> micro cx r (r\<lparr>r_state := put_monitor i (m\<lparr>mon_released := Some (cx_sequence cx)\<rparr>) (r_state r)\<rparr>)"
| m_admit_epoch:
    "au_runtime (authority cx) \<Longrightarrow> epoch \<noteq> 0
     \<Longrightarrow> (case bm_get (st_epochs (r_state r)) (principal cx) of
            None \<Rightarrow> epoch = 1 \<and> window = \<lparr>ew_minimum = epoch, ew_admitted = bm_empty\<rparr>
          | Some w \<Rightarrow> window = w)
     \<Longrightarrow> ew_minimum window \<le> epoch \<Longrightarrow> \<not> bs_contains (ew_admitted window) epoch
     \<Longrightarrow> (case bs_last (ew_admitted window) of
            None \<Rightarrow> epoch = 1 | Some lst \<Rightarrow> checked_add lst 1 = Some epoch)
     \<Longrightarrow> micro cx r (r\<lparr>r_state := put_epoch (principal cx)
           (window\<lparr>ew_admitted := bs_insert epoch (ew_admitted window)\<rparr>) (r_state r)\<rparr>)"
| m_epoch_floor:
    "au_runtime (authority cx) \<Longrightarrow> bm_get (st_epochs (r_state r)) (principal cx) = Some window
     \<Longrightarrow> ew_minimum window \<le> lowest \<Longrightarrow> bs_contains (ew_admitted window) lowest
     \<Longrightarrow> micro cx r (r\<lparr>r_state := put_epoch (principal cx)
           (window\<lparr>ew_minimum := lowest, ew_admitted := bm_retain (\<lambda>e. e \<ge> lowest) (ew_admitted window)\<rparr>)
           (r_state r)\<rparr>)"

abbreviation micros :: "ctx \<Rightarrow> reducer \<Rightarrow> reducer \<Rightarrow> bool" where
  "micros cx \<equiv> (micro cx)\<^sup>*\<^sup>*"

end
