(* ===== verification/GraphFacts.thy ===== *)
theory GraphFacts
  imports GraphRules
begin

text \<open>
  Correctness of the graph rules against declarative definitions: the satisfaction loop
  computes the least fixed point of an inductive predicate, the lineage check accepts only
  acyclic lineage with existing endpoints, and the wait-cycle search returns the strongly
  connected component of its start.
\<close>

section \<open>The satisfaction loop computes a least fixed point\<close>

definition root_met :: "state \<Rightarrow> (claim_id \<Rightarrow> bool) \<Rightarrow> wait_predicate \<Rightarrow> bool" where
  "root_met s S p = (case p of
      WaitSatisfied c \<Rightarrow> S c
    | WaitTerminal c \<Rightarrow> S c \<or> wait_holds s p
    | WaitReleased _ \<Rightarrow> wait_holds s p)"

definition ready :: "state \<Rightarrow> (claim_id \<Rightarrow> bool) \<Rightarrow> claim_id \<Rightarrow> claim \<Rightarrow> bool" where
  "ready s S i c \<longleftrightarrow> \<not> is_terminal (status_of c) \<and> cl_local_complete (so_lifecycle c)
     \<and> (\<forall>d \<in> set (dependencies (so_content c) RK_DependsOn). S d)
     \<and> (\<forall>d \<in> set (dependencies (so_content c) RK_Awaits). S d \<or> terminal_at s d)
     \<and> (\<forall>m \<in> set (open_monitors s i). \<forall>p \<in> set (bm_keys (mon_roots m)). root_met s S p)"

lemma root_met_mono [mono]: "S \<le> S' \<Longrightarrow> root_met s S p \<longrightarrow> root_met s S' p"
  by (auto simp: root_met_def split: wait_predicate.splits)

lemma ready_mono [mono]: "S \<le> S' \<Longrightarrow> ready s S i c \<longrightarrow> ready s S' i c"
  unfolding ready_def using root_met_mono [of S S'] by blast

inductive satisfiable :: "state \<Rightarrow> claim_id \<Rightarrow> bool" for s where
  already: "claim_at s i = Some c \<Longrightarrow> status_of c = Satisfied \<Longrightarrow> satisfiable s i"
| becomes: "claim_at s i = Some c \<Longrightarrow> ready s (satisfiable s) i c \<Longrightarrow> satisfiable s i"

abbreviation in_set :: "claim_id btree_set \<Rightarrow> claim_id \<Rightarrow> bool" where
  "in_set sat \<equiv> \<lambda>i. i \<in> bs_set sat"

lemma root_ready_iff: "root_ready s sat p \<longleftrightarrow> root_met s (in_set sat) p"
  by (cases p) (auto simp: root_ready_def root_met_def bs_contains_iff)

lemma becomes_satisfied_iff:
  "becomes_satisfied s sat i c \<longleftrightarrow> i \<notin> bs_set sat \<and> ready s (in_set sat) i c"
  by (auto simp: becomes_satisfied_def ready_def list_all_iff root_ready_iff bs_contains_iff)

lemma fixpoint_pass_sound:
  assumes "\<forall>(i, c) \<in> set cs. claim_at s i = Some c" "in_set sat \<le> satisfiable s"
  shows "in_set (fst (fixpoint_pass s cs sat ch)) \<le> satisfiable s"
  using assms
proof (induction s cs sat ch rule: fixpoint_pass.induct)
  case (2 s i c rest sat changed)
  show ?case
  proof (cases "becomes_satisfied s sat i c")
    case True
    then have "ready s (satisfiable s) i c"
      using "2.prems"(2) ready_mono [of "in_set sat" "satisfiable s"] by (simp add: becomes_satisfied_iff)
    then have "satisfiable s i" using "2.prems"(1) by (auto intro: satisfiable.becomes)
    then have "in_set (bs_insert i sat) \<le> satisfiable s" using "2.prems"(2) by auto
    with "2.IH"(1) [OF True] "2.prems"(1) True show ?thesis by simp
  next
    case False
    with 2 show ?thesis by simp
  qed
qed simp

lemma fixpoint_pass_unchanged:
  assumes "fixpoint_pass s cs sat False = (sat', False)"
  shows "sat' = sat \<and> (\<forall>(i, c) \<in> set cs. \<not> becomes_satisfied s sat i c)"
proof -
  have True_stays: "snd (fixpoint_pass s cs sat True)" for cs sat
    by (induction cs arbitrary: sat) auto
  from assms show ?thesis
  proof (induction cs)
    case (Cons p cs)
    obtain i c where p: "p = (i, c)" by (cases p)
    have "\<not> becomes_satisfied s sat i c"
      using Cons.prems True_stays [of cs "bs_insert i sat"] by (auto simp: p split: if_splits)
    with Cons p show ?case by auto
  qed simp
qed

lemma fixpoint_loop_spec:
  assumes "in_set sat \<le> satisfiable s"
  shows "in_set (fixpoint_loop s sat) \<le> satisfiable s
    \<and> (\<forall>i c. claim_at s i = Some c \<longrightarrow> ready s (in_set (fixpoint_loop s sat)) i c \<longrightarrow> i \<in> bs_set (fixpoint_loop s sat))
    \<and> bs_set sat \<subseteq> bs_set (fixpoint_loop s sat)"
  using assms
proof (induction s sat rule: fixpoint_loop.induct)
  case (1 s sat)
  let ?cs = "bm_iter (st_claims s)"
  obtain sat' changed where eq: "fixpoint_pass s ?cs sat False = (sat', changed)" by fastforce
  have cs: "\<forall>(i, c) \<in> set ?cs. claim_at s i = Some c" by (auto simp: bm_iter_get)
  have sound: "in_set sat' \<le> satisfiable s"
    using fixpoint_pass_sound [OF cs "1.prems", of False] eq by simp
  have sub: "bs_set sat \<subseteq> bs_set sat'" using fixpoint_pass_mono [of sat s ?cs False] eq by simp
  have unfold: "fixpoint_loop s sat = (if changed then fixpoint_loop s sat' else sat')"
    using eq by (simp add: fixpoint_loop.simps [of s sat])
  show ?case
  proof (cases changed)
    case True
    then show ?thesis
      using "1.IH" [of "(sat', changed)" sat' changed] eq sound sub unfold by auto
  next
    case False
    then have "sat' = sat" "\<forall>(i, c) \<in> set ?cs. \<not> becomes_satisfied s sat i c"
      using fixpoint_pass_unchanged [of s ?cs sat sat'] eq by auto
    then have "\<forall>i c. claim_at s i = Some c \<longrightarrow> ready s (in_set sat) i c \<longrightarrow> i \<in> bs_set sat"
      by (auto simp: becomes_satisfied_iff bm_iter_get)
    with False unfold \<open>sat' = sat\<close> "1.prems" show ?thesis by simp
  qed
qed

lemma bs_set_satisfied: "bs_set (satisfied_ids s) = {i. \<exists>c. claim_at s i = Some c \<and> status_of c = Satisfied}"
  by (force simp: satisfied_ids_def bm_iter_get [symmetric])

lemma tracked_fixpoint_iff: "i \<in> bs_set (tracked_fixpoint s) \<longleftrightarrow> satisfiable s i"
proof -
  have "in_set (satisfied_ids s) \<le> satisfiable s"
    by (auto simp: bs_set_satisfied intro: satisfiable.already)
  note spec = fixpoint_loop_spec [OF this, folded tracked_fixpoint_def]
  have "satisfiable s i \<Longrightarrow> i \<in> bs_set (tracked_fixpoint s)"
  proof (induction rule: satisfiable.induct)
    case (already i c)
    with spec show ?case by (auto simp: bs_set_satisfied)
  next
    case (becomes i c)
    have "ready s (in_set (tracked_fixpoint s)) i c"
      using becomes(2) ready_mono [of "\<lambda>x. satisfiable s x \<and> x \<in> bs_set (tracked_fixpoint s)" "in_set (tracked_fixpoint s)"]
      by (auto simp: le_fun_def)
    with spec becomes(1) show ?case by blast
  qed
  with spec show ?thesis by auto
qed

lemma tracked_fixpoint_cases:
  assumes "i \<in> bs_set (tracked_fixpoint s)"
  obtains c where "claim_at s i = Some c"
    "status_of c = Satisfied \<or> ready s (in_set (tracked_fixpoint s)) i c"
proof -
  have "in_set (tracked_fixpoint s) = satisfiable s" by (auto simp: tracked_fixpoint_iff)
  moreover from assms have "satisfiable s i" by (simp add: tracked_fixpoint_iff)
  ultimately show thesis using that by (auto elim: satisfiable.cases)
qed

section \<open>The lineage check\<close>

definition lineage :: "state \<Rightarrow> relation_kind list \<Rightarrow> (claim_id \<times> claim_id) set" where
  "lineage s kinds = {(i, d). \<exists>c. claim_at s i = Some c \<and> d \<in> set (lineage_targets kinds c)}"

lemma acyclic_extend:
  assumes "acyclic (R \<inter> D \<times> UNIV)" "\<And>x y. x \<in> D \<Longrightarrow> (x, y) \<in> R \<Longrightarrow> y \<in> D" "i \<notin> D"
    "\<And>y. (i, y) \<in> R \<Longrightarrow> y \<in> D"
  shows "acyclic (R \<inter> insert i D \<times> UNIV)"
proof (rule acyclicI, rule allI, rule notI)
  let ?R = "R \<inter> insert i D \<times> UNIV"
  fix x assume cyc: "(x, x) \<in> ?R\<^sup>+"
  have range: "y \<in> D" if "(z, y) \<in> ?R\<^sup>+" for z y
    using that by (induction rule: trancl_induct) (use assms(2,4) in auto)
  have keep: "(z, y) \<in> (R \<inter> D \<times> UNIV)\<^sup>+" if "(z, y) \<in> ?R\<^sup>+" "z \<in> D" for z y
    using that
  proof (induction rule: trancl_induct)
    case (base y)
    with assms(3) show ?case by auto
  next
    case (step y w)
    then have "y \<in> D" using range by blast
    with step assms(3) have "(y, w) \<in> R \<inter> D \<times> UNIV" by auto
    with step show ?case by (meson trancl.trancl_into_trancl)
  qed
  from cyc have "(x, x) \<in> (R \<inter> D \<times> UNIV)\<^sup>+" using range keep by blast
  with assms(1) show False by (simp add: acyclic_def)
qed

text \<open>The traversal invariant: what is done is closed and acyclic; an open node waits for its targets.\<close>

definition done_ok :: "(claim_id \<times> claim_id) set \<Rightarrow> state \<Rightarrow> claim_id set \<Rightarrow> bool" where
  "done_ok R s D \<longleftrightarrow> acyclic (R \<inter> D \<times> UNIV) \<and> (\<forall>x \<in> D. \<forall>y. (x, y) \<in> R \<longrightarrow> y \<in> D)
     \<and> (\<forall>x \<in> D. claim_at s x \<noteq> None)"

fun stack_ok :: "(claim_id \<times> claim_id) set \<Rightarrow> state \<Rightarrow> claim_id set \<Rightarrow> claim_id set \<Rightarrow> (claim_id \<times> bool) list \<Rightarrow> bool" where
  "stack_ok R s D ab [] = True"
| "stack_ok R s D ab ((i, exit) # stack) =
     ((exit \<longrightarrow> i \<notin> D \<and> claim_at s i \<noteq> None \<and> (i, True) \<notin> set stack
        \<and> (\<forall>y. (i, y) \<in> R \<longrightarrow> y \<in> D \<union> ab))
      \<and> stack_ok R s D (insert i ab) stack)"

lemma stack_ok_mono:
  "stack_ok R s D ab stack \<Longrightarrow> ab \<subseteq> ab' \<union> D \<Longrightarrow> stack_ok R s D ab' stack"
proof (induction R s D ab stack arbitrary: ab' rule: stack_ok.induct)
  case (2 R s D ab i exit stack)
  have "insert i ab \<subseteq> insert i ab' \<union> D" using "2.prems"(2) by auto
  with 2 show ?case by (cases exit) auto
qed simp

lemma stack_ok_insert_done:
  "stack_ok R s D ab stack \<Longrightarrow> (j, True) \<notin> set stack \<Longrightarrow> ab \<subseteq> ab' \<union> {j} \<union> D
     \<Longrightarrow> stack_ok R s (insert j D) ab' stack"
proof (induction R s D ab stack arbitrary: ab' rule: stack_ok.induct)
  case (2 R s D ab i exit stack)
  have "insert i ab \<subseteq> insert i ab' \<union> {j} \<union> D" using "2.prems"(3) by auto
  with 2 show ?case by (cases exit) auto
qed simp

lemma stack_ok_push:
  assumes "stack_ok R s D (set ds \<union> ab) stack"
  shows "stack_ok R s D ab (map (\<lambda>d. (d, False)) ds @ stack)"
  using assms by (induction ds arbitrary: ab) (auto simp: Un_commute insert_commute)

definition path_of :: "(claim_id \<times> bool) list \<Rightarrow> claim_id set" where
  "path_of stack = {i. (i, True) \<in> set stack}"

lemma acyclic_from_spec:
  assumes "acyclic_from s kinds limit visits don path stack = Inr (visits', don')"
    "done_ok (lineage s kinds) s (bs_set don)" "stack_ok (lineage s kinds) s (bs_set don) {} stack"
    "bs_set path = path_of stack"
  shows "done_ok (lineage s kinds) s (bs_set don') \<and> bs_set don \<subseteq> bs_set don'
    \<and> fst ` set stack \<subseteq> bs_set don'"
  using assms
proof (induction s kinds limit visits don path stack rule: acyclic_from.induct)
  case (2 s kinds limit visits don path i exit stack)
  let ?R = "lineage s kinds"
  from "2.prems"(1) obtain v where v: "usize_add visits 1 = Some v" "\<not> v > limit"
    by (auto split: option.splits if_splits)
  show ?case
  proof (cases exit)
    case True
    have D: "done_ok ?R s (insert i (bs_set don))"
      using "2.prems"(2,3) True acyclic_extend [of ?R "bs_set don" i] by (auto simp: done_ok_def)
    have S: "stack_ok ?R s (insert i (bs_set don)) {} stack"
      using "2.prems"(3) True by (auto intro: stack_ok_insert_done)
    have P: "bs_set (bm_retain (\<lambda>x. x \<noteq> i) path) = path_of stack"
      using "2.prems"(3,4) True by (auto simp: bs_set_retain path_of_def)
    from "2.IH"(1) [OF v True] "2.prems"(1) v True D S P show ?thesis by auto
  next
    case False
    with "2.prems"(1) v have np: "i \<notin> bs_set path" by (auto simp: bs_contains_iff split: if_splits)
    show ?thesis
    proof (cases "i \<in> bs_set don")
      case True
      have S: "stack_ok ?R s (bs_set don) {} stack"
        using "2.prems"(3) False True by (auto intro: stack_ok_mono)
      have P: "bs_set path = path_of stack" using "2.prems"(4) False by (auto simp: path_of_def)
      from "2.IH"(2) [OF v False] "2.prems"(1,2) v False np True S P show ?thesis
        by (auto simp: bs_contains_iff)
    next
      case notdone: False
      with "2.prems"(1) v False np obtain c where c: "claim_at s i = Some c"
        by (auto simp: bs_contains_iff split: option.splits)
      let ?ts = "lineage_targets kinds c"
      have succ: "(i, y) \<in> ?R \<longleftrightarrow> y \<in> set ?ts" for y using c by (auto simp: lineage_def)
      have "stack_ok ?R s (bs_set don) (set (rev ?ts)) ((i, True) # stack)"
        using "2.prems"(3,4) False np notdone c succ by (auto simp: path_of_def intro: stack_ok_mono)
      then have S: "stack_ok ?R s (bs_set don) {} (map (\<lambda>d. (d, False)) (rev ?ts) @ (i, True) # stack)"
        by (intro stack_ok_push) simp
      have P: "bs_set (bs_insert i path) = path_of (map (\<lambda>d. (d, False)) (rev ?ts) @ (i, True) # stack)"
        using "2.prems"(4) False by (auto simp: path_of_def)
      have rec: "acyclic_from s kinds limit v don (bs_insert i path)
          (map (\<lambda>d. (d, False)) (rev ?ts) @ (i, True) # stack) = Inr (visits', don')"
        using "2.prems"(1) v False np notdone c by (simp add: bs_contains_iff rev_map)
      from "2.IH"(3) [OF v False] np notdone c "2.prems"(2) S P rec
      show ?thesis by (auto simp: bs_contains_iff rev_map)
    qed
  qed
qed auto

lemma acyclic_starts_spec:
  assumes "acyclic_starts s kinds limit starts visits don = Inr (visits', don')"
    "done_ok (lineage s kinds) s (bs_set don)"
  shows "done_ok (lineage s kinds) s (bs_set don') \<and> bs_set don \<subseteq> bs_set don' \<and> set starts \<subseteq> bs_set don'"
  using assms
proof (induction s kinds limit starts visits don rule: acyclic_starts.induct)
  case (2 s kinds limit start rest visits don)
  show ?case
  proof (cases "bs_contains don start")
    case True
    with 2 show ?thesis by (auto simp: bs_contains_iff)
  next
    case False
    with "2.prems"(1) obtain v d where
      go: "acyclic_from s kinds limit visits don bm_empty [(start, False)] = Inr (v, d)"
      and rest: "acyclic_starts s kinds limit rest v d = Inr (visits', don')"
      by (auto split: sum.splits)
    have "done_ok (lineage s kinds) s (bs_set d)" "bs_set don \<subseteq> bs_set d" "start \<in> bs_set d"
      using acyclic_from_spec [OF go] "2.prems"(2) by (auto simp: path_of_def)
    with "2.IH"(2) [OF False go _ rest] rest show ?thesis by auto
  qed
qed simp

lemma check_acyclic_sound:
  assumes "check_acyclic s kinds limit = Inr ()"
  shows "acyclic (lineage s kinds) \<and> (\<forall>(i, d) \<in> lineage s kinds. claim_at s d \<noteq> None)"
proof -
  from assms obtain v don where
    "acyclic_starts s kinds limit (bm_keys (st_claims s)) 0 bm_empty = Inr (v, don)"
    by (auto simp: check_acyclic_def split: sum.splits)
  moreover have "done_ok (lineage s kinds) s (bs_set bm_empty)"
    by (simp add: done_ok_def acyclic_def)
  ultimately have ok: "done_ok (lineage s kinds) s (bs_set don)"
    and all: "set (bm_keys (st_claims s)) \<subseteq> bs_set don"
    using acyclic_starts_spec by blast+
  have dom: "x \<in> bs_set don" if "(x, y) \<in> lineage s kinds" for x y
    using that all by (auto simp: lineage_def set_bm_keys)
  then have "lineage s kinds \<inter> bs_set don \<times> UNIV = lineage s kinds" by auto
  then have "acyclic (lineage s kinds)" using ok by (simp add: done_ok_def)
  moreover have "claim_at s y \<noteq> None" if "(x, y) \<in> lineage s kinds" for x y
    using ok dom [OF that] that unfolding done_ok_def by blast
  ultimately show ?thesis by auto
qed

section \<open>The wait-cycle search\<close>

definition waits_on :: "state \<Rightarrow> (claim_id \<times> claim_id) set" where
  "waits_on s = {(i, j). \<exists>ns. neighbors s i = Inr ns \<and> j \<in> set ns}"

lemma closure_step:
  "X \<subseteq> insert i S \<union> Y \<Longrightarrow> A \<subseteq> C \<Longrightarrow> Y = A \<union> B \<Longrightarrow> Z = C \<union> B \<Longrightarrow> i \<in> C \<Longrightarrow> X \<subseteq> S \<union> Z"
  by auto

lemma reachable_loop_spec:
  assumes "reachable_loop s seen limit stack = Inr (seen', limit')"
    "\<forall>i \<in> bs_set seen. \<forall>j. (i, j) \<in> waits_on s \<longrightarrow> j \<in> bs_set seen \<union> set stack"
  shows "bs_set seen \<union> set stack \<subseteq> bs_set seen'
    \<and> (\<forall>i \<in> bs_set seen'. \<forall>j. (i, j) \<in> waits_on s \<longrightarrow> j \<in> bs_set seen')
    \<and> bs_set seen' \<subseteq> bs_set seen \<union> (waits_on s)\<^sup>* `` set stack"
  using assms
proof (induction s seen limit stack rule: reachable_loop.induct)
  case (2 s seen limit i stack)
  show ?case
  proof (cases "bs_contains seen i")
    case True
    then have i: "i \<in> bs_set seen" by (simp add: bs_contains_iff)
    with "2.prems"(2) have inv: "\<forall>k \<in> bs_set seen. \<forall>j. (k, j) \<in> waits_on s \<longrightarrow> j \<in> bs_set seen \<union> set stack"
      by auto
    from "2.prems"(1) True have "reachable_loop s seen limit stack = Inr (seen', limit')" by simp
    note all = "2.IH"(1) [OF True this inv]
    have "bs_set seen \<union> set (i # stack) \<subseteq> bs_set seen'" using all [THEN conjunct1] i by auto
    moreover have "(waits_on s)\<^sup>* `` set stack \<subseteq> (waits_on s)\<^sup>* `` set (i # stack)" by (rule Image_mono) auto
    then have "bs_set seen' \<subseteq> bs_set seen \<union> (waits_on s)\<^sup>* `` set (i # stack)"
      using all [THEN conjunct2, THEN conjunct2] by blast
    ultimately show ?thesis using all [THEN conjunct2, THEN conjunct1] by (intro conjI) assumption+
  next
    case False
    with "2.prems"(1) obtain ns where lim: "limit \<noteq> 0" and ns: "neighbors s i = Inr ns"
      and rec: "reachable_loop s (bs_insert i seen) (limit - 1) (rev ns @ stack) = Inr (seen', limit')"
      by (auto split: sum.splits if_splits)
    have succ: "(i, j) \<in> waits_on s \<longleftrightarrow> j \<in> set ns" for j using ns by (auto simp: waits_on_def)
    have inv: "\<forall>k \<in> bs_set (bs_insert i seen). \<forall>j. (k, j) \<in> waits_on s \<longrightarrow>
        j \<in> bs_set (bs_insert i seen) \<union> set (rev ns @ stack)"
      using "2.prems"(2) succ unfolding bs_set_insert by simp blast
    note all = "2.IH"(2) [OF False lim ns rec inv]
    note IH = all [THEN conjunct1] all [THEN conjunct2, THEN conjunct1] all [THEN conjunct2, THEN conjunct2]
    have "(waits_on s)\<^sup>* `` set ns \<subseteq> (waits_on s)\<^sup>* `` {i}"
      using succ by (blast intro: converse_rtrancl_into_rtrancl)
    moreover have "(waits_on s)\<^sup>* `` set (rev ns @ stack) = (waits_on s)\<^sup>* `` set ns \<union> (waits_on s)\<^sup>* `` set stack"
      by (simp add: Image_Un)
    moreover have "(waits_on s)\<^sup>* `` set (i # stack) = (waits_on s)\<^sup>* `` {i} \<union> (waits_on s)\<^sup>* `` set stack"
      by (simp add: Image_Un [symmetric])
    moreover have "i \<in> (waits_on s)\<^sup>* `` {i}" by simp
    ultimately have "bs_set seen' \<subseteq> bs_set seen \<union> (waits_on s)\<^sup>* `` set (i # stack)"
      by (rule closure_step [OF IH(3) [unfolded bs_set_insert]])
    moreover have "bs_set seen \<union> set (i # stack) \<subseteq> bs_set seen'" using IH(1) by simp
    ultimately show ?thesis using IH(2) by (intro conjI) assumption+
  qed
qed simp

lemma reachable_set_spec:
  assumes "reachable_set s start limit = Inr (seen, limit')"
  shows "bs_set seen = (waits_on s)\<^sup>* `` {start}"
proof
  have spec: "start \<in> bs_set seen" "\<And>i j. i \<in> bs_set seen \<Longrightarrow> (i, j) \<in> waits_on s \<Longrightarrow> j \<in> bs_set seen"
    and sub: "bs_set seen \<subseteq> (waits_on s)\<^sup>* `` {start}"
    using reachable_loop_spec [OF assms [unfolded reachable_set_def]] by auto
  show "bs_set seen \<subseteq> (waits_on s)\<^sup>* `` {start}" by (rule sub)
  have "j \<in> bs_set seen" if "(start, j) \<in> (waits_on s)\<^sup>*" for j
    using that by (induction rule: rtrancl_induct) (use spec in auto)
  then show "(waits_on s)\<^sup>* `` {start} \<subseteq> bs_set seen" by auto
qed

lemma cycle_component_spec:
  assumes "cycle_component s start nodes limit component = Inr component'"
  shows "bs_set component' = bs_set component \<union> {n \<in> set nodes. (n, start) \<in> (waits_on s)\<^sup>*}"
  using assms
proof (induction s start nodes limit component rule: cycle_component.induct)
  case (2 s start node rest limit component)
  from "2.prems" obtain seen l where seen: "reachable_set s node limit = Inr (seen, l)"
    and rec: "cycle_component s start rest l (if bs_contains seen start then bs_insert node component else component) = Inr component'"
    by (auto split: sum.splits)
  have "bs_contains seen start \<longleftrightarrow> (node, start) \<in> (waits_on s)\<^sup>*"
    using reachable_set_spec [OF seen] by (simp add: bs_contains_iff)
  with "2.IH" [OF seen _ rec] show ?case by auto
qed simp

lemma rtrancl_other_trancl: "(x, y) \<in> R\<^sup>* \<Longrightarrow> x \<noteq> y \<Longrightarrow> (x, y) \<in> R\<^sup>+"
  by (auto simp: rtrancl_eq_or_trancl)

lemma cycle_containing_spec:
  assumes "cycle_containing s start limit = Inr res"
  shows "case res of
      Some component \<Rightarrow> (start, start) \<in> (waits_on s)\<^sup>+
        \<and> bs_set component = {n. (start, n) \<in> (waits_on s)\<^sup>* \<and> (n, start) \<in> (waits_on s)\<^sup>*}
    | None \<Rightarrow> (start, start) \<notin> (waits_on s)\<^sup>+"
proof -
  let ?W = "waits_on s"
  from assms obtain seen l component where seen: "reachable_set s start limit = Inr (seen, l)"
    and comp: "cycle_component s start (bm_keys seen) l bm_empty = Inr component"
    and res: "(if bm_len component > 1 then Inr (Some component)
               else (case neighbors s start of
                   Inl e \<Rightarrow> Inl e
                 | Inr ns \<Rightarrow> Inr (if start \<in> set ns then Some component else None))) = Inr res"
    unfolding cycle_containing_def by (auto split: sum.splits prod.splits)
  have scc: "bs_set component = {n. (start, n) \<in> ?W\<^sup>* \<and> (n, start) \<in> ?W\<^sup>*}"
    using cycle_component_spec [OF comp] reachable_set_spec [OF seen] by (auto simp: bs_set_def [symmetric])
  have size: "bm_len component = card (bs_set component)"
    by (simp add: bm_len_card bs_set_def set_bm_keys)
  have fin: "finite (bs_set component)" by (simp add: bs_set_def)
  have start: "start \<in> bs_set component" using scc by simp
  show ?thesis
  proof (cases "bm_len component > 1")
    case True
    then obtain n where n: "n \<in> bs_set component" "n \<noteq> start"
      using size fin start by (metis One_nat_def card_le_Suc0_iff_eq leD)
    then have "(start, n) \<in> ?W\<^sup>+" "(n, start) \<in> ?W\<^sup>*"
      using scc by (auto intro: rtrancl_other_trancl)
    then have "(start, start) \<in> ?W\<^sup>+" by (rule trancl_rtrancl_trancl)
    with True res scc show ?thesis by auto
  next
    case False
    with res obtain ns where ns: "neighbors s start = Inr ns"
      and r: "res = (if start \<in> set ns then Some component else None)" by (auto split: sum.splits)
    have self: "start \<in> set ns \<longleftrightarrow> (start, start) \<in> ?W" using ns by (auto simp: waits_on_def)
    show ?thesis
    proof (cases "start \<in> set ns")
      case True
      with r self scc show ?thesis by auto
    next
      case not_self: False
      have "(start, start) \<notin> ?W\<^sup>+"
      proof
        assume "(start, start) \<in> ?W\<^sup>+"
        then obtain n where n: "(start, n) \<in> ?W" "(n, start) \<in> ?W\<^sup>*" by (meson tranclD)
        then have "n \<in> bs_set component" "n \<noteq> start" using scc self not_self by auto
        with start have "card (bs_set component) > 1"
          by (metis One_nat_def card_le_Suc0_iff_eq fin linorder_not_le)
        with False size show False by simp
      qed
      with r not_self show ?thesis by simp
    qed
  qed
qed

section \<open>Properties\<close>

text \<open>A claim with the given status, completion and relations, for the sample graphs below.\<close>

definition sample_claim :: "claim_id \<Rightarrow> claim_status \<Rightarrow> bool \<Rightarrow> (relation_kind \<times> claim_id) list \<Rightarrow> claim" where
  "sample_claim i st lc edges = stored_new
     \<lparr>cc_ledger = LedgerId 1 2, cc_schema = 1, cc_occurrence = i, cc_description = [],
      cc_relations = bs_of_list (map (\<lambda>(k, t). Relation k (TObject (object_ref_claim (LedgerId 1 2) t))) edges),
      cc_scopes = bm_empty, cc_requirements = [], cc_deadline = None\<rparr> 0
     \<lparr>cl_status = st, cl_revision = 1, cl_created = 1, cl_history = [StatusFact st 1], cl_receipt = None,
      cl_evidence_set = None, cl_testament = None, cl_local_complete = lc, cl_released = False,
      cl_terminal_witness = None\<rparr>"

definition sample_graph :: "(claim_id \<times> claim) list \<Rightarrow> state" where
  "sample_graph rows = (state_new (LedgerId 1 2))\<lparr>st_claims := foldr (\<lambda>(i, c). bm_insert i c) rows bm_empty\<rparr>"

text \<open>
  C22.  The satisfaction loop computes exactly the least set of claims closed under the
  completion rule: a claim is in the result if and only if it is already satisfied, or it is
  locally complete and not terminal, all its dependencies are in the set, everything it
  awaits is in the set or terminal, and the roots of its open monitors are met.  Claims that
  wait for each other in a cycle are therefore never satisfied by their own cycle.
\<close>

theorem least_fixpoint_least: "bs_set (least_fixpoint s) = {i. satisfiable s i}"
  by (auto simp: least_fixpoint_def tracked_fixpoint_iff)

text \<open>
  C23.  When the lineage check accepts a state, the causation, supersession and amendment
  edges of its claims form no cycle and none of them points to a missing claim.
\<close>

theorem lineage_check_sound:
  "check_acyclic s kinds limit = Inr () \<Longrightarrow>
     acyclic (lineage s kinds) \<and> (\<forall>(i, d) \<in> lineage s kinds. claim_at s d \<noteq> None)"
  by (rule check_acyclic_sound)

definition sample_family :: state where
  "sample_family = sample_graph
     [(1, sample_claim 1 Generated False []), (2, sample_claim 2 Generated False [(RK_CausedBy, 1)]),
      (3, sample_claim 3 Generated False [(RK_CausedBy, 1), (RK_Supersedes, 2)])]"

theorem lineage_check_sound_witness:
  "check_acyclic sample_family [RK_CausedBy, RK_Supersedes, RK_Amends] 20 = Inr ()
   \<and> acyclic (lineage sample_family [RK_CausedBy, RK_Supersedes, RK_Amends])"
proof -
  have "check_acyclic sample_family [RK_CausedBy, RK_Supersedes, RK_Amends] 20 = Inr ()" by code_simp
  with lineage_check_sound [OF this] show ?thesis by simp
qed

text \<open>
  C24.  The deadlock search is exact: when it returns a component, its start waits on itself
  through a cycle and the component is the set of claims that start and start's cycle can
  reach from each other; when it returns none, no wait cycle passes through the start.
\<close>

theorem wait_cycle_component:
  "cycle_containing s start limit = Inr res \<Longrightarrow>
     (case res of
        Some component \<Rightarrow> (start, start) \<in> (waits_on s)\<^sup>+
          \<and> bs_set component = {n. (start, n) \<in> (waits_on s)\<^sup>* \<and> (n, start) \<in> (waits_on s)\<^sup>*}
      | None \<Rightarrow> (start, start) \<notin> (waits_on s)\<^sup>+)"
  by (rule cycle_containing_spec)

definition sample_cycle :: state where
  "sample_cycle = sample_graph
     [(1, sample_claim 1 Posted False [(RK_DependsOn, 2)]), (2, sample_claim 2 Posted False [(RK_Awaits, 1)]),
      (3, sample_claim 3 Posted False [(RK_DependsOn, 1)])]"

theorem wait_cycle_component_witness:
  "cycle_containing sample_cycle 1 20 = Inr (Some (bs_of_list [1, 2]))
   \<and> (1, 1) \<in> (waits_on sample_cycle)\<^sup>+"
proof -
  have "cycle_containing sample_cycle 1 20 = Inr (Some (bs_of_list [1, 2]))" by code_simp
  with wait_cycle_component [OF this] show ?thesis by simp
qed

end
