(* ===== verification/StepFacts.thy ===== *)
theory StepFacts
  imports Steps GraphFacts
begin

text \<open>
  How a step changes each table.  A claim row is either new, or evolves by one of the row
  updates of the theory Steps; content and hash of a stored object never change.
\<close>

section \<open>The satisfaction batch\<close>

definition satisfied_row :: "ctx \<Rightarrow> claim_id set \<Rightarrow> claim_id \<Rightarrow> claim \<Rightarrow> claim" where
  "satisfied_row cx ids i c =
     (if i \<in> ids \<and> status_of c \<noteq> Satisfied then advance_claim cx Satisfied None c else c)"

lemma satisfy_all_Inr:
  assumes "satisfy_all cx ids ch r = Inr (ch', r')" "distinct ids"
  shows "(\<forall>i. claim_at (r_state r') i = map_option (satisfied_row cx (set ids) i) (claim_at (r_state r) i))
    \<and> (\<forall>i \<in> set ids. \<forall>c. claim_at (r_state r) i = Some c \<longrightarrow> status_of c \<noteq> Satisfied
         \<longrightarrow> \<not> is_terminal (status_of c) \<and> revision_free c)
    \<and> r_state r' = (r_state r)\<lparr>st_claims := st_claims (r_state r')\<rparr>
    \<and> (ch' \<longleftrightarrow> ch \<or> (\<exists>i \<in> set ids. \<exists>c. claim_at (r_state r) i = Some c \<and> status_of c \<noteq> Satisfied))"
  using assms
proof (induction ids arbitrary: ch r)
  case Nil
  then show ?case by (auto simp: satisfied_row_def option.map_id [unfolded id_def])
next
  case (Cons i ids)
  show ?case
  proof (cases "\<exists>c. claim_at (r_state r) i = Some c \<and> status_of c \<noteq> Satisfied")
    case True
    then obtain c where c: "claim_at (r_state r) i = Some c" "status_of c \<noteq> Satisfied" by blast
    with Cons.prems(1) have act: "\<not> is_terminal (status_of c)" "revision_free c"
      and rec: "satisfy_all cx ids True (write_status cx i Satisfied None c r) = Inr (ch', r')" by auto
    have dist: "distinct ids" "i \<notin> set ids" using Cons.prems(2) by auto
    note IH = Cons.IH [OF rec dist(1)]
    have "claim_at (r_state r') j = map_option (satisfied_row cx (set (i # ids)) j) (claim_at (r_state r) j)" for j
      using IH dist c by (cases "j = i"; cases "claim_at (r_state r) j") (auto simp: satisfied_row_def)
    moreover have "r_state r' = (put_claim i (advance_claim cx Satisfied None c) (r_state r))
        \<lparr>st_claims := st_claims (r_state r')\<rparr>"
      using IH unfolding write_status_state by blast
    then have "r_state r' = (r_state r)\<lparr>st_claims := st_claims (r_state r')\<rparr>"
      by simp
    moreover have "\<not> is_terminal (status_of d) \<and> revision_free d"
      if "j \<in> set (i # ids)" "claim_at (r_state r) j = Some d" "status_of d \<noteq> Satisfied" for j d
    proof (cases "j = i")
      case True
      with that c act show ?thesis by simp
    next
      case False
      with that IH [THEN conjunct2, THEN conjunct1, rule_format, of j d] show ?thesis by simp
    qed
    moreover have "ch'" using IH by simp
    ultimately show ?thesis using c by auto
  next
    case False
    with Cons.prems(1) have rec: "satisfy_all cx ids ch r = Inr (ch', r')"
      by (auto split: option.splits)
    have "satisfied_row cx (set (i # ids)) j c = satisfied_row cx (set ids) j c"
      if "claim_at (r_state r) j = Some c" for j c
      using False that by (auto simp: satisfied_row_def)
    then have "map_option (satisfied_row cx (set (i # ids)) j) (claim_at (r_state r) j)
      = map_option (satisfied_row cx (set ids) j) (claim_at (r_state r) j)" for j
      by (cases "claim_at (r_state r) j") auto
    with Cons.IH [OF rec] Cons.prems(2) False show ?thesis by auto
  qed
qed

end
