(* ===== verification/Refinement.thy ===== *)
theory Refinement
  imports StepFacts
begin

text \<open>
  Every command and the propagation are sequences of the guarded steps of the theory Steps.
  The lemmas follow the order of the commands; they assume the facts \<open>base\<close> of every reachable
  state, whose preservation is part of the theory Reachability.
\<close>

section \<open>Composing steps\<close>

definition artifact_index :: "state \<Rightarrow> bool" where
  "artifact_index s \<longleftrightarrow> (\<forall>h i. bm_get (st_identities s) (OK_Artifact, h) = Some i \<longrightarrow>
     artifact_verified s (ArtifactRef i h))"

definition late :: "claim_status \<Rightarrow> bool" where
  "late st \<longleftrightarrow> st = Validating \<or> is_terminal st"

definition complete_late :: "state \<Rightarrow> bool" where
  "complete_late s \<longleftrightarrow> (\<forall>i c. claim_at s i = Some c \<longrightarrow> cl_local_complete (so_lifecycle c) \<longrightarrow> late (status_of c))"

definition run_keys :: "state \<Rightarrow> bool" where
  "run_keys s \<longleftrightarrow> (\<forall>k x. bm_get (st_runs s) k = Some x \<longrightarrow> run_id x = k)"

definition base :: "state \<Rightarrow> bool" where
  "base s \<longleftrightarrow> artifact_index s \<and> complete_late s \<and> run_keys s"

lemma base_open:
  "base s \<Longrightarrow> claim_at s i = Some c \<Longrightarrow> \<not> late (status_of c) \<Longrightarrow> \<not> cl_local_complete (so_lifecycle c)"
  by (auto simp: base_def complete_late_def)

lemma micros_one: "micro cx r r' \<Longrightarrow> micros cx r r'"
  by (rule r_into_rtranclp)

lemma micros_snoc: "micros cx r R \<Longrightarrow> micro cx R r' \<Longrightarrow> micros cx r r'"
  by (rule rtranclp.rtrancl_into_rtrancl)

lemma micros_emit:
  "micros cx r R \<Longrightarrow> \<not> is_status_fact f \<Longrightarrow> ordinal_free R \<Longrightarrow> micros cx r (push_delta cx c a f R)"
  by (erule micros_snoc) (rule micro.m_emit)

lemma micros_effect: "micros cx r R \<Longrightarrow> micros cx r (R\<lparr>r_effects := r_effects R @ [e]\<rparr>)"
  by (erule micros_snoc) (rule micro.m_effect)

lemma micros_status:
  "micros cx r R \<Longrightarrow> claim_at (r_state R) i = Some c \<Longrightarrow> status_guard (r_state R) i c st w
   \<Longrightarrow> revision_free c \<Longrightarrow> ordinal_free R \<Longrightarrow> micros cx r (write_status cx i st w c R)"
  by (erule micros_snoc) (rule micro.m_status)

lemmas micros_outputs = micros_emit micros_effect micros_status

text \<open>A loop of refined iterations is refined, under an invariant of the loop.\<close>

lemma forR_micros:
  assumes "\<forall>x \<in> set xs. \<forall>R R'. I R \<longrightarrow> f x R = Inr ((), R') \<longrightarrow> micros cx R R' \<and> I R'"
    and "forR f xs r = Inr (u, r')" "I r"
  shows "micros cx r r' \<and> I r'"
  using assms
proof (induction xs arbitrary: r)
  case (Cons x xs)
  from Cons.prems(2) obtain r1 where 1: "f x r = Inr ((), r1)" "forR f xs r1 = Inr (u, r')" by auto
  then have "micros cx r r1 \<and> I r1" using bspec [OF Cons.prems(1), of x] Cons.prems(3) by simp
  moreover from this have "micros cx r1 r' \<and> I r'"
    using Cons.IH [OF conjunct2 [OF Cons.prems(1) [unfolded list.set ball_simps]] 1(2)] by blast
  ultimately show ?case by auto
qed auto

section \<open>Epochs and generation\<close>

lemma negotiate_micros:
  assumes "cmd_negotiate_epoch cx e r = Inr (res, r')"
  shows "micros cx r r'"
proof -
  define window where "window = (case bm_get (st_epochs (r_state r)) (principal cx) of
      None \<Rightarrow> \<lparr>ew_minimum = e, ew_admitted = bm_empty\<rparr> | Some w \<Rightarrow> w)"
  from assms have rt: "au_runtime (authority cx)" "e \<noteq> 0" "ew_minimum window \<le> e"
    unfolding cmd_negotiate_epoch_def Let_def window_def by (auto simp: not_less)
  show ?thesis
  proof (cases "bs_contains (ew_admitted window) e")
    case True
    with assms show ?thesis unfolding cmd_negotiate_epoch_def Let_def window_def by auto
  next
    case False
    let ?r = "r\<lparr>r_state := put_epoch (principal cx)
        (window\<lparr>ew_admitted := bs_insert e (ew_admitted window)\<rparr>) (r_state r)\<rparr>"
    have "thenR (case bs_last (ew_admitted window) of
           Some lst \<Rightarrow>
             bindR (ok_or (checked_add lst 1) EC_InvalidEpoch) (\<lambda>n. refuse_if (e \<noteq> n) EC_InvalidEpoch)
         | None \<Rightarrow> refuse_if (e \<noteq> 1) EC_InvalidEpoch)
        (thenR (stepsR
           [modifyR (put_epoch (principal cx) (window\<lparr>ew_admitted := bs_insert e (ew_admitted window)\<rparr>)),
            emit cx None LA_EpochAdmitted (FactEpoch e)])
         (ret (EpochAdmitted e))) r = Inr (res, r')"
      using assms False unfolding cmd_negotiate_epoch_def Let_def window_def
      by (simp only: thenR_Inr with_state_Inr refuse_if_Inr require_runtime_Inr) (auto simp: if_Inr)
    then have last: "case bs_last (ew_admitted window) of None \<Rightarrow> e = 1 | Some lst \<Rightarrow> checked_add lst 1 = Some e"
      and out: "ordinal_free r" "r' = push_delta cx None LA_EpochAdmitted (FactEpoch e) ?r"
      by (auto split: option.splits)
    have "case bm_get (st_epochs (r_state r)) (principal cx) of
            None \<Rightarrow> e = 1 \<and> window = \<lparr>ew_minimum = e, ew_admitted = bm_empty\<rparr>
          | Some w \<Rightarrow> window = w"
      using last by (auto simp: window_def bs_last_def bm_keys_def split: option.splits)
    from micro.m_admit_epoch [OF rt(1,2) this rt(3) False last]
    show ?thesis unfolding out(2) by (intro micros_emit [OF micros_one]) (use out(1) in auto)
  qed
qed

lemma epoch_floor_micros:
  assumes "cmd_advance_epoch_floor cx e r = Inr (res, r')"
  shows "micros cx r r'"
proof -
  from assms obtain w where g: "au_runtime (authority cx)" "bm_get (st_epochs (r_state r)) (principal cx) = Some w"
    "ew_minimum w \<le> e" "bs_contains (ew_admitted w) e" "ordinal_free r"
    and out: "r' = push_delta cx None LA_EpochFloorAdvanced (FactEpoch e)
      (r\<lparr>r_state := put_epoch (principal cx)
          (w\<lparr>ew_minimum := e, ew_admitted := bm_retain (\<lambda>x. x \<ge> e) (ew_admitted w)\<rparr>) (r_state r)\<rparr>)"
    unfolding cmd_advance_epoch_floor_def by (auto simp: not_less)
  from micro.m_epoch_floor [OF g(1-4)] show ?thesis
    unfolding out by (intro micros_emit [OF micros_one]) (use g in auto)
qed

lemma generate_micros: "generate cx cs r = Inr (res, r') \<Longrightarrow> micros cx r r'"
  by (erule generate_cases) (auto intro!: micros_one intro: micro.m_generate)

section \<open>Posting and receipts\<close>

lemma schedule_micros:
  assumes "schedule cx i target manifest r = Inr (rid, r')"
    "bm_get (st_validations (r_state r)) i = Some v" "claim_at (r_state r) (vc_claim (so_content v)) = Some c"
    "schedule_status (vc_phase (so_content v)) (status_of c)" "\<not> cl_local_complete (so_lifecycle c)"
  shows "micros cx r r' \<and> st_claims (r_state r') = st_claims (r_state r)
    \<and> (\<forall>j w. bm_get (st_validations (r_state r)) j = Some w \<longrightarrow>
         (\<exists>w'. bm_get (st_validations (r_state r')) j = Some w' \<and> so_content w' = so_content w))"
proof -
  from assms obtain epoch first where g: "\<not> scheduled_for (r_state r) i target"
    "checked_add (vl_latest_epoch (so_lifecycle v)) 1 = Some epoch" "first_opt (vc_handlers (so_content v)) = Some first"
    and rid: "rid = ValidationRunId i target (vc_phase (so_content v)) epoch" and "ordinal_free r"
    and out: "r' = (let R = push_delta cx (Some (vc_claim (so_content v))) LA_ValidationScheduled (FactValidationScheduled rid)
        (r\<lparr>r_state := put_validation i (with_epoch epoch v) (put_run rid (new_run v rid manifest first) (r_state r))\<rparr>)
      in R\<lparr>r_effects := r_effects R @ [ExecuteValidation rid first (vc_evaluator (so_content v)) 0 manifest
          (hd_agentic first \<and> vc_quality_bar (so_content v) \<noteq> None)]\<rparr>)"
    unfolding schedule_def with_epoch_def by (auto simp: Let_def)
  from micro.m_schedule [OF assms(2-5) g rid] have "micros cx r r'"
    unfolding out Let_def by (intro micros_effect micros_emit [OF micros_one]) (use \<open>ordinal_free r\<close> in auto)
  with assms(2) show ?thesis unfolding out Let_def by auto
qed

lemma phase_idsD:
  "i \<in> set (phase_ids s claim phase) \<Longrightarrow> \<exists>v. bm_get (st_validations s) i = Some v
     \<and> vc_claim (so_content v) = claim \<and> vc_phase (so_content v) = phase \<and> vc_kind (so_content v) \<noteq> VK_Receipt"
  by (auto simp: phase_ids_def bm_iter_get)

lemma schedule_phase_micros:
  assumes "schedule_phase cx claim phase target manifest r = Inr (u, r')"
    "claim_at (r_state r) claim = Some c" "schedule_status phase (status_of c)" "\<not> cl_local_complete (so_lifecycle c)"
  shows "micros cx r r' \<and> st_claims (r_state r') = st_claims (r_state r)"
proof -
  let ?I = "\<lambda>R. st_claims (r_state R) = st_claims (r_state r) \<and>
    (\<forall>j \<in> set (phase_ids (r_state r) claim phase). \<exists>v. bm_get (st_validations (r_state R)) j = Some v
       \<and> vc_claim (so_content v) = claim \<and> vc_phase (so_content v) = phase)"
  have step: "micros cx R R' \<and> ?I R'" if i: "i \<in> set (phase_ids (r_state r) claim phase)" and I: "?I R"
    and run: "bindR (schedule cx i target manifest) (\<lambda>_. ret ()) R = Inr ((), R')" for i R R'
  proof -
    from bspec [OF conjunct2 [OF I] i] obtain v where v: "bm_get (st_validations (r_state R)) i = Some v"
      "vc_claim (so_content v) = claim" "vc_phase (so_content v) = phase" by (elim exE conjE)
    from run obtain rid where "schedule cx i target manifest R = Inr (rid, R')" by auto
    from schedule_micros [OF this v(1)] v I assms(2-4) have m: "micros cx R R'"
      "st_claims (r_state R') = st_claims (r_state R)"
      "\<And>j w. bm_get (st_validations (r_state R)) j = Some w \<Longrightarrow>
         \<exists>w'. bm_get (st_validations (r_state R')) j = Some w' \<and> so_content w' = so_content w" by auto
    have "\<exists>v. bm_get (st_validations (r_state R')) j = Some v \<and> vc_claim (so_content v) = claim
        \<and> vc_phase (so_content v) = phase" if "j \<in> set (phase_ids (r_state r) claim phase)" for j
      using bspec [OF conjunct2 [OF I] that] m(3) [of j] by fastforce
    with m(1,2) conjunct1 [OF I] show ?thesis by simp
  qed
  have loop: "\<forall>i \<in> set (phase_ids (r_state r) claim phase). \<forall>R R'. ?I R \<longrightarrow>
      bindR (schedule cx i target manifest) (\<lambda>_. ret ()) R = Inr ((), R') \<longrightarrow> micros cx R R' \<and> ?I R'"
    by (intro ballI allI impI) (rule step)
  have init: "?I r" by (auto dest: phase_idsD)
  from forR_micros [where I = ?I, OF loop assms(1) [unfolded schedule_phase_def with_state_Inr] init]
  show ?thesis by (elim conjE) (intro conjI)
qed

lemma status_guard_plain:
  "lifecycle_edge (status_of c) st \<Longrightarrow> st \<in> {Posted, Progressed, PostFailed, ReceiptFailed, Cancelled, Expired,
     Revoked, Superseded, Deadlocked} \<Longrightarrow> status_guard s i c st w"
  by (auto simp: status_guard_def)

lemma post_micros:
  assumes "cmd_post_claim cx i r = Inr (res, r')" "base (r_state r)"
  shows "micros cx r r'"
proof -
  from assms obtain c manifest R R1 where c: "claim_at (r_state r) i = Some c" "status_of c = Generated"
    "revision_free c" "ordinal_free r"
    and R: "R = write_status cx i Posted None c r"
    and sch: "schedule_phase cx i PH_Admission (so_content_hash c) manifest R = Inr ((), R1)"
    and r': "r' = R1\<lparr>r_effects := r_effects R1 @ [DispatchClaim i]\<rparr>"
    unfolding cmd_post_claim_def by auto
  have "micros cx r R" unfolding R using c
    by (intro micros_status status_guard_plain) (auto simp: lifecycle_edge_def)
  moreover have "\<not> cl_local_complete (so_lifecycle c)" using base_open [OF assms(2) c(1)] c by (simp add: late_def)
  then have "micros cx R R1"
    using schedule_phase_micros [OF sch, of "advance_claim cx Posted None c"] by (simp add: R schedule_status_def)
  ultimately show ?thesis unfolding r' by (intro micros_effect) simp
qed

lemma acquire_micros:
  assumes "cmd_acquire_receipt cx i rid e r = Inr (res, r')"
  shows "micros cx r r'"
proof -
  define rc where "rc = \<lparr>rc_fence = ReceiptFence rid e, rc_holder = principal cx, rc_acquired = cx_sequence cx\<rparr>"
  have deps: "forR (check_dependency i) ds r = Inr (u, R) \<longleftrightarrow>
      (\<forall>d \<in> set ds. \<exists>t. claim_at (r_state r) d = Some t \<and> status_of t = Satisfied) \<and> R = r" for ds u R
    by (rule forR_checks) (auto simp: check_dependency_def)
  from assms obtain c where g: "claim_at (r_state r) i = Some c" "status_of c = Posted"
    "subject (so_content c) = Some (principal cx)" "phase_passed (r_state r) i PH_Admission"
    "\<forall>d \<in> set (dependencies (so_content c) RK_DependsOn). \<exists>t. claim_at (r_state r) d = Some t \<and> status_of t = Satisfied"
    "e = 1" "rid \<noteq> 0" "\<not> receipt_allocated (r_state r) rid"
    and o: "revision_free (with_receipt rc c)" "ordinal_free r"
    "r' = push_delta cx (Some i) LA_Received (FactReceipt rc) (write_status cx i Received None (with_receipt rc c)
           (r\<lparr>r_state := put_claim i (with_receipt rc c) (r_state r)\<rparr>))"
    and o2: "ordinal_free (write_status cx i Received None (with_receipt rc c)
           (r\<lparr>r_state := put_claim i (with_receipt rc c) (r_state r)\<rparr>))"
    unfolding cmd_acquire_receipt_def rc_def Let_def with_receipt_def
    by (auto simp: deps is_zero_def)
  have "revision_free c" using o(1) by (simp add: revision_free_def so_lifecycle_update)
  with g o have "micro cx r (write_status cx i Received None (with_receipt rc c)
           (r\<lparr>r_state := put_claim i (with_receipt rc c) (r_state r)\<rparr>))"
    by (intro micro.m_acquire) (auto simp: rc_def)
  then show ?thesis unfolding o(3) by (intro micros_emit [OF micros_one] o2) auto
qed

lemma adopt_micros:
  assumes "cmd_adopt_receipt cx i prev rid holder e r = Inr (res, r')"
  shows "micros cx r r'"
proof -
  define rc where "rc = \<lparr>rc_fence = ReceiptFence rid e, rc_holder = holder, rc_acquired = cx_sequence cx\<rparr>"
  from assms obtain c old where g: "au_runtime (authority cx)" "claim_at (r_state r) i = Some c"
    "status_of c \<in> {Received, Progressed, TestamentGenerated, TestamentAcknowledged, Validating}"
    "cl_receipt (so_lifecycle c) = Some old" and f: "rc_fence old = prev" "checked_add (fence_epoch prev) 1 = Some e"
    and g2: "rid \<noteq> 0" "holder \<noteq> 0" "\<not> receipt_allocated (r_state r) rid"
    and o: "ordinal_free r" "r' = push_delta cx (Some i) LA_ReceiptAdopted (FactReceipt rc)
      (r\<lparr>r_state := put_claim i (with_receipt rc c) (refence_open_set c (rc_fence rc) (r_state r))\<rparr>)"
    unfolding cmd_adopt_receipt_def rc_def Let_def with_receipt_def
    by (auto simp: is_zero_def)
  have "unat (fence_epoch (rc_fence rc)) = unat (fence_epoch (rc_fence old)) + 1"
    using f checked_add_one_unat by (fastforce simp: rc_def)
  with g g2 have "micro cx r (r\<lparr>r_state := put_claim i (with_receipt rc c) (refence_open_set c (rc_fence rc) (r_state r))\<rparr>)"
    by (intro micro.m_adopt) (auto simp: rc_def)
  then show ?thesis unfolding o(2) by (intro micros_emit [OF micros_one]) (use o in auto)
qed

section \<open>Work and evidence\<close>

lemma progress_micros:
  assumes "cmd_record_progress cx i fence msg r = Inr (res, r')"
  shows "micros cx r r'"
proof -
  from assms obtain c R where c: "claim_at (r_state r) i = Some c" "status_of c \<in> {Received, Progressed}"
    and R: "(if status_of c = Received then set_status cx i Progressed None else ret ()) r = Inr ((), R)"
    and out: "ordinal_free R" "r' = push_delta cx (Some i) LA_Progressed (FactProgress msg) R"
    unfolding cmd_record_progress_def by auto
  have "micros cx r R"
    using R c by (auto simp: lifecycle_edge_def if_Inr intro!: micros_status status_guard_plain split: if_splits)
  then show ?thesis unfolding out(2) by (intro micros_emit) (use out(1) in auto)
qed

lemma begin_set_micros:
  assumes "cmd_begin_evidence_set cx i fence e r = Inr (res, r')"
  shows "micros cx r r'"
proof -
  from assms obtain c rc where g: "claim_at (r_state r) i = Some c" "working c" "cl_receipt (so_lifecycle c) = Some rc"
    "rc_holder rc = principal cx" "e \<noteq> 0" "bm_get (st_evidence_sets (r_state r)) e = None"
    "cl_evidence_set (so_lifecycle c) = None"
    and out: "ordinal_free r" "r' = push_delta cx (Some i) LA_EvidenceOpened (FactEvidenceSet e)
       (r\<lparr>r_state := put_claim i (with_set e c) (put_set e (empty_set e i (rc_fence rc)) (r_state r))\<rparr>)"
    unfolding cmd_begin_evidence_set_def with_set_def
    by (auto simp: is_zero_def bm_contains_def working_def)
  from micro.m_open [OF g] show ?thesis
    unfolding out(2) by (intro micros_emit [OF micros_one]) (use out(1) in auto)
qed

text \<open>A created artifact is verified in the resulting state, whether it is new or stored already.\<close>

lemma create_artifact_micros:
  assumes "create_artifact cx new r = Inr (a, r')" "base (r_state r)"
  shows "micros cx r r' \<and> artifact_verified (r_state r') a
    \<and> (\<forall>x. artifact_verified (r_state r) x \<longrightarrow> artifact_verified (r_state r') x)
    \<and> st_claims (r_state r') = st_claims (r_state r) \<and> st_evidence_sets (r_state r') = st_evidence_sets (r_state r)
    \<and> st_validations (r_state r') = st_validations (r_state r) \<and> st_ledger (r_state r') = st_ledger (r_state r)"
  using assms(1)
proof (cases rule: create_artifact_cases)
  case (existing h i)
  with assms(2) show ?thesis by (auto simp: base_def artifact_index_def)
next
  case (new h att)
  from micro.m_artifact [OF new(1-5)] have "micro cx r r'" unfolding new(7) .
  moreover have "artifact_verified (r_state r') a" unfolding new by (simp add: artifact_verified_def artifact_row_def)
  moreover have "artifact_verified (r_state r) x \<longrightarrow> artifact_verified (r_state r') x" for x
    using new(3) unfolding new(7) by (auto simp: artifact_verified_def free_id_iff split: option.splits)
  ultimately show ?thesis unfolding new(7) by auto
qed

lemma stage_reference_micro:
  assumes "bm_get (st_evidence_sets (r_state r)) e = Some es" "\<not> es_closed es" "artifact_verified (r_state r) a"
    "a \<notin> set (es_artifacts es)"
  shows "micros cx r (r\<lparr>r_state := put_set e (es\<lparr>es_artifacts := es_artifacts es @ [a]\<rparr>) (r_state r)\<rparr>)"
  by (rule micros_one) (rule micro.m_stage [OF assms])

lemma attach_micros:
  assumes "cmd_attach_artifact cx i fence e new r = Inr (res, r')" "base (r_state r)"
  shows "micros cx r r'"
proof -
  from assms obtain es a R where es: "bm_get (st_evidence_sets (r_state r)) e = Some es" "\<not> es_closed es"
    and cr: "create_artifact cx new r = Inr (a, R)" and at: "attach_reference cx i e a R = Inr ((), r')"
    unfolding cmd_attach_artifact_def by auto
  note c = create_artifact_micros [OF cr assms(2)]
  have "micros cx R r'"
  proof (cases "a \<in> set (es_artifacts es)")
    case True
    with at es c show ?thesis by (auto simp: attach_reference_def)
  next
    case False
    with at es c have out: "ordinal_free R" "r' = push_delta cx (Some i) LA_ArtifactAttached (FactArtifact a)
        (R\<lparr>r_state := put_set e (es\<lparr>es_artifacts := es_artifacts es @ [a]\<rparr>) (r_state R)\<rparr>)"
      by (auto simp: attach_reference_def)
    from False es c have "micros cx R (R\<lparr>r_state := put_set e (es\<lparr>es_artifacts := es_artifacts es @ [a]\<rparr>) (r_state R)\<rparr>)"
      by (intro stage_reference_micro) auto
    then show ?thesis unfolding out(2) by (intro micros_emit) (use out(1) in auto)
  qed
  with c show ?thesis by auto
qed

lemma create_testament_micros:
  assumes "create_testament cx t content r = Inr (u, r')"
    "bm_get (st_evidence_sets (r_state r)) (tc_evidence_set content) = Some es"
    "es_claim es = tc_claim content" "\<not> es_closed es" "es_artifacts es = tc_artifacts content"
    "claim_at (r_state r) (tc_claim content) = Some c" "working c"
    "map_option rc_fence (cl_receipt (so_lifecycle c)) = Some (tc_receipt content)"
    "tc_ledger content = st_ledger (r_state r)"
  shows "\<exists>h. micros cx r r' \<and> testament_content_hash (cx_host cx) content = Inr h
    \<and> r_state r' = testament_written cx t content h es c (r_state r)"
proof -
  from assms(1,2,6) obtain h where g: "free_id (r_state r) t"
    "\<forall>a \<in> set (tc_artifacts content). artifact_verified (r_state r) a"
    "testament_content_hash (cx_host cx) content = Inr h"
    "bm_get (st_identities (r_state r)) (OK_Testament, h) = None"
    and out: "ordinal_free r" "r' = push_delta cx (Some (tc_claim content)) LA_TestamentGenerated (FactTestament t h)
        (r\<lparr>r_state := testament_written cx t content h es c (r_state r)\<rparr>)"
    by (auto simp: create_testament_Inr)
  from micro.m_testament [OF g assms(2-9)] have "micros cx r r'"
    unfolding out(2) by (intro micros_emit [OF micros_one]) (use out(1) in auto)
  with g show ?thesis unfolding out(2) by auto
qed

lemma testament_written_sel [simp]:
  "claim_at (testament_written cx t content h es c s) i =
     (if i = tc_claim content then Some (close_claim t content c) else claim_at s i)"
  "bm_get (st_testaments (testament_written cx t content h es c s)) j =
     (if j = t then Some (testament_row cx content h) else bm_get (st_testaments s) j)"
  "bm_get (st_evidence_sets (testament_written cx t content h es c s)) k =
     (if k = tc_evidence_set content then Some (es\<lparr>es_closed := True\<rparr>) else bm_get (st_evidence_sets s) k)"
  "st_validations (testament_written cx t content h es c s) = st_validations s"
  "st_runs (testament_written cx t content h es c s) = st_runs s"
  "st_artifacts (testament_written cx t content h es c s) = st_artifacts s"
  "st_monitors (testament_written cx t content h es c s) = st_monitors s"
  "st_ledger (testament_written cx t content h es c s) = st_ledger s"
  by (simp_all add: testament_written_def)

lemma close_micros:
  assumes "cmd_close_testament cx i fence t e manifest summary conf out r = Inr (res, r')"
  shows "micros cx r r'"
proof -
  let ?content = "\<lparr>tc_ledger = st_ledger (r_state r), tc_schema = SCHEMA, tc_claim = i, tc_receipt = fence,
           tc_evidence_set = e, tc_artifacts = manifest, tc_summary = summary,
           tc_confidence = conf, tc_outcome = out\<rparr>"
  from assms obtain c rc es R where c: "claim_at (r_state r) i = Some c" "working c"
    "cl_receipt (so_lifecycle c) = Some rc" "rc_fence rc = fence"
    and es: "bm_get (st_evidence_sets (r_state r)) e = Some es" "es_claim es = i" "\<not> es_closed es" "es_artifacts es = manifest"
    and cr: "create_testament cx t ?content r = Inr ((), R)"
    and st: "set_status cx i TestamentGenerated None R = Inr ((), r')"
    unfolding cmd_close_testament_def by (auto simp: working_def)
  from create_testament_micros [OF cr, of es c] c es obtain h where m: "micros cx r R"
    and R: "r_state R = testament_written cx t ?content h es c (r_state r)" by auto
  have "micros cx R r'"
    using st c(2) by (auto simp: R intro!: micros_status)
      (auto simp: status_guard_def close_claim_def lifecycle_edge_def working_def)
  with m show ?thesis by auto
qed

section \<open>Acknowledgement and validation\<close>

lemma receipt_idsD:
  "i \<in> set (receipt_ids s claim) \<Longrightarrow> \<exists>v. bm_get (st_validations s) i = Some v
     \<and> vc_claim (so_content v) = claim \<and> vc_kind (so_content v) = VK_Receipt"
  by (auto simp: receipt_ids_def bm_iter_get)

lemma receipt_pass_micros:
  assumes "receipt_pass cx claim target manifest i r = Inr (u, r')"
    "bm_get (st_validations (r_state r)) i = Some v" "vc_kind (so_content v) = VK_Receipt"
    "vc_claim (so_content v) = claim" "claim_at (r_state r) claim = Some c"
    "working c \<or> status_of c = TestamentAcknowledged" "\<not> cl_local_complete (so_lifecycle c)"
  shows "micros cx r r' \<and> st_claims (r_state r') = st_claims (r_state r)
    \<and> (\<forall>j w. bm_get (st_validations (r_state r)) j = Some w \<longrightarrow>
         (\<exists>w'. bm_get (st_validations (r_state r')) j = Some w' \<and> so_content w' = so_content w))"
proof (cases "\<exists>k \<in> set (bm_keys (st_runs (r_state r))). ri_validation k = i \<and> ri_target_hash k = target")
  case True
  with assms show ?thesis by (auto simp: receipt_pass_def list_ex_iff)
next
  case False
  with assms(1,2) obtain epoch rid where e: "checked_add (vl_latest_epoch (so_lifecycle v)) 1 = Some epoch"
    and rid: "rid = ValidationRunId i target PH_WholeWork epoch" and "ordinal_free r"
    and out: "r' = push_delta cx (Some claim) LA_ValidationVerdict (FactVerdict (receipt_verdict (cx_host cx) v rid manifest))
        (r\<lparr>r_state := put_validation i (with_epoch epoch v)
           (put_run rid (receipt_run (cx_host cx) claim v rid manifest) (r_state r))\<rparr>)"
    unfolding receipt_pass_def with_epoch_def Let_def by (auto simp: list_ex_iff if_Inr)
  have fresh: "\<forall>k \<in> set (bm_keys (st_runs (r_state r))). \<not> (ri_validation k = i \<and> ri_target_hash k = target)"
    using False by blast
  have "micro cx r (r\<lparr>r_state := put_validation i (with_epoch epoch v)
           (put_run rid (receipt_run (cx_host cx) claim v rid manifest) (r_state r))\<rparr>)"
    using micro.m_receipt_pass [OF assms(2,3) _ assms(6,7) fresh e rid, of cx manifest] assms(4,5) by simp
  then have "micros cx r r'"
    unfolding out by (intro micros_emit [OF micros_one]) (use \<open>ordinal_free r\<close> in auto)
  with assms(2) show ?thesis unfolding out by auto
qed

lemma receipt_passes_micros:
  assumes "receipt_passes cx claim target manifest r = Inr (u, r')"
    "claim_at (r_state r) claim = Some c" "working c \<or> status_of c = TestamentAcknowledged"
    "\<not> cl_local_complete (so_lifecycle c)"
  shows "micros cx r r' \<and> st_claims (r_state r') = st_claims (r_state r)"
proof -
  let ?ids = "set (receipt_ids (r_state r) claim)"
  let ?I = "\<lambda>R. st_claims (r_state R) = st_claims (r_state r) \<and>
    (\<forall>j \<in> ?ids. \<exists>v. bm_get (st_validations (r_state R)) j = Some v
       \<and> vc_claim (so_content v) = claim \<and> vc_kind (so_content v) = VK_Receipt)"
  have step: "micros cx R R' \<and> ?I R'" if i: "i \<in> ?ids" and I: "?I R"
    and run: "receipt_pass cx claim target manifest i R = Inr ((), R')" for i R R'
  proof -
    from bspec [OF conjunct2 [OF I] i] obtain v where v: "bm_get (st_validations (r_state R)) i = Some v"
      "vc_claim (so_content v) = claim" "vc_kind (so_content v) = VK_Receipt" by (elim exE conjE)
    from receipt_pass_micros [OF run v(1) v(3) v(2)] I assms(2-4) have m: "micros cx R R'"
      "st_claims (r_state R') = st_claims (r_state R)"
      "\<And>j w. bm_get (st_validations (r_state R)) j = Some w \<Longrightarrow>
         \<exists>w'. bm_get (st_validations (r_state R')) j = Some w' \<and> so_content w' = so_content w" by auto
    have "\<exists>v. bm_get (st_validations (r_state R')) j = Some v \<and> vc_claim (so_content v) = claim
        \<and> vc_kind (so_content v) = VK_Receipt" if "j \<in> ?ids" for j
      using bspec [OF conjunct2 [OF I] that] m(3) [of j] by fastforce
    with m(1,2) conjunct1 [OF I] show ?thesis by simp
  qed
  have loop: "\<forall>i \<in> ?ids. \<forall>R R'. ?I R \<longrightarrow>
      receipt_pass cx claim target manifest i R = Inr ((), R') \<longrightarrow> micros cx R R' \<and> ?I R'"
    by (intro ballI allI impI) (rule step)
  have init: "?I r" by (auto dest: receipt_idsD)
  from forR_micros [where I = ?I, OF loop assms(1) [unfolded receipt_passes_def with_state_Inr] init]
  show ?thesis by (elim conjE) (intro conjI)
qed

lemma acknowledge_micros:
  assumes "cmd_acknowledge_testament cx i tid r = Inr (res, r')" "base (r_state r)"
  shows "micros cx r r'"
proof -
  from assms obtain c t manifest where rt: "au_runtime (authority cx)"
    and c: "claim_at (r_state r) i = Some c" "status_of c = TestamentGenerated" "cl_testament (so_lifecycle c) = Some tid"
    "revision_free c" "ordinal_free r"
    and t: "bm_get (st_testaments (r_state r)) tid = Some t"
    and rp: "receipt_passes cx i (so_content_hash t) manifest
      (write_status cx i TestamentAcknowledged None c (r\<lparr>r_state := put_testament tid (acknowledged cx t) (r_state r)\<rparr>))
       = Inr ((), r')"
    unfolding cmd_acknowledge_testament_def acknowledge_def acknowledged_def by auto
  let ?R = "r\<lparr>r_state := put_testament tid (acknowledged cx t) (r_state r)\<rparr>"
  let ?S = "write_status cx i TestamentAcknowledged None c ?R"
  have 1: "micros cx r ?R" by (rule micros_one) (rule micro.m_acknowledge [OF rt t])
  have 2: "micros cx r ?S" using 1 c
    by (intro micros_status) (auto simp: status_guard_def lifecycle_edge_def)
  have "\<not> cl_local_complete (so_lifecycle c)" using base_open [OF assms(2) c(1)] c by (simp add: late_def)
  then have "micros cx ?S r'"
    using receipt_passes_micros [OF rp, of "advance_claim cx TestamentAcknowledged None c"] by simp
  with 2 show ?thesis by auto
qed

lemma begin_whole_micros:
  assumes "cmd_begin_whole_work cx i r = Inr (res, r')" "base (r_state r)"
  shows "micros cx r r'"
proof -
  from assms obtain c and t :: testament and manifest where
    c: "claim_at (r_state r) i = Some c" "status_of c = TestamentAcknowledged"
    "phase_complete (r_state r) i PH_Increment" "revision_free c" "ordinal_free r"
    and sch: "schedule_phase cx i PH_WholeWork (so_content_hash t) manifest
       (write_status cx i Validating None c r) = Inr ((), r')"
    unfolding cmd_begin_whole_work_def by auto
  have 1: "micros cx r (write_status cx i Validating None c r)" using c
    by (intro micros_status) (auto simp: status_guard_def lifecycle_edge_def)
  have "\<not> cl_local_complete (so_lifecycle c)" using base_open [OF assms(2) c(1)] c by (simp add: late_def)
  then have "micros cx (write_status cx i Validating None c r) r'"
    using schedule_phase_micros [OF sch, of "advance_claim cx Validating None c"] by (simp add: schedule_status_def)
  with 1 show ?thesis by auto
qed

lemma begin_increment_micros:
  assumes "cmd_begin_increment cx i vid target manifest r = Inr (res, r')" "base (r_state r)"
  shows "micros cx r r'"
proof -
  from assms obtain c v rid where c: "claim_at (r_state r) i = Some c"
    "status_of c \<in> {Received, Progressed, TestamentGenerated, TestamentAcknowledged}"
    and v: "bm_get (st_validations (r_state r)) vid = Some v" "vc_claim (so_content v) = i" "vc_phase (so_content v) = PH_Increment"
    and sch: "schedule cx vid target manifest r = Inr (rid, r')"
    unfolding cmd_begin_increment_def by auto
  have "\<not> cl_local_complete (so_lifecycle c)" using base_open [OF assms(2) c(1)] c by (auto simp: late_def)
  with schedule_micros [OF sch v(1), of c] c v show ?thesis by (simp add: schedule_status_def)
qed

lemma check_verdict_Inr:
  assumes "check_verdict cx verdict run v c r = Inr (u, r')"
  shows "r' = r \<and> run_final_verdict run = None \<and> \<not> (is_terminal (status_of c) \<and> vc_mode (so_content v) = MO_Required)
    \<and> verdict_state_ok (ri_phase (run_id run)) (status_of c) (vc_mode (so_content v))
    \<and> nth_opt (vc_handlers (so_content v)) (unat (run_handler_index run)) = Some (vr_handler verdict)
    \<and> unat (vr_attempt verdict) = length (run_attempts run) \<and> vr_manifest verdict = run_manifest run
    \<and> (\<forall>a \<in> set (vr_evidence verdict). artifact_verified (r_state r) a)"
  using assms unfolding check_verdict_def check_evidence_def
  by (auto simp: if_Inr split: prod.splits dest!: u32_of_len_Some)

lemma advance_run_Inr:
  assumes "advance_run cx verdict run v r = Inr (run', r')"
  shows "run' = next_run verdict run v \<and> next_index_fits verdict run v
    \<and> micros cx r r' \<and> r_state r' = r_state r \<and> r_deltas r' = r_deltas r"
proof -
  let ?next = "next_handler (so_content v) (run_quality_phase run) (unat (run_handler_index run) + 1) (vr_value verdict)"
  from assms have eq: "(case ?next of
       None \<Rightarrow> ret (run\<lparr>run_attempts := run_attempts run @ [verdict], run_final_verdict := Some (vr_value verdict)\<rparr>)
     | Some n \<Rightarrow>
         bindR (ok_or (nth_opt (vc_handlers (so_content v)) n) EC_InvalidHandler) (\<lambda>handler.
         bindR (ok_or (u32_of_len n) EC_InvalidHandler) (\<lambda>index.
         bindR (ok_or (u32_of_len (Suc (length (run_attempts run)))) EC_Capacity) (\<lambda>attempt.
         thenR (effectR (ExecuteValidation (run_id run) handler (run_evaluator run) attempt
           (run_manifest run) (hd_agentic handler \<and> vc_quality_bar (so_content v) \<noteq> None)))
         (ret (run\<lparr>run_attempts := run_attempts run @ [verdict], run_handler_index := index,
            run_quality_phase := (hd_agentic handler \<and> vc_quality_bar (so_content v) \<noteq> None)\<rparr>)))))) r = Inr (run', r')"
    unfolding advance_run_def Let_def by (auto dest!: usize_add_Some cong: option.case_cong)
  show ?thesis
  proof (cases ?next)
    case None
    with eq show ?thesis by (simp add: next_run_def next_index_fits_def)
  next
    case (Some n)
    with eq obtain e where r': "r' = r\<lparr>r_effects := r_effects r @ [e]\<rparr>"
      and "run' = next_run verdict run v" "next_index_fits verdict run v"
      by (auto simp: next_run_def next_index_fits_def nth_opt_def u32_of_len_def split: if_splits)
    then show ?thesis by (auto intro!: micros_one micro.m_effect)
  qed
qed

lemma verdict_micros:
  assumes "record_verdict cx verdict r = Inr (res, r')"
  shows "micros cx r r'"
proof -
  from assms obtain run v c where run: "bm_get (st_runs (r_state r)) (vr_run verdict) = Some run"
    and v: "bm_get (st_validations (r_state r)) (ri_validation (run_id run)) = Some v"
    and c: "claim_at (r_state r) (run_claim run) = Some c"
    and ev: "vr_evaluator verdict = principal cx" "run_evaluator run = principal cx" "\<not> control_fenced (status_of c)"
    and rest: "(case List.find (\<lambda>old. vr_attempt old = vr_attempt verdict) (run_attempts run) of
        Some old \<Rightarrow>
          if old = verdict then ret (ValidationResult (run_id run)) else fail (Refuse EC_ConflictingVerdict)
      | None \<Rightarrow> thenR (check_verdict cx verdict run v c) (accept_verdict cx verdict run v)) r = Inr (res, r')"
    unfolding record_verdict_def by auto
  show ?thesis
  proof (cases "List.find (\<lambda>old. vr_attempt old = vr_attempt verdict) (run_attempts run)")
    case (Some old)
    with rest show ?thesis by (auto simp: if_Inr)
  next
    case None
    with rest obtain r1 where chk: "check_verdict cx verdict run v c r = Inr ((), r1)"
      and acc: "accept_verdict cx verdict run v r1 = Inr (res, r')" by auto
    note g = check_verdict_Inr [OF chk]
    then have r1: "r1 = r" and guard: "verdict_guard cx (r_state r) verdict run v c"
      using ev by (simp_all add: verdict_guard_def)
    let ?run = "next_run verdict run v"
    from acc obtain run1 R where adv: "advance_run cx verdict run v r = Inr (run1, R)"
      unfolding accept_verdict_def r1 by auto
    note a = advance_run_Inr [OF adv]
    define S where "S = push_delta cx (Some (run_claim run)) LA_ValidationVerdict (FactVerdict verdict)
       (R\<lparr>r_state := put_run (run_id run) ?run (r_state R)\<rparr>)"
    from acc a have "ordinal_free R"
      and fin: "(if ri_phase (run_id run) = PH_Admission \<and> vc_mode (so_content v) = MO_Required
               \<and> phase_complete (r_state S) (run_claim run) PH_Admission
               \<and> \<not> phase_passed (r_state S) (run_claim run) PH_Admission
            then set_status cx (run_claim run) PostFailed None else ret ()) S = Inr ((), r')"
      unfolding accept_verdict_def r1 S_def using adv by auto
    have "micro cx R (R\<lparr>r_state := put_run (run_id run) ?run (r_state R)\<rparr>)"
      by (rule micro.m_verdict [of _ _ _ _ c]) (use run v c guard a in auto)
    with a have S: "micros cx r S" unfolding S_def
      by (intro micros_emit) (use \<open>ordinal_free R\<close> in \<open>auto intro: micros_snoc\<close>)
    have "status_of c = Posted" if "ri_phase (run_id run) = PH_Admission" "vc_mode (so_content v) = MO_Required"
      using g that by (auto simp: verdict_state_ok_def phase_active_def)
    moreover have "claim_at (r_state S) (run_claim run) = Some c" using a c by (simp add: S_def)
    ultimately show ?thesis using fin S
      by (auto simp: if_Inr lifecycle_edge_def intro!: micros_status status_guard_plain)
  qed
qed

lemma fenced_verdict_micros: "cmd_fenced_verdict cx verdict fence r = Inr (res, r') \<Longrightarrow> micros cx r r'"
  unfolding cmd_fenced_verdict_def by (auto intro: verdict_micros)

section \<open>Cancellation and propagation\<close>

lemma cancel_visit_micros:
  assumes "cancel_visit cx root st i r = Inr (u, r')" "control_fenced st" "st \<noteq> DependencyFailed"
  shows "micros cx r r'"
proof -
  from assms(1) obtain c where c: "claim_at (r_state r) i = Some c"
    and run: "(if is_active (status_of c) then set_status cx i (if i = root then st else Cancelled) (Some root)
       else ret ()) r = Inr (u, r')"
    unfolding cancel_visit_def by auto
  show ?thesis
  proof (cases "is_terminal (status_of c)")
    case True
    with run show ?thesis by simp
  next
    case False
    have "status_guard (r_state r) i c (if i = root then st else Cancelled) (Some root)"
      using assms(2,3) False by (intro status_guard_plain) (auto simp: lifecycle_edge_def control_fenced_def)
    with run False c show ?thesis by (auto intro!: micros_status)
  qed
qed

lemma cancel_loop_micros:
  assumes "cancel_loop cx root st seen queue r = Inr (u, r')" "control_fenced st" "st \<noteq> DependencyFailed"
  shows "micros cx r r'"
  using assms
proof (induction cx root st seen queue r rule: cancel_loop.induct)
  case (2 cx root st seen i queue r)
  show ?case
  proof (cases "bs_contains seen i")
    case True
    with 2 show ?thesis by simp
  next
    case False
    with "2.prems"(1) have lim: "\<not> bm_len (bs_insert i seen) > lim_max_graph_visits (cx_limits cx)" by (auto split: if_splits)
    with False "2.prems"(1) obtain r1 where v: "cancel_visit cx root st i r = Inr ((), r1)"
      and rec: "cancel_loop cx root st (bs_insert i seen) (rev (caused_children (r_state r) i) @ queue) r1 = Inr (u, r')"
      by (auto split: sum.splits)
    from "2.IH"(2) [OF False lim v _ rec "2.prems"(2,3)] cancel_visit_micros [OF v "2.prems"(2,3)]
    show ?thesis by auto
  qed
qed simp

lemma cancel_tree_micros:
  "cancel_tree cx root st r = Inr (u, r') \<Longrightarrow> st \<in> {Cancelled, Revoked, Superseded, Expired, Deadlocked} \<Longrightarrow> micros cx r r'"
  unfolding cancel_tree_def by (erule cancel_loop_micros) (auto simp: control_fenced_def)

lemma fold_min_in: "fold min xs x \<in> insert x (set xs)" for x :: "'a::linorder"
  by (induction xs arbitrary: x) (auto simp: min_def)

lemma min_opt_in: "min_opt xs = Some x \<Longrightarrow> x \<in> set xs"
  using fold_min_in by (fastforce simp: min_opt_def split: list.splits)

lemma failed_dependency_Some:
  assumes "failed_dependency s c = Some (q, d)"
  shows "d \<in> set (dependencies (so_content c) RK_DependsOn) \<and> failed_at s d"
  using min_opt_in [OF assms [unfolded failed_dependency_def]]
  by (auto simp: set_filter_map failed_at_def split: option.splits if_splits)

lemma dependency_scan_changes:
  assumes "dependency_scan s limit cs v ch = Inr (v', ch')"
  shows "\<forall>(i, w) \<in> set ch'. (i, w) \<in> set ch \<or>
    (\<exists>c. (i, c) \<in> set cs \<and> \<not> is_terminal (status_of c)
       \<and> w \<in> set (dependencies (so_content c) RK_DependsOn) \<and> failed_at s w)"
  using assms
proof (induction cs arbitrary: v ch)
  case (Cons p cs)
  obtain i c where p: "p = (i, c)" by (cases p)
  from Cons.prems obtain v1 ch1 where rec: "dependency_scan s limit cs v1 ch1 = Inr (v', ch')"
    and ch1: "ch1 = ch \<or> (\<exists>q w. \<not> is_terminal (status_of c) \<and> failed_dependency s c = Some (q, w) \<and> ch1 = ch @ [(i, w)])"
    by (auto simp: p split: option.splits if_splits)
  have "(j, w) \<in> set ch \<or> (j = i \<and> \<not> is_terminal (status_of c)
      \<and> w \<in> set (dependencies (so_content c) RK_DependsOn) \<and> failed_at s w)" if "(j, w) \<in> set ch1" for j w
    using ch1 that by (auto dest: failed_dependency_Some)
  with Cons.IH [OF rec] show ?case unfolding p by fastforce
qed simp

definition doomed :: "state \<Rightarrow> claim_id \<times> claim_id \<Rightarrow> bool" where
  "doomed s p \<longleftrightarrow> (\<exists>c. claim_at s (fst p) = Some c \<and> snd p \<in> set (dependencies (so_content c) RK_DependsOn))
     \<and> failed_at s (snd p)"

lemma doomed_advance:
  assumes "doomed s p" "claim_at s i = Some c" "\<not> is_terminal (status_of c)"
  shows "doomed (put_claim i (advance_claim cx st w c) s) p"
  using assms by (auto simp: doomed_def failed_at_def)

lemma fail_dependents_micros:
  assumes "fail_dependents cx changes r = Inr (u, r')" "\<forall>p \<in> set changes. doomed (r_state r) p"
  shows "micros cx r r'"
proof -
  let ?I = "\<lambda>R. \<forall>p \<in> set changes. doomed (r_state R) p"
  have "micros cx R R' \<and> ?I R'" if p: "p \<in> set changes" and I: "?I R"
    and run: "(case p of (i, w) \<Rightarrow> set_status cx i DependencyFailed (Some w)) R = Inr ((), R')" for p R R'
  proof -
    obtain i w where iw: "p = (i, w)" by (cases p)
    from run iw obtain c where c: "claim_at (r_state R) i = Some c" "\<not> is_terminal (status_of c)" "revision_free c"
      "ordinal_free R" and R': "R' = write_status cx i DependencyFailed (Some w) c R" by auto
    have "status_guard (r_state R) i c DependencyFailed (Some w)"
      using bspec [OF I p] c iw by (auto simp: doomed_def status_guard_def lifecycle_edge_def control_fenced_def)
    then have "micros cx R R'" unfolding R' using c by (intro micros_status) auto
    moreover have "?I R'" unfolding R' write_status_state using I c by (intro ballI doomed_advance) auto
    ultimately show ?thesis by blast
  qed
  then have loop: "\<forall>p \<in> set changes. \<forall>R R'. ?I R \<longrightarrow>
      (case p of (i, w) \<Rightarrow> set_status cx i DependencyFailed (Some w)) R = Inr ((), R') \<longrightarrow> micros cx R R' \<and> ?I R'"
    by (intro ballI allI impI) assumption
  from forR_micros [where I = ?I, OF loop assms(1) [unfolded fail_dependents_def] assms(2)]
  show ?thesis by (rule conjunct1)
qed

lemma propagate_failures_micros:
  assumes "propagate_failures cx v r = Inr (v', r')"
  shows "micros cx r r'"
  using assms
proof (induction cx v r rule: propagate_failures.induct)
  case (1 cx v r)
  from "1.prems" obtain v1 changes where scan: "dependency_scan (r_state r) (lim_max_graph_visits (cx_limits cx))
        (bm_iter (st_claims (r_state r))) v [] = Inr (v1, changes)"
    by (subst (asm) propagate_failures.simps) (auto split: sum.splits)
  show ?case
  proof (cases "changes = []")
    case True
    with "1.prems" scan show ?thesis by (subst (asm) propagate_failures.simps) auto
  next
    case False
    with "1.prems" scan obtain r1 where f: "fail_dependents cx changes r = Inr ((), r1)"
      and rec: "propagate_failures cx v1 r1 = Inr (v', r')"
      by (subst (asm) propagate_failures.simps) (auto split: sum.splits)
    have "\<forall>p \<in> set changes. doomed (r_state r) p"
      using dependency_scan_changes [OF scan] by (fastforce simp: doomed_def bm_iter_get)
    then have "micros cx r r1" by (rule fail_dependents_micros [OF f])
    moreover have "micros cx r1 r'" by (rule "1.IH" [OF scan _ False f _ rec]) simp_all
    ultimately show ?thesis by auto
  qed
qed

lemma unreleased_child_iff:
  "unreleased_child s i \<longleftrightarrow> (\<exists>j c. claim_at s j = Some c \<and> cause (so_content c) = Some (CauseClaim i)
     \<and> \<not> cl_released (so_lifecycle c))"
  by (auto simp: unreleased_child_def list_ex_iff set_bm_values ran_def)

lemma release_claim_Inr [simp, red_inv]:
  "release_claim i r = Inr (u, r') \<longleftrightarrow>
     (\<exists>c. claim_at (r_state r) i = Some c \<and> r' = r\<lparr>r_state := put_claim i (released c) (r_state r)\<rparr>)"
  by (auto simp: release_claim_def released_def)

lemma releasableD:
  "i \<in> set (releasable s) \<longleftrightarrow> (\<exists>c. claim_at s i = Some c \<and> is_terminal (status_of c)
     \<and> \<not> cl_released (so_lifecycle c) \<and> \<not> unreleased_child s i)"
  by (force simp: releasable_def bm_iter_get [symmetric])

lemma release_claims_micros:
  assumes "forR release_claim ids r = Inr (u, r')"
    "\<forall>i \<in> set ids. \<exists>c. claim_at (r_state r) i = Some c \<and> is_terminal (status_of c) \<and> \<not> unreleased_child (r_state r) i"
  shows "micros cx r r'"
proof -
  let ?I = "\<lambda>R. \<forall>i \<in> set ids. \<exists>c. claim_at (r_state R) i = Some c \<and> is_terminal (status_of c)
    \<and> \<not> unreleased_child (r_state R) i"
  have "micros cx R R' \<and> ?I R'" if i: "i \<in> set ids" and I: "?I R" and run: "release_claim i R = Inr ((), R')" for i R R'
  proof -
    from run obtain c where c: "claim_at (r_state R) i = Some c"
      and R': "R' = R\<lparr>r_state := put_claim i (released c) (r_state R)\<rparr>" by auto
    from bspec [OF I i] c have "micro cx R R'" unfolding R' by (intro micro.m_release) auto
    moreover have "?I R'"
    proof
      fix j assume "j \<in> set ids"
      with I obtain d where d: "claim_at (r_state R) j = Some d" "is_terminal (status_of d)"
        "\<not> unreleased_child (r_state R) j" by blast
      have "\<not> unreleased_child (r_state R') j"
        using d(3) c unfolding R' unreleased_child_iff by (auto simp: so_lifecycle_update split: if_splits)
      then show "\<exists>c. claim_at (r_state R') j = Some c \<and> is_terminal (status_of c) \<and> \<not> unreleased_child (r_state R') j"
        using d c unfolding R' by (auto simp: so_lifecycle_update)
    qed
    ultimately show ?thesis by (blast intro: micros_one)
  qed
  then have loop: "\<forall>i \<in> set ids. \<forall>R R'. ?I R \<longrightarrow> release_claim i R = Inr ((), R') \<longrightarrow> micros cx R R' \<and> ?I R'"
    by (intro ballI allI impI) assumption
  from forR_micros [where I = ?I, OF loop assms] show ?thesis by (rule conjunct1)
qed

definition monitor_due :: "state \<Rightarrow> monitor \<Rightarrow> bool" where
  "monitor_due s m \<longleftrightarrow> (\<exists>c. claim_at s (mon_owner m) = Some c
     \<and> (cl_released (so_lifecycle c) \<or> (\<forall>p \<in> set (bm_keys (mon_roots m)). wait_holds s p)))"

lemma released_monitors_Inr:
  assumes "released_monitors s ms = Inr out"
  shows "\<forall>(i, ow) \<in> set out. \<exists>m. (i, m) \<in> set ms \<and> mon_owner m = ow \<and> mon_released m = None \<and> monitor_due s m"
    and "distinct (map fst ms) \<Longrightarrow> distinct (map fst out)"
    and "\<forall>(i, m) \<in> set ms. mon_released m = None \<longrightarrow> monitor_due s m \<longrightarrow> (i, mon_owner m) \<in> set out"
proof -
  have all: "(\<forall>(i, ow) \<in> set out. \<exists>m. (i, m) \<in> set ms \<and> mon_owner m = ow \<and> mon_released m = None \<and> monitor_due s m)
    \<and> (distinct (map fst ms) \<longrightarrow> distinct (map fst out)) \<and> fst ` set out \<subseteq> fst ` set ms
    \<and> (\<forall>(i, m) \<in> set ms. mon_released m = None \<longrightarrow> monitor_due s m \<longrightarrow> (i, mon_owner m) \<in> set out)"
    using assms
  proof (induction ms arbitrary: out)
    case (Cons p ms)
    obtain i m where p: "p = (i, m)" by (cases p)
    show ?case
    proof (cases "mon_released m = None")
      case False
      with Cons.prems p have "released_monitors s ms = Inr out" by simp
      from Cons.IH [OF this] False p show ?thesis by fastforce
    next
      case True
      with Cons.prems p obtain ow rest where ow: "claim_at s (mon_owner m) = Some ow"
        and rest: "released_monitors s ms = Inr rest"
        and out: "out = (if cl_released (so_lifecycle ow) \<or> list_all (wait_holds s) (bm_keys (mon_roots m))
                      then (i, mon_owner m) # rest else rest)"
        by (auto split: option.splits sum.splits)
      have due: "monitor_due s m \<longleftrightarrow> cl_released (so_lifecycle ow) \<or> list_all (wait_holds s) (bm_keys (mon_roots m))"
        using ow by (simp add: monitor_due_def list_all_iff)
      note IH = Cons.IH [OF rest]
      have "\<exists>m'. (j, m') \<in> set (p # ms) \<and> mon_owner m' = ow' \<and> mon_released m' = None \<and> monitor_due s m'"
        if "(j, ow') \<in> set out" for j ow'
      proof (cases "(j, ow') \<in> set rest")
        case True
        with conjunct1 [OF IH] show ?thesis by auto
      next
        case False
        with that True out due p show ?thesis by (auto split: if_splits)
      qed
      moreover have "(j, mon_owner m') \<in> set out"
        if "(j, m') \<in> set (p # ms)" "mon_released m' = None" "monitor_due s m'" for j m'
        using that due p conjunct2 [OF conjunct2 [OF conjunct2 [OF IH]]] by (auto simp: out)
      moreover have "fst ` set out \<subseteq> fst ` set (p # ms)" "distinct (map fst (p # ms)) \<longrightarrow> distinct (map fst out)"
        using IH by (auto simp: out p)
      ultimately show ?thesis by blast
    qed
  qed simp
  show "\<forall>(i, ow) \<in> set out. \<exists>m. (i, m) \<in> set ms \<and> mon_owner m = ow \<and> mon_released m = None \<and> monitor_due s m"
    by (rule conjunct1 [OF all])
  show "distinct (map fst ms) \<Longrightarrow> distinct (map fst out)"
    using conjunct1 [OF conjunct2 [OF all]] by (rule mp)
  show "\<forall>(i, m) \<in> set ms. mon_released m = None \<longrightarrow> monitor_due s m \<longrightarrow> (i, mon_owner m) \<in> set out"
    by (rule conjunct2 [OF conjunct2 [OF conjunct2 [OF all]]])
qed

lemma wait_holds_cong: "st_claims s = st_claims s' \<Longrightarrow> wait_holds s p = wait_holds s' p"
  by (cases p) (simp_all add: wait_holds_def)

lemma monitor_due_cong: "st_claims s = st_claims s' \<Longrightarrow> monitor_due s m = monitor_due s' m"
  using wait_holds_cong [of s s'] by (simp add: monitor_due_def)

lemma release_monitor_Inr [simp, red_inv]:
  "release_monitor cx (i, ow) r = Inr (u, r') \<longleftrightarrow>
     (\<exists>m R. bm_get (st_monitors (r_state r)) i = Some m \<and> ordinal_free r
        \<and> R = push_delta cx (Some ow) LA_ScopeReleased (FactScope i)
            (r\<lparr>r_state := put_monitor i (m\<lparr>mon_released := Some (cx_sequence cx)\<rparr>) (r_state r)\<rparr>)
        \<and> r' = R\<lparr>r_effects := r_effects R @ [MonitorReleased i]\<rparr>)"
  by (auto simp: release_monitor_def)

lemma release_monitors_micros:
  assumes "forR (release_monitor cx) ms r = Inr (u, r')" "distinct (map fst ms)"
    "\<forall>(i, ow) \<in> set ms. \<exists>m. bm_get (st_monitors (r_state r)) i = Some m \<and> mon_released m = None
       \<and> monitor_due (r_state r) m"
  shows "micros cx r r'"
  using assms
proof (induction ms arbitrary: r)
  case (Cons p ms)
  obtain i ow where p: "p = (i, ow)" by (cases p)
  from Cons.prems(3) p obtain m where m: "bm_get (st_monitors (r_state r)) i = Some m" "mon_released m = None"
    "monitor_due (r_state r) m" by auto
  let ?m = "m\<lparr>mon_released := Some (cx_sequence cx)\<rparr>"
  let ?R = "push_delta cx (Some ow) LA_ScopeReleased (FactScope i) (r\<lparr>r_state := put_monitor i ?m (r_state r)\<rparr>)"
  let ?R1 = "?R\<lparr>r_effects := r_effects ?R @ [MonitorReleased i]\<rparr>"
  from Cons.prems(1) m(1) p have "ordinal_free r" and rec: "forR (release_monitor cx) ms ?R1 = Inr (u, r')"
    by auto
  from m have "micro cx r (r\<lparr>r_state := put_monitor i ?m (r_state r)\<rparr>)"
    by (auto simp: monitor_due_def intro!: micro.m_release_monitor)
  then have "micros cx r ?R1"
    by (intro micros_effect micros_emit [OF micros_one]) (use \<open>ordinal_free r\<close> in auto)
  moreover have "micros cx ?R1 r'"
  proof (rule Cons.IH [OF rec])
    show "distinct (map fst ms)" using Cons.prems(2) by simp
    have "i \<notin> fst ` set ms" using Cons.prems(2) p by simp
    moreover have "monitor_due (r_state ?R1) n = monitor_due (r_state r) n" for n
      by (rule monitor_due_cong) simp
    ultimately show "\<forall>(j, ow) \<in> set ms. \<exists>m. bm_get (st_monitors (r_state ?R1)) j = Some m \<and> mon_released m = None
       \<and> monitor_due (r_state ?R1) m"
      using Cons.prems(3) p by (fastforce simp: image_iff)
  qed
  ultimately show ?case by auto
qed simp

text \<open>The three phases of a release round.\<close>

lemma release_round_Inr:
  assumes "release_round cx r = Inr (changed, r')"
  obtains r1 r2 changed1 ms where
    "satisfy_all cx (bm_keys (tracked_fixpoint (r_state r))) False r = Inr (changed1, r1)"
    "forR release_claim (releasable (r_state r1)) r1 = Inr ((), r2)"
    "released_monitors (r_state r2) (bm_iter (st_monitors (r_state r2))) = Inr ms"
    "forR (release_monitor cx) ms r2 = Inr ((), r')"
    "changed \<longleftrightarrow> changed1 \<or> releasable (r_state r1) \<noteq> [] \<or> ms \<noteq> []"
proof -
  from assms obtain changed1 r1 where 1: "satisfy_all cx (bm_keys (tracked_fixpoint (r_state r))) False r = Inr (changed1, r1)"
    and a: "thenR (forR release_claim (releasable (r_state r1)))
     (with_state (\<lambda>s2.
     case released_monitors s2 (bm_iter (st_monitors s2)) of
       Inl e \<Rightarrow> fail e
     | Inr ms \<Rightarrow>
         thenR (forR (release_monitor cx) ms)
         (ret (changed1 \<or> releasable (r_state r1) \<noteq> [] \<or> ms \<noteq> [])))) r1 = Inr (changed, r')"
    unfolding release_round_def Let_def by auto
  from a obtain r2 where 2: "forR release_claim (releasable (r_state r1)) r1 = Inr ((), r2)"
    and b: "(case released_monitors (r_state r2) (bm_iter (st_monitors (r_state r2))) of
       Inl e \<Rightarrow> fail e
     | Inr ms \<Rightarrow>
         thenR (forR (release_monitor cx) ms)
         (ret (changed1 \<or> releasable (r_state r1) \<noteq> [] \<or> ms \<noteq> []))) r2 = Inr (changed, r')"
    unfolding thenR_Inr with_state_Inr by blast
  from b obtain ms where 3: "released_monitors (r_state r2) (bm_iter (st_monitors (r_state r2))) = Inr ms"
    by (auto split: sum.splits)
  with b have 4: "forR (release_monitor cx) ms r2 = Inr ((), r')"
    "changed \<longleftrightarrow> changed1 \<or> releasable (r_state r1) \<noteq> [] \<or> ms \<noteq> []" by auto
  from that [OF 1 2 3 4] show thesis .
qed

lemma bm_iter_distinct: "distinct (map fst (bm_iter m))"
  using bm_keys_distinct [of m] by (simp add: bm_keys_def)

lemma release_round_micros:
  assumes "release_round cx r = Inr (changed, r')"
  shows "micros cx r r'"
  using assms
proof (cases rule: release_round_Inr)
  case (1 r1 r2 changed1 ms)
  have "micros cx r r1" by (rule micros_one) (rule micro.m_satisfy [OF 1(1)])
  moreover have "micros cx r1 r2"
    by (rule release_claims_micros [OF 1(2)]) (auto simp: releasableD)
  moreover have "micros cx r2 r'"
  proof (rule release_monitors_micros [OF 1(4)])
    show "distinct (map fst ms)" by (rule released_monitors_Inr(2) [OF 1(3) bm_iter_distinct])
    show "\<forall>(i, ow) \<in> set ms. \<exists>m. bm_get (st_monitors (r_state r2)) i = Some m \<and> mon_released m = None
       \<and> monitor_due (r_state r2) m"
      using released_monitors_Inr(1) [OF 1(3)] by (fastforce simp: bm_iter_get)
  qed
  ultimately show ?thesis by auto
qed

lemma propagate_releases_micros:
  assumes "propagate_releases cx v r = Inr (u, r')"
  shows "micros cx r r'"
  using assms
proof (induction cx v r rule: propagate_releases.induct)
  case (1 cx v r)
  from "1.prems" obtain v1 changed r1 where rv: "round_visits cx v (r_state r) = Some v1"
    and rr: "release_round cx r = Inr (changed, r1)"
    and rest: "(if changed then propagate_releases cx v1 r1 else Inr ((), r1)) = Inr (u, r')"
    by (subst (asm) propagate_releases.simps) (auto split: option.splits sum.splits)
  from release_round_micros [OF rr] have m: "micros cx r r1" .
  show ?case
  proof (cases changed)
    case True
    with rest have "propagate_releases cx v1 r1 = Inr (u, r')" by simp
    from "1.IH" [OF rv rr _ True this] m show ?thesis by auto
  next
    case False
    with rest m show ?thesis by auto
  qed
qed

lemma propagate_micros: "propagate cx r = Inr (u, r') \<Longrightarrow> micros cx r r'"
  unfolding propagate_def using propagate_failures_micros propagate_releases_micros by fastforce

section \<open>Completion and failure\<close>

lemma complete_micros:
  assumes "cmd_complete_whole_work cx i r = Inr (res, r')"
  shows "micros cx r r'"
proof -
  from assms obtain c vd R where c: "claim_at (r_state r) i = Some c" "status_of c = Validating"
    "\<not> cl_local_complete (so_lifecycle c)" and agg: "aggregate (r_state r) i = Some vd"
    and R: "(case vd of
              VV_Pass \<Rightarrow> complete_local cx i
            | VV_Fail \<Rightarrow> set_status cx i ValidationFailed None
            | VV_Error \<Rightarrow> set_status cx i ValidationErrored None
            | VV_Incomplete \<Rightarrow> set_status cx i ValidationIncomplete None) r = Inr ((), R)"
    and p: "propagate cx R = Inr ((), r')"
    unfolding cmd_complete_whole_work_def by (auto split: option.splits)
  have edge: "status_guard (r_state r) i c st None"
    if "st \<in> {ValidationFailed, ValidationErrored, ValidationIncomplete}"
      "st = ValidationFailed \<longrightarrow> vd = VV_Fail" "st = ValidationErrored \<longrightarrow> vd = VV_Error"
      "st = ValidationIncomplete \<longrightarrow> vd = VV_Incomplete" for st
    using that c agg by (auto simp: status_guard_def lifecycle_edge_def)
  have "micros cx r R"
  proof (cases vd)
    case VV_Pass
    with R c have out: "ordinal_free r" "R = push_delta cx (Some i) LA_LocalCompleted FactLocalCompletion
       (r\<lparr>r_state := put_claim i (completed c) (r_state r)\<rparr>)"
      by (auto simp: complete_local_def completed_def)
    from micro.m_complete [OF c(1,2) _ c(3)] agg VV_Pass show ?thesis
      unfolding out(2) by (intro micros_emit [OF micros_one]) (use out(1) in auto)
  qed (use R c in \<open>auto intro!: micros_status edge\<close>)
  with propagate_micros [OF p] show ?thesis by auto
qed

lemma fail_post_micros: "cmd_fail_post cx i a r = Inr (res, r') \<Longrightarrow> micros cx r r'"
  unfolding cmd_fail_post_def
  by (auto intro!: micros_status status_guard_plain simp: lifecycle_edge_def)

lemma fail_receipt_micros: "cmd_fail_receipt cx i a r = Inr (res, r') \<Longrightarrow> micros cx r r'"
  unfolding cmd_fail_receipt_def
  by (auto intro!: micros_status status_guard_plain simp: lifecycle_edge_def)

lemma open_failure_set_micros:
  assumes "open_failure_set i fence e r = Inr (u, r')" "au_runtime (authority cx)" "claim_at (r_state r) i = Some c"
    "working c" "cl_receipt (so_lifecycle c) = Some rc" "fence = rc_fence rc"
  shows "micros cx r r' \<and> (\<exists>es. bm_get (st_evidence_sets (r_state r')) e = Some es \<and> es_claim es = i \<and> \<not> es_closed es)
    \<and> st_claims (r_state r') = st_claims (r_state r) \<and> st_artifacts (r_state r') = st_artifacts (r_state r)
    \<and> st_ledger (r_state r') = st_ledger (r_state r)"
proof (cases "bm_get (st_evidence_sets (r_state r)) e")
  case None
  with assms(1) have r': "r' = r\<lparr>r_state := put_set e (empty_set e i fence) (r_state r)\<rparr>"
    by (auto simp: open_failure_set_def)
  have "micro cx r r'" unfolding r' assms(6) by (rule micro.m_open_failure [OF assms(2-5) None])
  then show ?thesis by (auto simp: r' empty_set_def intro: micros_one)
next
  case (Some es)
  with assms(1) show ?thesis by (auto simp: open_failure_set_def)
qed

lemma stage_failure_micros:
  assumes "stage_failure e a r = Inr (as, r')" "bm_get (st_evidence_sets (r_state r)) e = Some es" "\<not> es_closed es"
    "artifact_verified (r_state r) a"
  shows "micros cx r r' \<and> (\<exists>es'. bm_get (st_evidence_sets (r_state r')) e = Some es' \<and> es_claim es' = es_claim es
      \<and> \<not> es_closed es' \<and> es_artifacts es' = as)
    \<and> st_claims (r_state r') = st_claims (r_state r) \<and> st_ledger (r_state r') = st_ledger (r_state r)"
proof (cases "a \<in> set (es_artifacts es)")
  case True
  with assms show ?thesis by (auto simp: stage_failure_def)
next
  case False
  with assms(1,2) have out: "r' = r\<lparr>r_state := put_set e (es\<lparr>es_artifacts := es_artifacts es @ [a]\<rparr>) (r_state r)\<rparr>"
    "as = es_artifacts es @ [a]" by (auto simp: stage_failure_def)
  from stage_reference_micro [OF assms(2-4) False] show ?thesis using assms(3) unfolding out by auto
qed

lemma close_failed_micros:
  assumes "close_failed cx i tid content r = Inr (res, r')" "au_runtime (authority cx)"
    "bm_get (st_evidence_sets (r_state r)) (tc_evidence_set content) = Some es"
    "es_claim es = i" "\<not> es_closed es" "es_artifacts es = tc_artifacts content" "tc_claim content = i"
    "claim_at (r_state r) i = Some c" "working c" "\<not> cl_local_complete (so_lifecycle c)"
    "map_option rc_fence (cl_receipt (so_lifecycle c)) = Some (tc_receipt content)"
    "tc_ledger content = st_ledger (r_state r)"
  shows "micros cx r r'"
proof -
  from assms(1) obtain h manifest R where h: "testament_content_hash (cx_host cx) content = Inr h"
    and cr: "create_testament cx tid content r = Inr ((), R)"
    unfolding close_failed_def by auto
  from create_testament_micros [OF cr assms(3)] assms(4-12) h have m: "micros cx r R"
    and R: "r_state R = testament_written cx tid content h es c (r_state r)" by auto
  define S where "S = push_delta cx (Some i) LA_TestamentAcknowledged (FactTestament tid h)
     (R\<lparr>r_state := put_testament tid (acknowledged cx (testament_row cx content h)) (r_state R)\<rparr>)"
  from assms(1) h cr R have "ordinal_free R" and "\<exists>manifest S1. receipt_passes cx i h manifest S = Inr ((), S1)
      \<and> set_status cx i TestamentGenerationFailed None S1 = Inr ((), r')"
    unfolding close_failed_def S_def
    by (auto simp: acknowledge_def acknowledged_def testament_row_def)
  then obtain manifest' S1 where rp: "receipt_passes cx i h manifest' S = Inr ((), S1)"
    and st: "set_status cx i TestamentGenerationFailed None S1 = Inr ((), r')" by blast
  have "micro cx R (R\<lparr>r_state := put_testament tid (acknowledged cx (testament_row cx content h)) (r_state R)\<rparr>)"
    by (rule micro.m_acknowledge [OF assms(2)]) (simp add: R)
  with m have mS: "micros cx r S" unfolding S_def
    by (intro micros_emit) (use \<open>ordinal_free R\<close> in \<open>auto intro: micros_snoc\<close>)
  have cS: "claim_at (r_state S) i = Some (close_claim tid content c)" using assms(7) by (simp add: S_def R)
  with receipt_passes_micros [OF rp cS] assms(9,10) have S1: "micros cx S S1" "st_claims (r_state S1) = st_claims (r_state S)"
    by (auto simp: so_lifecycle_update working_def)
  have "micros cx S1 r'"
    using st S1(2) cS assms(9)
    by (auto intro!: micros_status simp: status_guard_def lifecycle_edge_def so_lifecycle_update working_def)
  with mS S1(1) show ?thesis by auto
qed

lemma fail_testament_micros:
  assumes "cmd_fail_testament_generation cx i tid e error summary r = Inr (res, r')" "base (r_state r)"
  shows "micros cx r r'"
proof -
  from assms(1) obtain c rc a as R1 R2 R3 where rt: "au_runtime (authority cx)"
    and c: "claim_at (r_state r) i = Some c" "working c" "cl_receipt (so_lifecycle c) = Some rc"
    and cr: "create_artifact cx error r = Inr (a, R1)"
    and op: "open_failure_set i (rc_fence rc) e R1 = Inr ((), R2)"
    and sg: "stage_failure e a R2 = Inr (as, R3)"
    and cl: "close_failed cx i tid
       \<lparr>tc_ledger = st_ledger (r_state R3), tc_schema = SCHEMA, tc_claim = i, tc_receipt = rc_fence rc,
        tc_evidence_set = e, tc_artifacts = as, tc_summary = summary,
        tc_confidence = CF_Committed, tc_outcome = OC_Failed\<rparr> R3 = Inr (res, r')"
    unfolding cmd_fail_testament_generation_def by (auto simp: working_def)
  note 1 = create_artifact_micros [OF cr assms(2)]
  then have cR1: "claim_at (r_state R1) i = Some c" using c by simp
  note 2 = open_failure_set_micros [OF op rt cR1 c(2,3) refl]
  then obtain es where es: "bm_get (st_evidence_sets (r_state R2)) e = Some es" "es_claim es = i" "\<not> es_closed es" by blast
  have "artifact_verified (r_state R2) a" using 1 2 by (simp add: artifact_verified_def)
  note 3 = stage_failure_micros [OF sg es(1,3) this, of cx]
  have nl: "\<not> cl_local_complete (so_lifecycle c)" using base_open [OF assms(2) c(1)] c by (auto simp: late_def working_def)
  have "micros cx R3 r'"
    using close_failed_micros [OF cl rt] 1 2 3 es c nl by auto
  with 1 2 3 show ?thesis by auto
qed

section \<open>Control\<close>

lemma cancel_micros: "cmd_cancel_claim cx i m r = Inr (res, r') \<Longrightarrow> micros cx r r'"
  unfolding cmd_cancel_claim_def by (auto intro: cancel_tree_micros)

lemma revoke_micros: "cmd_revoke_claim cx i m r = Inr (res, r') \<Longrightarrow> micros cx r r'"
  unfolding cmd_revoke_claim_def by (auto intro: cancel_tree_micros)

lemma oldest_of_Inr: "oldest_of ids best r = Inr (x, r') \<Longrightarrow> r' = r"
  by (induction ids arbitrary: best) (auto simp: Let_def)

lemma cycle_victim_Inr: "cycle_victim component r = Inr (x, r') \<Longrightarrow> r' = r"
  unfolding cycle_victim_def by (auto dest: oldest_of_Inr split: option.splits)

lemma expire_scope_micros: "expire_scope cx i r = Inr (u, r') \<Longrightarrow> micros cx r r'"
  unfolding expire_scope_def
  by (auto intro: cancel_tree_micros split: sum.splits option.splits dest!: cycle_victim_Inr)

lemma expire_claim_micros: "cmd_expire_claim cx i t g f r = Inr (res, r') \<Longrightarrow> micros cx r r'"
  unfolding cmd_expire_claim_def by (auto simp: if_Inr intro: expire_scope_micros split: option.splits)

lemma supersede_micros:
  assumes "cmd_supersede_claim cx p n r = Inr (res, r')"
  shows "micros cx r r'"
proof -
  from assms obtain c R res1 where g: "generate cx [n] r = Inr (res1, R)"
    and rest: "(if is_active (status_of c) then cancel_tree cx p Superseded else ret ()) R = Inr ((), r')"
    unfolding cmd_supersede_claim_def by auto
  from rest have "micros cx R r'" by (auto simp: if_Inr intro: cancel_tree_micros split: if_splits)
  with generate_micros [OF g] show ?thesis by auto
qed

section \<open>Monitors and scopes\<close>

lemma monitor_micros:
  assumes "cmd_register_monitor cx i ow roots d r = Inr (res, r')"
  shows "micros cx r r'"
proof -
  define m where "m = \<lparr>mon_id = i, mon_owner = ow, mon_roots = roots, mon_deadline = d,
     mon_registered = cx_sequence cx, mon_released = None\<rparr>"
  define R where "R = push_delta cx (Some ow) LA_ScopeRegistered (FactScope i)
     (r\<lparr>r_state := put_monitor i m (r_state r)\<rparr>)"
  have known: "bindR (get_claim (wp_claim p)) (\<lambda>_. ret ()) r = Inr ((), r1) \<longleftrightarrow>
      claim_at (r_state r) (wp_claim p) \<noteq> None \<and> r1 = r" for p r r1 by auto
  from assms obtain c where c: "claim_at (r_state r) ow = Some c" "\<not> is_terminal (status_of c)"
    and g: "i \<noteq> 0" "bm_get (st_monitors (r_state r)) i = None" "bm_keys roots \<noteq> []"
      "\<forall>p \<in> set (bm_keys roots). claim_at (r_state r) (wp_claim p) \<noteq> None" "ordinal_free r"
    and r': "r' = R\<lparr>r_effects := r_effects R @ [ScheduleDeadline ow d]\<rparr>"
    unfolding cmd_register_monitor_def R_def m_def
    by (auto simp: forR_checks [OF known] bm_contains_def is_zero_def)
  have "micro cx r (r\<lparr>r_state := put_monitor i m (r_state r)\<rparr>)"
    by (rule micro.m_monitor [of _ _ c]) (use c g in \<open>auto simp: m_def\<close>)
  then show ?thesis unfolding r' R_def
    by (intro micros_effect micros_emit micros_one) (use g in auto)
qed

lemma rebind_micros:
  assumes "cmd_rebind_monitor cx i p n r = Inr (res, r')"
  shows "micros cx r r'"
proof -
  from assms obtain c m where g: "au_runtime (authority cx)" "claim_at (r_state r) n = Some c"
      "p \<in> set (dependencies (so_content c) RK_Supersedes)" "bm_get (st_monitors (r_state r)) i = Some m"
      "mon_released m = None" "ordinal_free r"
    and r': "r' = push_delta cx (Some (mon_owner m)) LA_ScopeRebound (FactScope i)
      (r\<lparr>r_state := put_monitor i (m\<lparr>mon_roots := bs_of_list (map (rebind_predicate p n) (bm_keys (mon_roots m)))\<rparr>) (r_state r)\<rparr>)"
    unfolding cmd_rebind_monitor_def by auto
  from micro.m_rebind [OF g(1,4,5,2,3)] show ?thesis unfolding r'
    by (intro micros_emit [OF micros_one]) (use g in auto)
qed

lemma release_scope_micros:
  assumes "cmd_release_scope cx i r = Inr (res, r')"
  shows "micros cx r r'"
  using assms unfolding cmd_release_scope_def
  by (auto intro!: micros_one micro.m_release [unfolded released_def])

lemma register_artifact_micros:
  assumes "cmd_register_artifact cx new r = Inr (res, r')" "base (r_state r)"
  shows "micros cx r r'"
proof -
  from assms(1) obtain a R where cr: "create_artifact cx new r = Inr (a, R)" and "ordinal_free R"
    and r': "r' = push_delta cx None LA_ArtifactAttached (FactArtifact a) R"
    unfolding cmd_register_artifact_def by auto
  with create_artifact_micros [OF cr assms(2)] show ?thesis by (auto intro: micros_emit)
qed

lemma expire_monitor_micros: "cmd_expire_monitor cx i t g f r = Inr (res, r') \<Longrightarrow> micros cx r r'"
  unfolding cmd_expire_monitor_def by (auto simp: if_Inr intro: expire_scope_micros)

section \<open>Commands\<close>

lemmas command_micros =
  negotiate_micros epoch_floor_micros generate_micros post_micros acquire_micros adopt_micros progress_micros
  begin_set_micros attach_micros close_micros acknowledge_micros begin_whole_micros begin_increment_micros
  verdict_micros fenced_verdict_micros complete_micros fail_post_micros fail_receipt_micros fail_testament_micros
  cancel_micros revoke_micros expire_claim_micros supersede_micros monitor_micros rebind_micros
  release_scope_micros register_artifact_micros expire_monitor_micros

lemma command_step_micros:
  assumes "command_step cx r = Inr (res, r')" "base (r_state r)"
  shows "micros cx r r'"
  using assms unfolding command_step_def
  by (cases "di_command (cx_input cx)") (simp_all add: command_micros)

lemma object_budget_Inr: "object_budget cx r = Inr (u, r') \<Longrightarrow> r' = r"
  by (auto simp: object_budget_def)

lemma execute_domain_micros:
  assumes "execute_domain_on cx s = Inr (s', res, ds, fx)" "base s"
  shows "micros cx \<lparr>r_state = s, r_deltas = [], r_effects = []\<rparr> \<lparr>r_state = s', r_deltas = ds, r_effects = fx\<rparr>"
proof -
  let ?r = "\<lparr>r_state = s, r_deltas = [], r_effects = []\<rparr>"
  from assms(1) obtain r' where run: "bindR (command_step cx) (\<lambda>result.
             thenR (stepsR [propagate cx, object_budget cx]) (ret result)) ?r = Inr (res, r')"
    and r': "s' = r_state r'" "ds = r_deltas r'" "fx = r_effects r'"
    by (auto simp: execute_domain_on_def split: sum.splits prod.splits)
  from run obtain R R1 where "command_step cx ?r = Inr (res, R)" "propagate cx R = Inr ((), R1)"
    "object_budget cx R1 = Inr ((), r')" by auto
  with command_step_micros [of cx ?r res R] assms(2) propagate_micros object_budget_Inr
  have "micros cx ?r r'" by (fastforce intro: rtranclp_trans)
  then show ?thesis unfolding r' by (cases r') simp
qed

end
