(* ===== verification/Evolution.thy ===== *)
theory Evolution
  imports Refinement
begin

text \<open>
  How a step of the ledger machine changes each table: one relation per kind of row, with the
  facts of the state the row was written in.  Rows are never removed, and the content and the
  content hash of a stored object never change.  The invariants use these lemmas and
  never the rules of the machine.
\<close>

section \<open>The satisfaction step\<close>

lemma satisfy_step:
  assumes "satisfy_all cx (bm_keys (tracked_fixpoint s)) False r = Inr (changed, r')" "s = r_state r"
  shows "claim_at (r_state r') i = map_option (satisfied_row cx (bs_set (tracked_fixpoint s)) i) (claim_at s i)"
    and "i \<in> bs_set (tracked_fixpoint s) \<Longrightarrow> claim_at s i = Some c \<Longrightarrow> status_of c \<noteq> Satisfied
      \<Longrightarrow> \<not> is_terminal (status_of c) \<and> revision_free c"
    and "r_state r' = s\<lparr>st_claims := st_claims (r_state r')\<rparr>"
proof -
  note spec = satisfy_all_Inr [OF assms(1) bm_keys_distinct, folded bs_set_def]
  show "claim_at (r_state r') i = map_option (satisfied_row cx (bs_set (tracked_fixpoint s)) i) (claim_at s i)"
    using spec assms(2) by simp
  show "i \<in> bs_set (tracked_fixpoint s) \<Longrightarrow> claim_at s i = Some c \<Longrightarrow> status_of c \<noteq> Satisfied
      \<Longrightarrow> \<not> is_terminal (status_of c) \<and> revision_free c"
    using spec [THEN conjunct2, THEN conjunct1] assms(2) by simp
  show "r_state r' = s\<lparr>st_claims := st_claims (r_state r')\<rparr>"
    using spec [THEN conjunct2, THEN conjunct2, THEN conjunct1] assms(2) by simp
qed

lemma satisfy_step_frame:
  assumes "satisfy_all cx (bm_keys (tracked_fixpoint (r_state r))) False r = Inr (changed, r')"
  shows "st_validations (r_state r') = st_validations (r_state r)" "st_artifacts (r_state r') = st_artifacts (r_state r)"
    "st_testaments (r_state r') = st_testaments (r_state r)" "st_evidence_sets (r_state r') = st_evidence_sets (r_state r)"
    "st_runs (r_state r') = st_runs (r_state r)" "st_monitors (r_state r') = st_monitors (r_state r)"
    "st_identities (r_state r') = st_identities (r_state r)" "st_epochs (r_state r') = st_epochs (r_state r)"
    "st_receipts (r_state r') = st_receipts (r_state r)" "st_ledger (r_state r') = st_ledger (r_state r)"
    "st_sequence (r_state r') = st_sequence (r_state r)"
  by (subst satisfy_step(3) [OF assms refl], simp)+

lemma refence_frame [simp]:
  "st_claims (refence_open_set c f s) = st_claims s" "st_validations (refence_open_set c f s) = st_validations s"
  "st_artifacts (refence_open_set c f s) = st_artifacts s" "st_testaments (refence_open_set c f s) = st_testaments s"
  "st_runs (refence_open_set c f s) = st_runs s" "st_monitors (refence_open_set c f s) = st_monitors s"
  "st_identities (refence_open_set c f s) = st_identities s" "st_epochs (refence_open_set c f s) = st_epochs s"
  "st_receipts (refence_open_set c f s) = st_receipts s" "st_ledger (refence_open_set c f s) = st_ledger s"
  "st_sequence (refence_open_set c f s) = st_sequence s"
  by (simp_all add: refence_open_set_def split: option.splits)

lemma refence_get:
  "bm_get (st_evidence_sets (refence_open_set c f s)) e = (case bm_get (st_evidence_sets s) e of
      None \<Rightarrow> None
    | Some es \<Rightarrow> Some (if cl_evidence_set (so_lifecycle c) = Some e \<and> \<not> es_closed es then es\<lparr>es_receipt := f\<rparr> else es))"
  by (auto simp: refence_open_set_def split: option.splits)

section \<open>Frames\<close>

lemma testament_written_frame [simp]:
  "st_epochs (testament_written cx t content h es c s) = st_epochs s"
  "st_receipts (testament_written cx t content h es c s) = st_receipts s"
  "st_sequence (testament_written cx t content h es c s) = st_sequence s"
  "bm_get (st_identities (testament_written cx t content h es c s)) k =
     (if k = (OK_Testament, h) then Some t else bm_get (st_identities s) k)"
  by (simp_all add: testament_written_def)

lemma micro_frame:
  assumes "micro cx r r'"
  shows "st_ledger (r_state r') = st_ledger (r_state r)" "st_sequence (r_state r') = st_sequence (r_state r)"
    "st_receipts (r_state r') = st_receipts (r_state r)"
  using assms by (cases; simp add: satisfy_step_frame)+

section \<open>Claims\<close>

inductive claim_step :: "ctx \<Rightarrow> state \<Rightarrow> state \<Rightarrow> claim_id \<Rightarrow> claim \<Rightarrow> claim \<Rightarrow> bool" for cx s s' i c where
  keep: "claim_step cx s s' i c c"
| status: "status_guard s i c st w \<Longrightarrow> revision_free c \<Longrightarrow> claim_step cx s s' i c (advance_claim cx st w c)"
| satisfy: "i \<in> bs_set (tracked_fixpoint s) \<Longrightarrow> \<not> is_terminal (status_of c) \<Longrightarrow> revision_free c
    \<Longrightarrow> (\<forall>d \<in> bs_set (tracked_fixpoint s). \<exists>t. claim_at s' d = Some t \<and> status_of t = Satisfied)
    \<Longrightarrow> claim_step cx s s' i c (advance_claim cx Satisfied None c)"
| receive: "status_of c = Posted \<Longrightarrow> subject (so_content c) = Some (rc_holder rc) \<Longrightarrow> phase_passed s i PH_Admission
    \<Longrightarrow> \<forall>d \<in> set (dependencies (so_content c) RK_DependsOn). \<exists>t. claim_at s d = Some t \<and> status_of t = Satisfied
    \<Longrightarrow> fence_epoch (rc_fence rc) = 1 \<Longrightarrow> fence_receipt (rc_fence rc) \<noteq> 0
    \<Longrightarrow> \<not> receipt_allocated s (fence_receipt (rc_fence rc)) \<Longrightarrow> revision_free c \<Longrightarrow> st_runs s' = st_runs s
    \<Longrightarrow> claim_step cx s s' i c (advance_claim cx Received None (with_receipt rc c))"
| adopt: "status_of c \<in> {Received, Progressed, TestamentGenerated, TestamentAcknowledged, Validating}
    \<Longrightarrow> cl_receipt (so_lifecycle c) = Some old
    \<Longrightarrow> unat (fence_epoch (rc_fence rc)) = unat (fence_epoch (rc_fence old)) + 1
    \<Longrightarrow> fence_receipt (rc_fence rc) \<noteq> 0 \<Longrightarrow> rc_holder rc \<noteq> 0
    \<Longrightarrow> \<not> receipt_allocated s (fence_receipt (rc_fence rc))
    \<Longrightarrow> claim_step cx s s' i c (with_receipt rc c)"
| opens: "working c \<Longrightarrow> cl_evidence_set (so_lifecycle c) = None \<Longrightarrow> e \<noteq> 0 \<Longrightarrow> cl_receipt (so_lifecycle c) = Some rc
    \<Longrightarrow> bm_get (st_evidence_sets s) e = None \<Longrightarrow> bm_get (st_evidence_sets s') e = Some (empty_set e i (rc_fence rc))
    \<Longrightarrow> claim_step cx s s' i c (with_set e c)"
| closes: "working c \<Longrightarrow> tc_claim content = i
    \<Longrightarrow> map_option rc_fence (cl_receipt (so_lifecycle c)) = Some (tc_receipt content)
    \<Longrightarrow> bm_get (st_testaments s) t = None \<Longrightarrow> bm_get (st_testaments s') t = Some (testament_row cx content h)
    \<Longrightarrow> claim_step cx s s' i c (close_claim t content c)"
| completes: "status_of c = Validating \<Longrightarrow> aggregate s i = Some VV_Pass \<Longrightarrow> \<not> cl_local_complete (so_lifecycle c)
    \<Longrightarrow> st_runs s' = st_runs s \<Longrightarrow> claim_step cx s s' i c (completed c)"
| releases: "is_terminal (status_of c) \<Longrightarrow> \<not> unreleased_child s i \<Longrightarrow> claim_step cx s s' i c (released c)"

lemma satisfy_all_satisfied:
  assumes "satisfy_all cx (bm_keys (tracked_fixpoint (r_state r))) False r = Inr (changed, r')"
    "d \<in> bs_set (tracked_fixpoint (r_state r))"
  shows "\<exists>t. claim_at (r_state r') d = Some t \<and> status_of t = Satisfied"
proof -
  from assms(2) obtain c where "claim_at (r_state r) d = Some c" by (rule tracked_fixpoint_cases)
  then show ?thesis using satisfy_step(1) [OF assms(1) refl, of d] assms(2) by (simp add: satisfied_row_def)
qed

lemma micro_claim_satisfy:
  assumes "satisfy_all cx (bm_keys (tracked_fixpoint (r_state r))) False r = Inr (changed, r')"
    "claim_at (r_state r) i = Some c"
  shows "\<exists>c'. claim_at (r_state r') i = Some c' \<and> claim_step cx (r_state r) (r_state r') i c c'"
proof (cases "i \<in> bs_set (tracked_fixpoint (r_state r)) \<and> status_of c \<noteq> Satisfied")
  case True
  with assms satisfy_step(1,2) [OF assms(1) refl, of i] satisfy_all_satisfied [OF assms(1)] show ?thesis
    by (auto simp: satisfied_row_def intro!: claim_step.satisfy)
next
  case False
  with assms(2) satisfy_step(1) [OF assms(1) refl, of i] show ?thesis
    by (auto simp: satisfied_row_def intro: claim_step.keep)
qed

lemma batch_claims:
  assumes "batch_ok cx s claims"
  shows "claim_at (write_batch cx claims s) i = (case claim_at s i of
      Some c \<Rightarrow> Some c
    | None \<Rightarrow> map_option (claim_row cx) (List.find (\<lambda>n. nc_id n = i) claims))"
proof -
  from assms have d: "distinct (concat (map new_ids_of claims))"
    and free: "\<forall>i \<in> set (concat (map new_ids_of claims)). free_id s i" by (auto simp: batch_ok_def)
  note dist = batch_ids_distinct(1) [OF d]
  have new: "claim_at s (nc_id n) = None" if "n \<in> set claims" for n
    using free that by (auto simp: free_id_iff new_ids_of_def)
  show ?thesis
  proof (cases "claim_at s i")
    case (Some c)
    with new have "i \<notin> nc_id ` set claims" by auto
    with Some write_batch_claims [OF dist, of cx s i c] show ?thesis by simp
  next
    case None
    show ?thesis
    proof (cases "List.find (\<lambda>n. nc_id n = i) claims")
      case None
      then have "i \<notin> nc_id ` set claims" by (auto simp: find_None_iff)
      with \<open>claim_at s i = None\<close> write_batch_claims [OF dist, of cx s i] None show ?thesis
        by (cases "claim_at (write_batch cx claims s) i") auto
    next
      case (Some n)
      then have "n \<in> set claims" "nc_id n = i" by (auto dest: find_Some_set)
      with Some \<open>claim_at s i = None\<close> write_batch_claims [OF dist, of cx s i "claim_row cx n"] show ?thesis by auto
    qed
  qed
qed

lemma micro_claim:
  assumes "micro cx r r'" "claim_at (r_state r) i = Some c"
  shows "\<exists>c'. claim_at (r_state r') i = Some c' \<and> claim_step cx (r_state r) (r_state r') i c c'"
  using assms(1)
proof cases
  case (m_satisfy changed)
  then show ?thesis using micro_claim_satisfy assms(2) by blast
next
  case (m_generate claims)
  then show ?thesis using assms(2) by (auto simp: batch_claims intro: claim_step.keep)
next
  case (m_acquire j d rc)
  then have "j = i \<Longrightarrow> claim_step cx (r_state r) (r_state r') i c (advance_claim cx Received None (with_receipt rc c))"
    using assms(2) by (intro claim_step.receive) auto
  with m_acquire assms(2) show ?thesis by (cases "j = i") (auto intro: claim_step.keep)
next
  case (m_adopt j d old rc)
  then have "j = i \<Longrightarrow> claim_step cx (r_state r) (r_state r') i c (with_receipt rc c)"
    using assms(2) by (intro claim_step.adopt [of c old]) auto
  with m_adopt assms(2) show ?thesis by (cases "j = i") (auto intro: claim_step.keep)
next
  case (m_open j d rc e)
  then have "j = i \<Longrightarrow> claim_step cx (r_state r) (r_state r') i c (with_set e c)"
    using assms(2) by (intro claim_step.opens [of c e rc]) auto
  with m_open assms(2) show ?thesis by (cases "j = i") (auto intro: claim_step.keep)
next
  case (m_testament t content h es d)
  then have "tc_claim content = i \<Longrightarrow> claim_step cx (r_state r) (r_state r') i c (close_claim t content c)"
    using assms(2) by (intro claim_step.closes) (auto simp: free_id_iff)
  with m_testament assms(2) show ?thesis by (cases "tc_claim content = i") (auto intro: claim_step.keep)
next
  case (m_complete j d)
  then have "j = i \<Longrightarrow> claim_step cx (r_state r) (r_state r') i c (completed c)"
    using assms(2) by (intro claim_step.completes) auto
  with m_complete assms(2) show ?thesis by (cases "j = i") (auto intro: claim_step.keep)
qed (use assms(2) in \<open>auto intro: claim_step.intros\<close>)

inductive claim_new :: "ctx \<Rightarrow> state \<Rightarrow> claim_id \<Rightarrow> claim \<Rightarrow> bool" for cx s i where
  generated: "batch_ok cx s claims \<Longrightarrow> n \<in> set claims \<Longrightarrow> nc_id n = i \<Longrightarrow> claim_new cx s i (claim_row cx n)"

lemma micro_claim_new:
  assumes "micro cx r r'" "claim_at (r_state r) i = None" "claim_at (r_state r') i = Some c"
  shows "claim_new cx (r_state r) i c"
  using assms(1)
proof cases
  case (m_satisfy changed)
  then show ?thesis using assms(2,3) satisfy_step(1) [OF m_satisfy refl, of i] by simp
next
  case (m_generate claims)
  then show ?thesis using assms(2,3)
    by (auto simp: batch_claims dest!: find_Some_set intro: claim_new.generated)
qed (use assms(2,3) in \<open>auto split: if_splits\<close>)

section \<open>Validations\<close>

lemma batch_validation_rows:
  assumes "batch_ok cx s claims"
  shows "bm_get (st_validations (write_batch cx claims s)) i = (case bm_get (st_validations s) i of
      Some v \<Rightarrow> Some v
    | None \<Rightarrow> map_option (validation_row cx) (List.find (\<lambda>n. nv_id n = i) (batch_validations claims)))"
proof -
  from assms have d: "distinct (concat (map new_ids_of claims))"
    and free: "\<forall>i \<in> set (concat (map new_ids_of claims)). free_id s i" by (auto simp: batch_ok_def)
  note get = write_batch_validations [OF batch_ids_distinct(2) [OF d], of cx s i]
  have new: "bm_get (st_validations s) (nv_id n) = None" if "n \<in> set (batch_validations claims)" for n
    using free that by (auto simp: free_id_iff new_ids_of_def)
  show ?thesis
  proof (cases "bm_get (st_validations s) i")
    case (Some v)
    with new have "i \<notin> nv_id ` set (batch_validations claims)" by fastforce
    with Some get [of v] show ?thesis by simp
  next
    case None
    show ?thesis
    proof (cases "List.find (\<lambda>n. nv_id n = i) (batch_validations claims)")
      case None
      then have "i \<notin> nv_id ` set (batch_validations claims)" by (auto simp: find_None_iff)
      with \<open>bm_get (st_validations s) i = None\<close> get None show ?thesis
        by (cases "bm_get (st_validations (write_batch cx claims s)) i") auto
    next
      case (Some n)
      then have "n \<in> set (batch_validations claims)" "nv_id n = i" by (auto dest: find_Some_set)
      with Some \<open>bm_get (st_validations s) i = None\<close> get [of "validation_row cx n"] show ?thesis by auto
    qed
  qed
qed

definition validation_step :: "validation \<Rightarrow> validation \<Rightarrow> bool" where
  "validation_step v v' \<longleftrightarrow> v' = v \<or> (\<exists>e. checked_add (vl_latest_epoch (so_lifecycle v)) 1 = Some e \<and> v' = with_epoch e v)"

lemma micro_validation:
  assumes "micro cx r r'" "bm_get (st_validations (r_state r)) i = Some v"
  shows "\<exists>v'. bm_get (st_validations (r_state r')) i = Some v' \<and> validation_step v v'"
  using assms(1)
  by cases (use assms(2) in \<open>auto simp: validation_step_def satisfy_step_frame batch_validation_rows\<close>)

inductive validation_new :: "ctx \<Rightarrow> state \<Rightarrow> state \<Rightarrow> validation_id \<Rightarrow> validation \<Rightarrow> bool" for cx s s' i where
  generated: "batch_ok cx s claims \<Longrightarrow> n \<in> set (batch_validations claims) \<Longrightarrow> nv_id n = i
    \<Longrightarrow> s' = write_batch cx claims s \<Longrightarrow> validation_new cx s s' i (validation_row cx n)"

lemma micro_validation_new:
  assumes "micro cx r r'" "bm_get (st_validations (r_state r)) i = None"
    "bm_get (st_validations (r_state r')) i = Some v"
  shows "validation_new cx (r_state r) (r_state r') i v"
  using assms(1)
proof cases
  case (m_generate claims)
  then show ?thesis using assms(2,3)
    by (auto simp: batch_validation_rows dest!: find_Some_set intro: validation_new.generated)
qed (use assms(2,3) in \<open>auto simp: satisfy_step_frame split: if_splits\<close>)

section \<open>Runs\<close>

inductive run_step :: "ctx \<Rightarrow> state \<Rightarrow> validation_run \<Rightarrow> validation_run \<Rightarrow> bool" for cx s x where
  keep: "run_step cx s x x"
| verdict: "bm_get (st_validations s) (ri_validation (run_id x)) = Some v \<Longrightarrow> claim_at s (run_claim x) = Some c
    \<Longrightarrow> vr_run verdict = run_id x \<Longrightarrow> verdict_guard cx s verdict x v c \<Longrightarrow> next_index_fits verdict x v
    \<Longrightarrow> run_step cx s x (next_run verdict x v)"

lemma micro_run:
  assumes "micro cx r r'" "run_keys (r_state r)" "bm_get (st_runs (r_state r)) k = Some x"
  shows "\<exists>x'. bm_get (st_runs (r_state r')) k = Some x' \<and> run_step cx (r_state r) x x'"
  using assms(1)
proof cases
  case (m_schedule i v c target e first rid manifest)
  have "run_id x = k" "x \<in> set (bm_values (st_runs (r_state r)))"
    using assms(2,3) by (auto simp: run_keys_def set_bm_values intro: ranI)
  with m_schedule(6) have "\<not> (ri_validation k = i \<and> ri_target_hash k = target)"
    by (auto simp: scheduled_for_def list_ex_iff)
  with m_schedule(9) have "rid \<noteq> k" by auto
  with m_schedule assms(3) show ?thesis by (auto intro: run_step.keep)
next
  case (m_receipt_pass i v c target e rid manifest)
  have "k \<in> set (bm_keys (st_runs (r_state r)))" using assms(3) by (simp add: set_bm_keys domI)
  with m_receipt_pass(7) have "\<not> (ri_validation k = i \<and> ri_target_hash k = target)" by blast
  with m_receipt_pass(9) have "rid \<noteq> k" by auto
  with m_receipt_pass assms(3) show ?thesis by (auto intro: run_step.keep)
next
  case (m_verdict verdict run v c)
  then have "run_id run = vr_run verdict" using assms(2) by (auto simp: run_keys_def)
  then have "k = vr_run verdict \<Longrightarrow> run_step cx (r_state r) x (next_run verdict x v)"
    using m_verdict assms(3) by (intro run_step.verdict) auto
  with m_verdict assms(3) \<open>run_id run = vr_run verdict\<close> show ?thesis
    by (cases "k = vr_run verdict") (auto intro: run_step.keep)
qed (use assms(3) in \<open>auto simp: satisfy_step_frame intro: run_step.keep\<close>)

inductive run_new :: "ctx \<Rightarrow> state \<Rightarrow> state \<Rightarrow> validation_run_id \<Rightarrow> validation_run \<Rightarrow> bool" for cx s s' k where
  scheduled: "bm_get (st_validations s) i = Some v \<Longrightarrow> claim_at s (vc_claim (so_content v)) = Some c
    \<Longrightarrow> schedule_status (vc_phase (so_content v)) (status_of c) \<Longrightarrow> \<not> cl_local_complete (so_lifecycle c)
    \<Longrightarrow> first_opt (vc_handlers (so_content v)) = Some first
    \<Longrightarrow> k = ValidationRunId i target (vc_phase (so_content v)) (vl_latest_epoch (so_lifecycle v) + 1)
    \<Longrightarrow> bm_get (st_validations s') i = Some (with_epoch (vl_latest_epoch (so_lifecycle v) + 1) v)
    \<Longrightarrow> unat (vl_latest_epoch (so_lifecycle v)) + 1 < 2 ^ 64
    \<Longrightarrow> run_new cx s s' k (new_run v k manifest first)"
| receipt: "bm_get (st_validations s) i = Some v \<Longrightarrow> vc_kind (so_content v) = VK_Receipt
    \<Longrightarrow> claim_at s (vc_claim (so_content v)) = Some c
    \<Longrightarrow> working c \<or> status_of c = TestamentAcknowledged \<Longrightarrow> \<not> cl_local_complete (so_lifecycle c)
    \<Longrightarrow> k = ValidationRunId i target PH_WholeWork (vl_latest_epoch (so_lifecycle v) + 1)
    \<Longrightarrow> bm_get (st_validations s') i = Some (with_epoch (vl_latest_epoch (so_lifecycle v) + 1) v)
    \<Longrightarrow> unat (vl_latest_epoch (so_lifecycle v)) + 1 < 2 ^ 64
    \<Longrightarrow> run_new cx s s' k (receipt_run (cx_host cx) (vc_claim (so_content v)) v k manifest)"

lemma micro_run_new:
  assumes "micro cx r r'" "run_keys (r_state r)" "bm_get (st_runs (r_state r)) k = None"
    "bm_get (st_runs (r_state r')) k = Some x"
  shows "run_new cx (r_state r) (r_state r') k x"
  using assms(1)
proof cases
  case (m_schedule i v c target e first rid manifest)
  with assms(3,4) have k: "k = rid" "x = new_run v k manifest first" by (auto split: if_splits)
  from m_schedule have e: "e = vl_latest_epoch (so_lifecycle v) + 1"
    "unat (vl_latest_epoch (so_lifecycle v)) + 1 < 2 ^ 64" by (auto simp: checked_add_def split: if_splits)
  show ?thesis unfolding k(2) by (rule run_new.scheduled) (use m_schedule k e in auto)
next
  case (m_receipt_pass i v c target e rid manifest)
  with assms(3,4) have k: "k = rid" "x = receipt_run (cx_host cx) (vc_claim (so_content v)) v k manifest"
    by (auto split: if_splits)
  from m_receipt_pass have e: "e = vl_latest_epoch (so_lifecycle v) + 1"
    "unat (vl_latest_epoch (so_lifecycle v)) + 1 < 2 ^ 64" by (auto simp: checked_add_def split: if_splits)
  show ?thesis unfolding k(2) by (rule run_new.receipt) (use m_receipt_pass k e in auto)
next
  case (m_verdict verdict run v c)
  with assms(2-4) show ?thesis by (auto simp: run_keys_def split: if_splits)
qed (use assms(3,4) in \<open>auto simp: satisfy_step_frame\<close>)

section \<open>Artifacts and testaments\<close>

lemma micro_artifact:
  assumes "micro cx r r'" "bm_get (st_artifacts (r_state r)) i = Some a"
  shows "bm_get (st_artifacts (r_state r')) i = Some a"
  using assms(1) by cases (use assms(2) in \<open>auto simp: satisfy_step_frame free_id_iff\<close>)

inductive artifact_new :: "ctx \<Rightarrow> state \<Rightarrow> artifact_id \<Rightarrow> artifact \<Rightarrow> bool" for cx s i where
  created: "artifact_content_hash (cx_host cx) content = Inr h
    \<Longrightarrow> bm_get (st_identities s) (OK_Artifact, h) = None \<Longrightarrow> free_id s i \<Longrightarrow> ac_ledger content = st_ledger s
    \<Longrightarrow> \<forall>ob \<in> set (bm_keys (ac_inputs content)). or_ledger ob = st_ledger s \<and> object_exists s ob
    \<Longrightarrow> accepts_attestation h att
    \<Longrightarrow> artifact_new cx s i (artifact_row cx content h att)"

lemma micro_artifact_new:
  assumes "micro cx r r'" "bm_get (st_artifacts (r_state r)) i = None" "bm_get (st_artifacts (r_state r')) i = Some a"
  shows "artifact_new cx (r_state r) i a"
  using assms(1)
proof cases
  case (m_artifact new h att)
  with assms(2,3) have i: "i = na_id new" "a = artifact_row cx (na_content new) h att" by (auto split: if_splits)
  from m_artifact have "accepts_attestation h att" by (auto dest: find_Some_set)
  then show ?thesis unfolding i
    by (rule artifact_new.created [rotated -1]) (use m_artifact check_artifact_Inr [OF m_artifact(5)] in auto)
qed (use assms(2,3) in \<open>auto simp: satisfy_step_frame\<close>)

inductive testament_step :: "ctx \<Rightarrow> testament \<Rightarrow> testament \<Rightarrow> bool" for cx t where
  keep: "testament_step cx t t"
| acknowledge: "au_runtime (authority cx) \<Longrightarrow> testament_step cx t (acknowledged cx t)"

lemma micro_testament:
  assumes "micro cx r r'" "bm_get (st_testaments (r_state r)) i = Some t"
  shows "\<exists>t'. bm_get (st_testaments (r_state r')) i = Some t' \<and> testament_step cx t t'"
  using assms(1)
  by cases (use assms(2) in \<open>auto simp: satisfy_step_frame free_id_iff intro: testament_step.intros\<close>)

inductive testament_new :: "ctx \<Rightarrow> state \<Rightarrow> state \<Rightarrow> testament_id \<Rightarrow> testament \<Rightarrow> bool" for cx s s' i where
  closed: "free_id s i \<Longrightarrow> \<forall>a \<in> set (tc_artifacts content). artifact_verified s a
    \<Longrightarrow> testament_content_hash (cx_host cx) content = Inr h \<Longrightarrow> bm_get (st_identities s) (OK_Testament, h) = None
    \<Longrightarrow> bm_get (st_evidence_sets s) (tc_evidence_set content) = Some es \<Longrightarrow> es_claim es = tc_claim content
    \<Longrightarrow> \<not> es_closed es \<Longrightarrow> es_artifacts es = tc_artifacts content
    \<Longrightarrow> claim_at s (tc_claim content) = Some c \<Longrightarrow> working c
    \<Longrightarrow> map_option rc_fence (cl_receipt (so_lifecycle c)) = Some (tc_receipt content)
    \<Longrightarrow> tc_ledger content = st_ledger s \<Longrightarrow> s' = testament_written cx i content h es c s
    \<Longrightarrow> testament_new cx s s' i (testament_row cx content h)"

lemma micro_testament_new:
  assumes "micro cx r r'" "bm_get (st_testaments (r_state r)) i = None" "bm_get (st_testaments (r_state r')) i = Some t"
  shows "testament_new cx (r_state r) (r_state r') i t"
  using assms(1)
proof cases
  case (m_testament i' content h es c)
  with assms(2,3) have i: "i' = i" "t = testament_row cx content h" by (auto split: if_splits)
  show ?thesis unfolding i(2) by (rule testament_new.closed) (use m_testament i in auto)
qed (use assms(2,3) in \<open>auto simp: satisfy_step_frame split: if_splits\<close>)

section \<open>Evidence sets\<close>

inductive set_step :: "state \<Rightarrow> state \<Rightarrow> evidence_set_id \<Rightarrow> evidence_set \<Rightarrow> evidence_set \<Rightarrow> bool" for s s' e es where
  keep: "set_step s s' e es es"
| refence: "\<not> es_closed es \<Longrightarrow> claim_at s i = Some c \<Longrightarrow> cl_evidence_set (so_lifecycle c) = Some e
    \<Longrightarrow> claim_at s' i = Some (with_receipt rc c) \<Longrightarrow> set_step s s' e es (es\<lparr>es_receipt := rc_fence rc\<rparr>)"
| stage: "\<not> es_closed es \<Longrightarrow> artifact_verified s a \<Longrightarrow> a \<notin> set (es_artifacts es)
    \<Longrightarrow> set_step s s' e es (es\<lparr>es_artifacts := es_artifacts es @ [a]\<rparr>)"
| close: "\<not> es_closed es \<Longrightarrow> bm_get (st_testaments s') t = Some (testament_row cx content h)
    \<Longrightarrow> tc_evidence_set content = e \<Longrightarrow> tc_artifacts content = es_artifacts es \<Longrightarrow> tc_claim content = es_claim es
    \<Longrightarrow> set_step s s' e es (es\<lparr>es_closed := True\<rparr>)"

lemma micro_set:
  assumes "micro cx r r'" "bm_get (st_evidence_sets (r_state r)) e = Some es"
  shows "\<exists>es'. bm_get (st_evidence_sets (r_state r')) e = Some es' \<and> set_step (r_state r) (r_state r') e es es'"
  using assms(1)
proof cases
  case (m_adopt i c old rc)
  then have "cl_evidence_set (so_lifecycle c) = Some e \<Longrightarrow> \<not> es_closed es
      \<Longrightarrow> set_step (r_state r) (r_state r') e es (es\<lparr>es_receipt := rc_fence rc\<rparr>)"
    by (intro set_step.refence [of es _ i c]) auto
  with m_adopt assms(2) show ?thesis by (auto simp: refence_get intro: set_step.keep)
next
  case (m_testament t content h es' c)
  then have "tc_evidence_set content = e \<Longrightarrow> set_step (r_state r) (r_state r') e es (es\<lparr>es_closed := True\<rparr>)"
    using assms(2) by (intro set_step.close [of es _ t cx content h]) auto
  with m_testament assms(2) show ?thesis
    by (cases "tc_evidence_set content = e") (auto intro: set_step.keep)
qed (use assms(2) in \<open>auto simp: satisfy_step_frame intro: set_step.intros\<close>)

inductive set_new :: "state \<Rightarrow> evidence_set_id \<Rightarrow> evidence_set \<Rightarrow> bool" for s e where
  opened: "claim_at s i = Some c \<Longrightarrow> working c \<Longrightarrow> cl_receipt (so_lifecycle c) = Some rc
    \<Longrightarrow> set_new s e (empty_set e i (rc_fence rc))"

lemma micro_set_new:
  assumes "micro cx r r'" "bm_get (st_evidence_sets (r_state r)) e = None"
    "bm_get (st_evidence_sets (r_state r')) e = Some es"
  shows "set_new (r_state r) e es"
  using assms(1)
  by cases (use assms(2,3) in \<open>auto simp: satisfy_step_frame refence_get split: if_splits intro: set_new.intros\<close>)

section \<open>Monitors and epochs\<close>

inductive monitor_step :: "ctx \<Rightarrow> state \<Rightarrow> monitor \<Rightarrow> monitor \<Rightarrow> bool" for cx s m where
  keep: "monitor_step cx s m m"
| rebind: "au_runtime (authority cx) \<Longrightarrow> mon_released m = None \<Longrightarrow> claim_at s n = Some c
    \<Longrightarrow> p \<in> set (dependencies (so_content c) RK_Supersedes)
    \<Longrightarrow> monitor_step cx s m (m\<lparr>mon_roots := bs_of_list (map (rebind_predicate p n) (bm_keys (mon_roots m)))\<rparr>)"
| release: "mon_released m = None \<Longrightarrow> monitor_due s m
    \<Longrightarrow> monitor_step cx s m (m\<lparr>mon_released := Some (cx_sequence cx)\<rparr>)"

lemma micro_monitor:
  assumes "micro cx r r'" "bm_get (st_monitors (r_state r)) i = Some m"
  shows "\<exists>m'. bm_get (st_monitors (r_state r')) i = Some m' \<and> monitor_step cx (r_state r) m m'"
  using assms(1)
proof cases
  case (m_rebind j m' n c p)
  then show ?thesis using assms(2)
    by (cases "j = i") (auto intro: monitor_step.keep monitor_step.rebind)
next
  case (m_release_monitor j m' c)
  then have "j = i \<Longrightarrow> monitor_due (r_state r) m" using assms(2) by (auto simp: monitor_due_def)
  with m_release_monitor assms(2) show ?thesis
    by (cases "j = i") (auto intro: monitor_step.keep monitor_step.release)
qed (use assms(2) in \<open>auto simp: satisfy_step_frame intro: monitor_step.keep\<close>)

inductive monitor_new :: "ctx \<Rightarrow> state \<Rightarrow> monitor_id \<Rightarrow> monitor \<Rightarrow> bool" for cx s i m where
  registered: "claim_at s (mon_owner m) = Some c \<Longrightarrow> \<not> is_terminal (status_of c) \<Longrightarrow> i \<noteq> 0 \<Longrightarrow> mon_id m = i
    \<Longrightarrow> \<forall>p \<in> set (bm_keys (mon_roots m)). claim_at s (wp_claim p) \<noteq> None
    \<Longrightarrow> mon_released m = None \<Longrightarrow> mon_registered m = cx_sequence cx \<Longrightarrow> bm_keys (mon_roots m) \<noteq> []
    \<Longrightarrow> monitor_new cx s i m"

lemma micro_monitor_new:
  assumes "micro cx r r'" "bm_get (st_monitors (r_state r)) i = None" "bm_get (st_monitors (r_state r')) i = Some m"
  shows "monitor_new cx (r_state r) i m"
  using assms(1)
  by cases (use assms(2,3) in \<open>auto simp: satisfy_step_frame split: if_splits intro: monitor_new.intros\<close>)

inductive epoch_step :: "ctx \<Rightarrow> epoch_window option \<Rightarrow> epoch_window option \<Rightarrow> bool" for cx w where
  keep: "epoch_step cx w w"
| first: "w = None \<Longrightarrow> epoch_step cx w (Some \<lparr>ew_minimum = 1, ew_admitted = bs_insert 1 bm_empty\<rparr>)"
| admit: "w = Some x \<Longrightarrow> e \<noteq> 0 \<Longrightarrow> ew_minimum x \<le> e \<Longrightarrow> \<not> bs_contains (ew_admitted x) e
    \<Longrightarrow> (case bs_last (ew_admitted x) of None \<Rightarrow> e = 1 | Some lst \<Rightarrow> checked_add lst 1 = Some e)
    \<Longrightarrow> epoch_step cx w (Some (x\<lparr>ew_admitted := bs_insert e (ew_admitted x)\<rparr>))"
| raise: "w = Some x \<Longrightarrow> ew_minimum x \<le> lowest \<Longrightarrow> bs_contains (ew_admitted x) lowest
    \<Longrightarrow> epoch_step cx w (Some (x\<lparr>ew_minimum := lowest, ew_admitted := bm_retain (\<lambda>e. e \<ge> lowest) (ew_admitted x)\<rparr>))"

lemma micro_epoch:
  assumes "micro cx r r'"
  shows "epoch_step cx (bm_get (st_epochs (r_state r)) p) (bm_get (st_epochs (r_state r')) p)"
  using assms
proof cases
  case (m_admit_epoch e window)
  show ?thesis
  proof (cases "p = principal cx")
    case True
    show ?thesis
    proof (cases "bm_get (st_epochs (r_state r)) p")
      case None
      with m_admit_epoch True show ?thesis by (auto intro: epoch_step.first)
    next
      case (Some w)
      then have "epoch_step cx (bm_get (st_epochs (r_state r)) p)
          (Some (w\<lparr>ew_admitted := bs_insert e (ew_admitted w)\<rparr>))"
        using m_admit_epoch True by (intro epoch_step.admit) auto
      with m_admit_epoch True Some show ?thesis by simp
    qed
  next
    case False
    with m_admit_epoch show ?thesis by (simp add: epoch_step.keep)
  qed
next
  case (m_epoch_floor window lowest)
  then have "p = principal cx \<Longrightarrow> epoch_step cx (bm_get (st_epochs (r_state r)) p) (Some (window\<lparr>ew_minimum := lowest,
      ew_admitted := bm_retain (\<lambda>e. e \<ge> lowest) (ew_admitted window)\<rparr>))"
    by (intro epoch_step.raise) auto
  with m_epoch_floor show ?thesis by (cases "p = principal cx") (auto intro: epoch_step.keep)
qed (auto simp: satisfy_step_frame intro: epoch_step.keep)

section \<open>Identities\<close>

lemma micro_identity_artifact:
  assumes "micro cx r r'" "bm_get (st_identities (r_state r')) (OK_Artifact, h) = Some i"
  shows "bm_get (st_identities (r_state r)) (OK_Artifact, h) = Some i
    \<or> (\<exists>a. bm_get (st_artifacts (r_state r')) i = Some a \<and> so_content_hash a = h)"
  using assms(1)
  by cases (use assms(2) in \<open>auto simp: satisfy_step_frame write_batch_identities_frame artifact_row_def split: if_splits\<close>)

lemma micro_identity_testament:
  assumes "micro cx r r'" "bm_get (st_identities (r_state r')) (OK_Testament, h) = Some i"
  shows "bm_get (st_identities (r_state r)) (OK_Testament, h) = Some i
    \<or> (\<exists>t. bm_get (st_testaments (r_state r')) i = Some t \<and> so_content_hash t = h)"
  using assms(1)
  by cases (use assms(2) in \<open>auto simp: satisfy_step_frame write_batch_identities_frame testament_row_def split: if_splits\<close>)

lemma batch_distinct:
  "batch_ok cx s claims \<Longrightarrow> distinct (map nc_id claims) \<and> distinct (map nv_id (batch_validations claims))"
  using batch_ids_distinct by (auto simp: batch_ok_def)

lemma micro_identity_claim:
  assumes "micro cx r r'" "bm_get (st_identities (r_state r')) (OK_Claim, h) = Some i"
  shows "bm_get (st_identities (r_state r)) (OK_Claim, h) = Some i
    \<or> (\<exists>c. claim_at (r_state r') i = Some c \<and> so_content_hash c = h)"
  using assms(1)
proof cases
  case (m_generate claims)
  have d: "distinct (map (claim_hash cx) claims)" using m_generate by (auto simp: batch_ok_def)
  from m_generate assms(2) have "(\<exists>n \<in> set claims. claim_hash cx n = h \<and> nc_id n = i)
      \<or> bm_get (st_identities (r_state r)) (OK_Claim, h) = Some i"
    by (auto simp: write_batch_identities_claim [OF d])
  moreover have "claim_at (r_state r') (nc_id n) = Some (claim_row cx n)" if "n \<in> set claims" for n
    using m_generate that batch_distinct [OF m_generate(1)] by (auto simp: write_batch_claims)
  ultimately show ?thesis by (auto simp: claim_row_def)
qed (use assms(2) in \<open>auto simp: satisfy_step_frame\<close>)

lemma micro_identity_validation:
  assumes "micro cx r r'" "bm_get (st_identities (r_state r')) (OK_Validation, h) = Some i"
  shows "bm_get (st_identities (r_state r)) (OK_Validation, h) = Some i
    \<or> (\<exists>v. bm_get (st_validations (r_state r')) i = Some v \<and> so_content_hash v = h)"
  using assms(1)
proof cases
  case (m_generate claims)
  from m_generate assms(2) have "(\<exists>n \<in> set (batch_validations claims). validation_hash cx n = h \<and> nv_id n = i)
      \<or> bm_get (st_identities (r_state r)) (OK_Validation, h) = Some i"
    using write_batch_identity_validation by auto
  moreover have "bm_get (st_validations (r_state r')) (nv_id n) = Some (validation_row cx n)"
    if "n \<in> set (batch_validations claims)" for n
    using m_generate that batch_distinct [OF m_generate(1)] by (auto simp: write_batch_validations)
  ultimately show ?thesis by (metis validation_row_def stored_new_simps(2))
qed (use assms(2) in \<open>auto simp: satisfy_step_frame\<close>)

section \<open>Invariants of all rows of a table\<close>

text \<open>
  To keep a fact of every row it is enough to treat the new rows and the rewritten rows.
\<close>

lemma claims_preserved:
  assumes "micro cx r r'" "claim_at (r_state r') i = Some c'"
    and "claim_new cx (r_state r) i c' \<Longrightarrow> claim_at (r_state r) i = None \<Longrightarrow> P c'"
    and "\<And>c. claim_at (r_state r) i = Some c \<Longrightarrow> claim_step cx (r_state r) (r_state r') i c c' \<Longrightarrow> P c'"
  shows "P c'"
proof (cases "claim_at (r_state r) i")
  case None
  with assms(3) micro_claim_new [OF assms(1) None assms(2)] show ?thesis by blast
next
  case (Some c)
  from micro_claim [OF assms(1) Some] assms(2) have "claim_step cx (r_state r) (r_state r') i c c'" by simp
  with assms(4) Some show ?thesis by blast
qed

lemma validations_preserved:
  assumes "micro cx r r'" "bm_get (st_validations (r_state r')) i = Some v'"
    and "validation_new cx (r_state r) (r_state r') i v' \<Longrightarrow> bm_get (st_validations (r_state r)) i = None \<Longrightarrow> P v'"
    and "\<And>v. bm_get (st_validations (r_state r)) i = Some v \<Longrightarrow> validation_step v v' \<Longrightarrow> P v'"
  shows "P v'"
proof (cases "bm_get (st_validations (r_state r)) i")
  case None
  with assms(3) micro_validation_new [OF assms(1) None assms(2)] show ?thesis by blast
next
  case (Some v)
  from micro_validation [OF assms(1) Some] assms(2) have "validation_step v v'" by simp
  with assms(4) Some show ?thesis by blast
qed

lemma runs_preserved:
  assumes "micro cx r r'" "run_keys (r_state r)" "bm_get (st_runs (r_state r')) k = Some x'"
    and "run_new cx (r_state r) (r_state r') k x' \<Longrightarrow> bm_get (st_runs (r_state r)) k = None \<Longrightarrow> P x'"
    and "\<And>x. bm_get (st_runs (r_state r)) k = Some x \<Longrightarrow> run_step cx (r_state r) x x' \<Longrightarrow> P x'"
  shows "P x'"
proof (cases "bm_get (st_runs (r_state r)) k")
  case None
  with assms(4) micro_run_new [OF assms(1,2) None assms(3)] show ?thesis by blast
next
  case (Some x)
  from micro_run [OF assms(1,2) Some] assms(3) have "run_step cx (r_state r) x x'" by simp
  with assms(5) Some show ?thesis by blast
qed

lemma testaments_preserved:
  assumes "micro cx r r'" "bm_get (st_testaments (r_state r')) i = Some t'"
    and "testament_new cx (r_state r) (r_state r') i t' \<Longrightarrow> bm_get (st_testaments (r_state r)) i = None \<Longrightarrow> P t'"
    and "\<And>t. bm_get (st_testaments (r_state r)) i = Some t \<Longrightarrow> testament_step cx t t' \<Longrightarrow> P t'"
  shows "P t'"
proof (cases "bm_get (st_testaments (r_state r)) i")
  case None
  with assms(3) micro_testament_new [OF assms(1) None assms(2)] show ?thesis by blast
next
  case (Some t)
  from micro_testament [OF assms(1) Some] assms(2) have "testament_step cx t t'" by simp
  with assms(4) Some show ?thesis by blast
qed

lemma sets_preserved:
  assumes "micro cx r r'" "bm_get (st_evidence_sets (r_state r')) e = Some es'"
    and "set_new (r_state r) e es' \<Longrightarrow> bm_get (st_evidence_sets (r_state r)) e = None \<Longrightarrow> P es'"
    and "\<And>es. bm_get (st_evidence_sets (r_state r)) e = Some es
      \<Longrightarrow> set_step (r_state r) (r_state r') e es es' \<Longrightarrow> P es'"
  shows "P es'"
proof (cases "bm_get (st_evidence_sets (r_state r)) e")
  case None
  with assms(3) micro_set_new [OF assms(1) None assms(2)] show ?thesis by blast
next
  case (Some es)
  from micro_set [OF assms(1) Some] assms(2) have "set_step (r_state r) (r_state r') e es es'" by simp
  with assms(4) Some show ?thesis by blast
qed

lemma monitors_preserved:
  assumes "micro cx r r'" "bm_get (st_monitors (r_state r')) i = Some m'"
    and "monitor_new cx (r_state r) i m' \<Longrightarrow> bm_get (st_monitors (r_state r)) i = None \<Longrightarrow> P m'"
    and "\<And>m. bm_get (st_monitors (r_state r)) i = Some m \<Longrightarrow> monitor_step cx (r_state r) m m' \<Longrightarrow> P m'"
  shows "P m'"
proof (cases "bm_get (st_monitors (r_state r)) i")
  case None
  with assms(3) micro_monitor_new [OF assms(1) None assms(2)] show ?thesis by blast
next
  case (Some m)
  from micro_monitor [OF assms(1) Some] assms(2) have "monitor_step cx (r_state r) m m'" by simp
  with assms(4) Some show ?thesis by blast
qed

end
