(* ===== verification/Admission.thy ===== *)
theory Admission
  imports Reducer
begin

text \<open>
  Policy for newly proposed work, \<open>focal-core/src/admission.rs\<close>.  It reads the draft state
  before the command runs; it is not applied to entries that are replayed.
\<close>

type_synonym admission = "domain_outcome + unit"

fun try_each :: "('a \<Rightarrow> admission) \<Rightarrow> 'a list \<Rightarrow> admission" where
  "try_each f [] = Inr ()"
| "try_each f (x # xs) = (case f x of Inl e \<Rightarrow> Inl e | Inr _ \<Rightarrow> try_each f xs)"

lemma try_each_Inr [simp]: "try_each f xs = Inr () \<longleftrightarrow> (\<forall>x \<in> set xs. f x = Inr ())"
  by (induction xs) (auto split: sum.splits)

definition admit_validation :: "validation_content \<Rightarrow> admission" where
  "admit_validation v =
     (if vc_kind v = VK_Receipt
         \<and> (vc_phase v \<noteq> PH_WholeWork \<or> vc_quality_bar v \<noteq> None \<or> vc_handlers v \<noteq> []
            \<or> bm_keys (vc_evidence_schemas v) \<noteq> [])
      then Inl (Refuse EC_InvalidSchema) else Inr ())"

definition admit_claim :: "new_claim \<Rightarrow> admission" where
  "admit_claim c = try_each (\<lambda>v. admit_validation (nv_content v)) (nc_validations c)"

definition diagnostic_content :: "artifact_content \<Rightarrow> ledger_id \<Rightarrow> participant_id \<Rightarrow> receipt_fence \<Rightarrow> bool" where
  "diagnostic_content c l p fence \<longleftrightarrow> ac_kind c = ''error'' \<and> ac_ledger c = l \<and> ac_schema c = SCHEMA
     \<and> ac_schema_hash c \<noteq> 0 \<and> ac_receipt c = Some fence \<and> ac_producer c = p"

definition eligible_diagnostic :: "artifact \<Rightarrow> ledger_id \<Rightarrow> participant_id \<Rightarrow> receipt_fence \<Rightarrow> bool" where
  "eligible_diagnostic a l p fence \<longleftrightarrow>
     diagnostic_content (so_content a) l p fence \<and> al_custody_revision (so_lifecycle a) \<noteq> 0"

text \<open>The manifest walk of \<open>validate_report\<close>: the first eligible diagnostic admits the report.\<close>

fun report_diagnostic ::
    "state \<Rightarrow> ledger_id \<Rightarrow> participant_id \<Rightarrow> receipt_fence \<Rightarrow> artifact_ref list \<Rightarrow> admission" where
  "report_diagnostic s l p fence [] = Inl (Refuse EC_EvidenceNotDurable)"
| "report_diagnostic s l p fence (a # rest) = (case bm_get (st_artifacts s) (ar_id a) of
      None \<Rightarrow> Inl (Refuse EC_InvalidManifest)
    | Some x \<Rightarrow>
        if so_content_hash x \<noteq> ar_hash a then Inl (Refuse EC_InvalidManifest)
        else if eligible_diagnostic x l p fence then Inr ()
        else report_diagnostic s l p fence rest)"

definition validate_close ::
    "state \<Rightarrow> participant_id \<Rightarrow> claim_id \<Rightarrow> receipt_fence \<Rightarrow> evidence_set_id \<Rightarrow> artifact_ref list \<Rightarrow> admission" where
  "validate_close s p i fence e manifest = (case claim_at s i of
      None \<Rightarrow> Inl (Refuse EC_UnknownObject)
    | Some parent \<Rightarrow> (case cl_receipt (so_lifecycle parent) of
        None \<Rightarrow> Inl (Refuse EC_StaleReceipt)
      | Some entitlement \<Rightarrow>
          if rc_fence entitlement \<noteq> fence then Inl (Refuse EC_StaleReceipt)
          else if rc_holder entitlement \<noteq> p then Inl (Refuse EC_WrongActor)
          else (case bm_get (st_evidence_sets s) e of
              None \<Rightarrow> Inl (Refuse EC_UnknownObject)
            | Some es \<Rightarrow>
                if es_claim es \<noteq> i \<or> es_receipt es \<noteq> fence \<or> es_closed es then Inl (Refuse EC_StaleReceipt)
                else if es_artifacts es \<noteq> manifest then Inl (Refuse EC_InvalidManifest)
                else report_diagnostic s (cc_ledger (so_content parent)) p fence manifest)))"

definition validate_report :: "state \<Rightarrow> participant_id \<Rightarrow> command \<Rightarrow> admission" where
  "validate_report s p cmd = (case cmd of
      FailTestamentGeneration _ _ _ _ _ \<Rightarrow> Inl (Refuse EC_InvalidSchema)
    | CloseTestament i fence _ e manifest _ _ out \<Rightarrow>
        if out = OC_Complete then Inr () else validate_close s p i fence e manifest
    | _ \<Rightarrow> Inr ())"

text \<open>The last free slot of an evidence set, once none of the staged artifacts is a diagnostic.\<close>

definition admit_last_slot ::
    "host \<Rightarrow> state \<Rightarrow> participant_id \<Rightarrow> authority_context \<Rightarrow> claim \<Rightarrow> receipt_fence \<Rightarrow> evidence_set
       \<Rightarrow> new_artifact \<Rightarrow> admission" where
  "admit_last_slot h s p auth parent fence es candidate =
     (case artifact_content_hash h (na_content candidate) of
        Inl e \<Rightarrow> Inl (outcome_of_canonical e)
      | Inr x \<Rightarrow> (case bm_get (st_identities s) (OK_Artifact, x) of
          Some i \<Rightarrow>
            if ArtifactRef i x \<in> set (es_artifacts es) then Inr ()
            else (case bm_get (st_artifacts s) i of
                None \<Rightarrow> Inl (Refuse EC_Capacity)
              | Some a \<Rightarrow>
                  if so_content_hash a = x \<and> eligible_diagnostic a (cc_ledger (so_content parent)) p fence
                  then Inr () else Inl (Refuse EC_Capacity))
        | None \<Rightarrow>
            if \<not> diagnostic_content (na_content candidate) (cc_ledger (so_content parent)) p fence
            then Inl (Refuse EC_Capacity)
            else (case List.find (accepts_attestation x) (au_evidence auth) of
                None \<Rightarrow> Inl (Refuse EC_EvidenceNotDurable)
              | Some att \<Rightarrow>
                  if ea_custody_revision att = 0 then Inl (Refuse EC_EvidenceNotDurable) else Inr ())))"

definition staged_diagnostic :: "state \<Rightarrow> ledger_id \<Rightarrow> participant_id \<Rightarrow> receipt_fence \<Rightarrow> artifact_ref \<Rightarrow> bool" where
  "staged_diagnostic s l p fence a = (case bm_get (st_artifacts s) (ar_id a) of
      None \<Rightarrow> False
    | Some x \<Rightarrow> so_content_hash x = ar_hash a \<and> eligible_diagnostic x l p fence)"

definition admit_attachment ::
    "host \<Rightarrow> state \<Rightarrow> limits \<Rightarrow> participant_id \<Rightarrow> authority_context \<Rightarrow> claim_id \<Rightarrow> receipt_fence
       \<Rightarrow> evidence_set_id \<Rightarrow> new_artifact \<Rightarrow> admission" where
  "admit_attachment h s lims p auth i fence e candidate = (case bm_get (st_evidence_sets s) e of
      None \<Rightarrow> Inr ()
    | Some es \<Rightarrow>
        if length (es_artifacts es) \<ge> lim_max_artifacts_per_set lims
           \<or> usize_add (length (es_artifacts es)) 1 \<noteq> Some (lim_max_artifacts_per_set lims) then Inr ()
        else (case claim_at s i of
            None \<Rightarrow> Inl (Refuse EC_UnknownObject)
          | Some parent \<Rightarrow> (case cl_receipt (so_lifecycle parent) of
              None \<Rightarrow> Inl (Refuse EC_StaleReceipt)
            | Some entitlement \<Rightarrow>
                if rc_fence entitlement \<noteq> fence \<or> es_receipt es \<noteq> fence \<or> es_claim es \<noteq> i \<or> es_closed es
                then Inl (Refuse EC_StaleReceipt)
                else if rc_holder entitlement \<noteq> p then Inl (Refuse EC_WrongActor)
                else if list_ex (staged_diagnostic s (cc_ledger (so_content parent)) p fence) (es_artifacts es)
                then Inr ()
                else admit_last_slot h s p auth parent fence es candidate)))"

definition validate_diagnostic_headroom ::
    "host \<Rightarrow> state \<Rightarrow> limits \<Rightarrow> participant_id \<Rightarrow> authority_context \<Rightarrow> command \<Rightarrow> admission" where
  "validate_diagnostic_headroom h s lims p auth cmd = (case cmd of
      AttachArtifact i fence e candidate \<Rightarrow> admit_attachment h s lims p auth i fence e candidate
    | _ \<Rightarrow> Inr ())"

definition admit_stored_requirements :: "state \<Rightarrow> claim_id \<Rightarrow> admission" where
  "admit_stored_requirements s i = (case claim_at s i of
      None \<Rightarrow> Inr ()
    | Some c \<Rightarrow> try_each (\<lambda>q. case bm_get (st_validations s) (rq_id q) of
          None \<Rightarrow> Inr ()
        | Some v \<Rightarrow> admit_validation (so_content v)) (cc_requirements (so_content c)))"

definition validate_admission ::
    "host \<Rightarrow> state \<Rightarrow> limits \<Rightarrow> participant_id \<Rightarrow> authority_context \<Rightarrow> command \<Rightarrow> admission" where
  "validate_admission h s lims p auth cmd =
     (case validate_report s p cmd of
        Inl e \<Rightarrow> Inl e
      | Inr _ \<Rightarrow> (case validate_diagnostic_headroom h s lims p auth cmd of
          Inl e \<Rightarrow> Inl e
        | Inr _ \<Rightarrow> (case cmd of
            GenerateClaim c \<Rightarrow> admit_claim c
          | SupersedeClaim _ c \<Rightarrow> admit_claim c
          | GenerateClaimBatch cs \<Rightarrow> try_each admit_claim cs
          | AcknowledgeTestament i _ \<Rightarrow> admit_stored_requirements s i
          | BeginWholeWorkValidation i \<Rightarrow> admit_stored_requirements s i
          | CompleteWholeWork i \<Rightarrow> admit_stored_requirements s i
          | _ \<Rightarrow> Inr ())))"

end
