(* ===== verification/Engine.thy ===== *)
theory Engine
  imports ReduceCommands Admission
begin

text \<open>
  The ordered core: \<open>Core\<close> of \<open>focal-core/src/lib.rs\<close>, the version dispatch of
  \<open>execution.rs\<close> and \<open>Core::stage_recorded\<close> of \<open>pending.rs\<close>.  Preparing a request runs
  admission and the reducer on a draft and keeps only the prepared record; applying it runs
  the reducer again at the next sequence number and publishes the draft with the receipt.
  Staging runs here on the committed state (no pending prefix) with the disabled recorder.
\<close>

section \<open>Records\<close>

record core =
  co_state :: state
  co_limits :: limits

definition core_new :: "ledger_id \<Rightarrow> limits \<Rightarrow> core" where
  "core_new l lims = \<lparr>co_state = state_new l, co_limits = lims\<rparr>"

record footprint =
  fp_ledger :: ledger_id
  fp_session_exclusive :: bool

record prepared_mutation =
  pm_schema :: u16
  pm_base :: session_seq
  pm_input :: authenticated_input
  pm_command_hash :: content_hash
  pm_footprint :: footprint

record apply_result =
  ap_receipt :: mutation_receipt
  ap_deltas :: "delta list"
  ap_effects :: "effect_intent list"

datatype core_error =
    CoreCanonical canonical_error
  | CoreUnsupportedSchema u16
  | CoreSequence session_seq session_seq
  | StalePreparation
  | Determinism domain_outcome
  | CoreCodec
  | CoreChecksum
  | CoreExhausted

section \<open>Preparing\<close>

definition input_key :: "authenticated_input \<Rightarrow> request_key" where
  "input_key i = RequestKey (ai_principal i) (ai_request_epoch i) (ai_request_id i)"

definition check_epoch :: "state \<Rightarrow> authenticated_input \<Rightarrow> admission" where
  "check_epoch s input = (case ai_command input of
      NegotiateEpoch _ \<Rightarrow> Inr ()
    | _ \<Rightarrow> (case bm_get (st_epochs s) (ai_principal input) of
        None \<Rightarrow> Inl (Refuse EC_RequestEpochNotAdmitted)
      | Some w \<Rightarrow>
          if ai_request_epoch input < ew_minimum w then Inl (Refuse EC_RequestHistoryExpired)
          else if \<not> bs_contains (ew_admitted w) (ai_request_epoch input)
          then Inl (Refuse EC_RequestEpochNotAdmitted) else Inr ()))"

definition check_revision :: "state \<Rightarrow> authenticated_input \<Rightarrow> admission" where
  "check_revision s input = (case ai_expected_revision input of
      None \<Rightarrow> Inr ()
    | Some expected \<Rightarrow> (case command_claim_id (ai_command input) of
        None \<Rightarrow> Inl (Refuse EC_RevisionConflict)
      | Some i \<Rightarrow>
          if map_option (\<lambda>c. cl_revision (so_lifecycle c)) (claim_at s i) \<noteq> Some expected
          then Inl (Refuse EC_RevisionConflict) else Inr ()))"

definition check_input :: "codec \<Rightarrow> core \<Rightarrow> authenticated_input \<Rightarrow> admission" where
  "check_input k co input =
     (if ai_ledger input \<noteq> st_ledger (co_state co) then Inl (Refuse EC_InvalidNamespace)
      else if is_zero (ai_principal input) \<or> is_zero (ai_request_id input) then Inl (Refuse EC_InvalidSchema)
      else (case postcard_input_size k input of
          None \<Rightarrow> Inl (Refuse EC_InvalidSchema)
        | Some n \<Rightarrow> if n > lim_max_command_bytes (co_limits co) then Inl (Refuse EC_Capacity) else Inr ()))"

definition check_duplicate :: "state \<Rightarrow> request_key \<Rightarrow> content_hash \<Rightarrow> admission" where
  "check_duplicate s key h = (case bm_get (st_receipts s) key of
      None \<Rightarrow> Inr ()
    | Some rc \<Rightarrow>
        if mr_command_hash rc = h then Inl (Duplicate rc) else Inl (Refuse EC_IdempotencyConflict))"

definition publish :: "request_key \<Rightarrow> mutation_receipt \<Rightarrow> session_seq \<Rightarrow> state \<Rightarrow> state" where
  "publish key rc sequence s =
     s\<lparr>st_receipts := bm_insert key rc (st_receipts s), st_sequence := sequence\<rparr>"

definition stage ::
    "host \<Rightarrow> codec \<Rightarrow> core \<Rightarrow> authenticated_input \<Rightarrow> domain_outcome + prepared_mutation \<times> apply_result \<times> state" where
  "stage h k co input =
     (let s = co_state co; key = input_key input in
     case check_input k co input of Inl e \<Rightarrow> Inl e | Inr _ \<Rightarrow>
     case command_hash h k input of Inl _ \<Rightarrow> Inl (Refuse EC_InvalidSchema) | Inr hash \<Rightarrow>
     case check_duplicate s key hash of Inl e \<Rightarrow> Inl e | Inr _ \<Rightarrow>
     case check_epoch s input of Inl e \<Rightarrow> Inl e | Inr _ \<Rightarrow>
     if bm_len (st_receipts s) \<ge> lim_max_requests (co_limits co) then Inl (Refuse EC_Capacity) else
     case check_revision s input of Inl e \<Rightarrow> Inl e | Inr _ \<Rightarrow>
     case checked_add (st_sequence s) 1 of None \<Rightarrow> Inl (Refuse EC_Capacity) | Some sequence \<Rightarrow>
     case validate_admission h s (co_limits co) (ai_principal input) (ai_authority input) (ai_command input) of
       Inl e \<Rightarrow> Inl e | Inr _ \<Rightarrow>
     case execute_on h (co_limits co) input sequence s of
       Inl e \<Rightarrow> Inl e
     | Inr (draft, result, deltas, effects) \<Rightarrow>
         let rc = \<lparr>mr_ledger = st_ledger s, mr_key = key, mr_sequence = sequence,
                   mr_command_hash = hash, mr_outcome = result\<rparr>
         in Inr (\<lparr>pm_schema = SCHEMA, pm_base = st_sequence s, pm_input = input, pm_command_hash = hash,
                  pm_footprint = \<lparr>fp_ledger = st_ledger s, fp_session_exclusive = True\<rparr>\<rparr>,
                 \<lparr>ap_receipt = rc, ap_deltas = deltas, ap_effects = effects\<rparr>,
                 publish key rc sequence draft))"

definition prepare :: "host \<Rightarrow> codec \<Rightarrow> core \<Rightarrow> authenticated_input \<Rightarrow> domain_outcome + prepared_mutation" where
  "prepare h k co input = map_sum id fst (stage h k co input)"

section \<open>Applying\<close>

definition version_from_schema :: "u16 \<Rightarrow> core_error + unit" where
  "version_from_schema schema = (if schema = SCHEMA then Inr () else Inl (CoreUnsupportedSchema schema))"

definition apply_mutation ::
    "host \<Rightarrow> codec \<Rightarrow> core \<Rightarrow> session_seq \<Rightarrow> prepared_mutation \<Rightarrow> core_error + apply_result \<times> core" where
  "apply_mutation h k co sequence pm =
     (let s = co_state co in
     case version_from_schema (pm_schema pm) of Inl e \<Rightarrow> Inl e | Inr _ \<Rightarrow>
     case checked_add (st_sequence s) 1 of None \<Rightarrow> Inl CoreExhausted | Some expected \<Rightarrow>
     if sequence \<noteq> expected then Inl (CoreSequence expected sequence)
     else if pm_base pm \<noteq> st_sequence s then Inl StalePreparation
     else if ai_ledger (pm_input pm) \<noteq> st_ledger s then Inl CoreChecksum
     else (case command_hash h k (pm_input pm) of
         Inl e \<Rightarrow> Inl (CoreCanonical e)
       | Inr hash \<Rightarrow>
           if hash \<noteq> pm_command_hash pm then Inl CoreChecksum
           else (case execute_on h (co_limits co) (pm_input pm) sequence s of
               Inl e \<Rightarrow> Inl (Determinism e)
             | Inr (draft, result, deltas, effects) \<Rightarrow>
                 let key = input_key (pm_input pm);
                     rc = \<lparr>mr_ledger = st_ledger s, mr_key = key, mr_sequence = sequence,
                           mr_command_hash = pm_command_hash pm, mr_outcome = result\<rparr>
                 in Inr (\<lparr>ap_receipt = rc, ap_deltas = deltas, ap_effects = effects\<rparr>,
                         co\<lparr>co_state := publish key rc sequence draft\<rparr>))))"

section \<open>Committing a request\<close>

text \<open>
  What a caller of the two entry points does: prepare a request on a core and apply the
  prepared record at the next sequence number.
\<close>

definition commit :: "host \<Rightarrow> codec \<Rightarrow> core \<Rightarrow> authenticated_input \<Rightarrow> (apply_result \<times> core) option" where
  "commit h k co input = (case prepare h k co input of
      Inl _ \<Rightarrow> None
    | Inr pm \<Rightarrow> (case apply_mutation h k co (st_sequence (co_state co) + 1) pm of
        Inl _ \<Rightarrow> None
      | Inr res \<Rightarrow> Some res))"

lemma stage_cases:
  assumes "stage h k co input = Inr (pm, res, s')"
  obtains hash sequence draft result deltas effects where
    "check_input k co input = Inr ()" "command_hash h k input = Inr hash"
    "check_duplicate (co_state co) (input_key input) hash = Inr ()"
    "check_epoch (co_state co) input = Inr ()" "check_revision (co_state co) input = Inr ()"
    "bm_len (st_receipts (co_state co)) < lim_max_requests (co_limits co)"
    "checked_add (st_sequence (co_state co)) 1 = Some sequence"
    "validate_admission h (co_state co) (co_limits co) (ai_principal input) (ai_authority input)
       (ai_command input) = Inr ()"
    "execute_on h (co_limits co) input sequence (co_state co) = Inr (draft, result, deltas, effects)"
    "pm = \<lparr>pm_schema = SCHEMA, pm_base = st_sequence (co_state co), pm_input = input, pm_command_hash = hash,
       pm_footprint = \<lparr>fp_ledger = st_ledger (co_state co), fp_session_exclusive = True\<rparr>\<rparr>"
    "ap_receipt res = \<lparr>mr_ledger = st_ledger (co_state co), mr_key = input_key input, mr_sequence = sequence,
       mr_command_hash = hash, mr_outcome = result\<rparr>"
    "ap_deltas res = deltas" "ap_effects res = effects"
    "s' = publish (input_key input) (ap_receipt res) sequence draft"
  using assms unfolding stage_def Let_def
  by (auto split: sum.splits option.splits if_splits prod.splits)

lemma stage_apply:
  assumes "stage h k co input = Inr (pm, res, s')"
  shows "apply_mutation h k co (st_sequence (co_state co) + 1) pm = Inr (res, co\<lparr>co_state := s'\<rparr>)"
  using assms
proof (cases rule: stage_cases)
  case (1 hash sequence draft result deltas effects)
  have seq: "sequence = st_sequence (co_state co) + 1"
    using 1(7) by (simp add: checked_add_def split: if_splits)
  have ledger: "ai_ledger input = st_ledger (co_state co)"
    using 1(1) by (auto simp: check_input_def split: if_splits)
  have "res = \<lparr>ap_receipt = ap_receipt res, ap_deltas = ap_deltas res, ap_effects = ap_effects res\<rparr>" by simp
  with 1 seq ledger show ?thesis
    by (simp add: apply_mutation_def version_from_schema_def Let_def)
qed

lemma commit_stage [code]:
  "commit h k co input = (case stage h k co input of
      Inl _ \<Rightarrow> None
    | Inr (_, res, s') \<Rightarrow> Some (res, co\<lparr>co_state := s'\<rparr>))"
  by (auto simp: commit_def prepare_def stage_apply split: sum.splits)

end
