(* ===== verification/Reachability.thy ===== *)
theory Reachability
  imports Evolution Engine
begin

text \<open>
  Reachable cores and how an invariant of the ledger reaches them.  The interface is the locale
  \<open>ledger_invariant\<close>: a predicate on published states, a predicate on the draft a command works
  on, and the obligations that they hold initially, carry over to a draft, survive every step of
  the machine and carry over to the published state.  Its lemma is that every core reachable from
  an empty one by applied mutations satisfies the published predicate.
\<close>

section \<open>The base facts\<close>

definition artifact_ref_at :: "state \<Rightarrow> artifact_id \<Rightarrow> content_hash \<Rightarrow> bool" where
  "artifact_ref_at s i h \<longleftrightarrow> (\<exists>a. bm_get (st_artifacts s) i = Some a \<and> so_content_hash a = h)"

lemma artifact_verified_at: "artifact_verified s (ArtifactRef i h) \<longleftrightarrow> artifact_ref_at s i h"
  by (simp add: artifact_verified_iff artifact_ref_at_def)

lemma micro_artifact_verified:
  assumes "micro cx r r'" "artifact_verified (r_state r) a"
  shows "artifact_verified (r_state r') a"
  using assms by (auto simp: artifact_verified_iff dest: micro_artifact)

lemma micro_artifact_index:
  assumes "micro cx r r'" "artifact_index (r_state r)"
  shows "artifact_index (r_state r')"
  unfolding artifact_index_def
proof (intro allI impI)
  fix h i
  assume "bm_get (st_identities (r_state r')) (OK_Artifact, h) = Some i"
  with micro_identity_artifact [OF assms(1)] consider
      "bm_get (st_identities (r_state r)) (OK_Artifact, h) = Some i"
    | "artifact_ref_at (r_state r') i h" by (auto simp: artifact_ref_at_def)
  then show "artifact_verified (r_state r') (ArtifactRef i h)"
  proof cases
    case 1
    with assms(2) have "artifact_verified (r_state r) (ArtifactRef i h)" by (simp add: artifact_index_def)
    with assms(1) show ?thesis by (rule micro_artifact_verified)
  qed (simp add: artifact_verified_at)
qed

lemma late_edge: "lifecycle_edge a b \<Longrightarrow> late a \<Longrightarrow> late b"
  using lifecycle_edge_active [of a b] by (auto simp: late_def lifecycle_edge_def control_fenced_def)

lemma claim_step_late:
  assumes "claim_step cx s s' i c c'" "cl_local_complete (so_lifecycle c) \<longrightarrow> late (status_of c)"
  shows "cl_local_complete (so_lifecycle c') \<longrightarrow> late (status_of c')"
  using assms
proof cases
  case (status st w)
  then show ?thesis using assms(2) late_edge by (auto simp: status_guard_def)
qed (auto simp: so_lifecycle_update late_def working_def)

lemma micro_complete_late:
  assumes "micro cx r r'" "complete_late (r_state r)"
  shows "complete_late (r_state r')"
  unfolding complete_late_def
proof (intro allI impI)
  fix i c'
  assume c': "claim_at (r_state r') i = Some c'" and lc: "cl_local_complete (so_lifecycle c')"
  show "late (status_of c')"
  proof (cases "claim_at (r_state r) i")
    case None
    from micro_claim_new [OF assms(1) None c'] lc show ?thesis
      by cases (simp add: claim_row_def initial_lifecycle_def)
  next
    case (Some c)
    with micro_claim [OF assms(1)] c' have "claim_step cx (r_state r) (r_state r') i c c'" by fastforce
    then show ?thesis using claim_step_late lc assms(2) Some by (auto simp: complete_late_def)
  qed
qed

lemma run_row_id [simp]:
  "run_id (new_run v k manifest first) = k" "run_id (receipt_run h i v k manifest) = k"
  by (simp_all add: new_run_def receipt_run_def)

lemma micro_run_keys:
  assumes "micro cx r r'" "run_keys (r_state r)"
  shows "run_keys (r_state r')"
  unfolding run_keys_def
proof (intro allI impI)
  fix k x'
  assume "bm_get (st_runs (r_state r')) k = Some x'"
  then show "run_id x' = k"
  proof (rule runs_preserved [OF assms])
    assume "run_new cx (r_state r) (r_state r') k x'"
    then show ?thesis by cases simp_all
  next
    fix x
    assume "bm_get (st_runs (r_state r)) k = Some x" and st: "run_step cx (r_state r) x x'"
    with assms(2) have "run_id x = k" by (simp add: run_keys_def)
    with st show ?thesis by cases simp_all
  qed
qed

lemma micro_base: "micro cx r r' \<Longrightarrow> base (r_state r) \<Longrightarrow> base (r_state r')"
  by (simp add: base_def micro_artifact_index micro_complete_late micro_run_keys)

lemma micros_base: "micros cx r r' \<Longrightarrow> base (r_state r) \<Longrightarrow> base (r_state r')"
  by (induction rule: rtranclp_induct) (auto intro: micro_base)

lemma micros_frame:
  assumes "micros cx r r'"
  shows "st_ledger (r_state r') = st_ledger (r_state r) \<and> st_sequence (r_state r') = st_sequence (r_state r)
    \<and> st_receipts (r_state r') = st_receipts (r_state r)"
  using assms by (induction rule: rtranclp_induct) (auto simp: micro_frame)

lemma base_new: "base (state_new l)"
  by (simp add: base_def artifact_index_def complete_late_def run_keys_def state_new_def)

lemma base_publish: "base (publish key rc q s) \<longleftrightarrow> base s"
  by (simp add: base_def artifact_index_def complete_late_def artifact_verified_def run_keys_def publish_def)

lemma publish_sel [simp]:
  "st_ledger (publish key rc q s) = st_ledger s" "st_sequence (publish key rc q s) = q"
  "st_claims (publish key rc q s) = st_claims s" "st_validations (publish key rc q s) = st_validations s"
  "st_artifacts (publish key rc q s) = st_artifacts s" "st_testaments (publish key rc q s) = st_testaments s"
  "st_evidence_sets (publish key rc q s) = st_evidence_sets s" "st_runs (publish key rc q s) = st_runs s"
  "st_monitors (publish key rc q s) = st_monitors s" "st_identities (publish key rc q s) = st_identities s"
  "st_epochs (publish key rc q s) = st_epochs s" "st_receipts (publish key rc q s) = bm_insert key rc (st_receipts s)"
  by (simp_all add: publish_def)

section \<open>Applied mutations\<close>

definition input_ctx :: "host \<Rightarrow> limits \<Rightarrow> authenticated_input \<Rightarrow> session_seq \<Rightarrow> ctx" where
  "input_ctx h lims input q =
     \<lparr>cx_host = h, cx_limits = lims,
      cx_input = \<lparr>di_principal = ai_principal input, di_authority = ai_authority input,
                  di_command = ai_command input, di_legacy_epoch = Some (ai_request_epoch input)\<rparr>,
      cx_sequence = q\<rparr>"

lemma input_ctx_sel [simp]:
  "cx_host (input_ctx h lims input q) = h" "cx_limits (input_ctx h lims input q) = lims"
  "cx_sequence (input_ctx h lims input q) = q" "principal (input_ctx h lims input q) = ai_principal input"
  "authority (input_ctx h lims input q) = ai_authority input"
  "di_command (cx_input (input_ctx h lims input q)) = ai_command input"
  "di_legacy_epoch (cx_input (input_ctx h lims input q)) = Some (ai_request_epoch input)"
  by (simp_all add: input_ctx_def)

abbreviation fresh_reducer :: "state \<Rightarrow> reducer" where
  "fresh_reducer s \<equiv> \<lparr>r_state = s, r_deltas = [], r_effects = []\<rparr>"

lemma apply_cases:
  assumes "apply_mutation h k co q pm = Inr (res, co')"
  obtains draft result where
    "unat q = Suc (unat (st_sequence (co_state co)))"
    "execute_on h (co_limits co) (pm_input pm) q (co_state co) = Inr (draft, result, ap_deltas res, ap_effects res)"
    "ap_receipt res = \<lparr>mr_ledger = st_ledger (co_state co), mr_key = input_key (pm_input pm), mr_sequence = q,
       mr_command_hash = pm_command_hash pm, mr_outcome = result\<rparr>"
    "co' = co\<lparr>co_state := publish (input_key (pm_input pm)) (ap_receipt res) q draft\<rparr>"
    "command_hash h k (pm_input pm) = Inr (pm_command_hash pm)"
    "ai_ledger (pm_input pm) = st_ledger (co_state co)"
  using assms unfolding apply_mutation_def Let_def
  by (auto split: sum.splits option.splits if_splits prod.splits simp: checked_add_one_unat)

lemma apply_micros:
  assumes "apply_mutation h k co q pm = Inr (res, co')" "base (co_state co)"
  obtains draft where
    "micros (input_ctx h (co_limits co) (pm_input pm) q) (fresh_reducer (co_state co))
       \<lparr>r_state = draft, r_deltas = ap_deltas res, r_effects = ap_effects res\<rparr>"
    "co' = co\<lparr>co_state := publish (input_key (pm_input pm)) (ap_receipt res) q draft\<rparr>"
    "unat q = Suc (unat (st_sequence (co_state co)))"
  using assms(1)
proof (cases rule: apply_cases)
  case (1 draft result)
  with execute_domain_micros [of "input_ctx h (co_limits co) (pm_input pm) q" "co_state co"] assms(2) that
  show thesis by (auto simp: execute_on_def input_ctx_def)
qed

inductive reachable_core :: "host \<Rightarrow> codec \<Rightarrow> ledger_id \<Rightarrow> limits \<Rightarrow> core \<Rightarrow> bool" for h k l lims where
  start: "reachable_core h k l lims (core_new l lims)"
| applied: "reachable_core h k l lims co \<Longrightarrow> apply_mutation h k co q pm = Inr (res, co')
    \<Longrightarrow> reachable_core h k l lims co'"

lemma reachable_base: "reachable_core h k l lims co \<Longrightarrow> base (co_state co)"
proof (induction rule: reachable_core.induct)
  case (applied co q pm res co')
  from applied(2,3) show ?case
  proof (rule apply_micros)
    fix draft
    assume m: "micros (input_ctx h (co_limits co) (pm_input pm) q) (fresh_reducer (co_state co))
       \<lparr>r_state = draft, r_deltas = ap_deltas res, r_effects = ap_effects res\<rparr>"
      and co': "co' = co\<lparr>co_state := publish (input_key (pm_input pm)) (ap_receipt res) q draft\<rparr>"
    from micros_base [OF m] applied(3) show ?case by (simp add: co' base_publish)
  qed
qed (simp add: core_new_def base_new)

lemma reachable_frame: "reachable_core h k l lims co \<Longrightarrow> co_limits co = lims \<and> st_ledger (co_state co) = l"
proof (induction rule: reachable_core.induct)
  case (applied co q pm res co')
  from applied(2) reachable_base [OF applied(1)] show ?case
  proof (rule apply_micros)
    fix draft
    assume m: "micros (input_ctx h (co_limits co) (pm_input pm) q) (fresh_reducer (co_state co))
       \<lparr>r_state = draft, r_deltas = ap_deltas res, r_effects = ap_effects res\<rparr>"
      and co': "co' = co\<lparr>co_state := publish (input_key (pm_input pm)) (ap_receipt res) q draft\<rparr>"
    from micros_frame [OF m] applied(3) show ?case by (simp add: co')
  qed
qed (simp add: core_new_def state_new_def)

section \<open>Invariants\<close>

definition serves :: "host \<Rightarrow> state \<Rightarrow> ctx \<Rightarrow> bool" where
  "serves h s cx \<longleftrightarrow> cx_host cx = h \<and> unat (cx_sequence cx) = Suc (unat (st_sequence s))"

locale ledger_invariant =
  fixes h :: host and published :: "state \<Rightarrow> bool" and draft :: "state \<Rightarrow> bool"
  assumes initial: "published (state_new l)"
    and enter: "published s \<Longrightarrow> draft s"
    and preserved: "micro cx r r' \<Longrightarrow> serves h (r_state r) cx \<Longrightarrow> base (r_state r) \<Longrightarrow> draft (r_state r) \<Longrightarrow> draft (r_state r')"
    and leave: "draft s \<Longrightarrow> unat q = Suc (unat (st_sequence s)) \<Longrightarrow> published (publish key rc q s)"
begin

lemma steps:
  assumes "micros cx r r'" "serves h (r_state r) cx" "base (r_state r)" "draft (r_state r)"
  shows "draft (r_state r')"
  using assms(1)
proof (induction rule: rtranclp_induct)
  case (step r1 r2)
  have "serves h (r_state r1) cx" using assms(2) micros_frame [OF step(1)] by (simp add: serves_def)
  moreover have "base (r_state r1)" using micros_base [OF step(1) assms(3)] .
  ultimately show ?case using preserved [OF step(2)] step(3) by blast
qed (rule assms)

lemma applied_keeps:
  assumes "apply_mutation h k co q pm = Inr (res, co')" "base (co_state co)" "published (co_state co)"
  shows "published (co_state co')"
  using assms(1,2)
proof (rule apply_micros)
  fix d
  assume m: "micros (input_ctx h (co_limits co) (pm_input pm) q) (fresh_reducer (co_state co))
       \<lparr>r_state = d, r_deltas = ap_deltas res, r_effects = ap_effects res\<rparr>"
    and co': "co' = co\<lparr>co_state := publish (input_key (pm_input pm)) (ap_receipt res) q d\<rparr>"
    and q: "unat q = Suc (unat (st_sequence (co_state co)))"
  have "draft d" using steps [OF m] assms(2) enter [OF assms(3)] q by (simp add: serves_def)
  moreover have "st_sequence d = st_sequence (co_state co)" using micros_frame [OF m] by simp
  ultimately show ?thesis using leave q by (simp add: co')
qed

lemma reachable: "reachable_core h k l lims co \<Longrightarrow> published (co_state co)"
proof (induction rule: reachable_core.induct)
  case (applied co q pm res co')
  from applied(2) reachable_base [OF applied(1)] applied(3) show ?case by (rule applied_keeps)
qed (simp add: core_new_def initial)

end

text \<open>An invariant that is kept only where another one is known.\<close>

locale dependent_invariant = known: ledger_invariant h known_published known_draft
  for h known_published known_draft +
  fixes published :: "state \<Rightarrow> bool" and draft :: "state \<Rightarrow> bool"
  assumes initial: "published (state_new l)"
    and enter: "published s \<Longrightarrow> draft s"
    and preserved: "micro cx r r' \<Longrightarrow> serves h (r_state r) cx \<Longrightarrow> base (r_state r) \<Longrightarrow> known_draft (r_state r)
      \<Longrightarrow> known_draft (r_state r') \<Longrightarrow> draft (r_state r) \<Longrightarrow> draft (r_state r')"
    and leave: "draft s \<Longrightarrow> unat q = Suc (unat (st_sequence s)) \<Longrightarrow> published (publish key rc q s)"

sublocale dependent_invariant \<subseteq> both: ledger_invariant h
  "\<lambda>s. known_published s \<and> published s" "\<lambda>s. known_draft s \<and> draft s"
proof unfold_locales
  show "known_published (state_new l) \<and> published (state_new l)" for l
    by (intro conjI known.initial initial)
  show "known_draft s \<and> draft s" if "known_published s \<and> published s" for s
    using that by (intro conjI known.enter enter) simp_all
  show "known_draft (r_state r') \<and> draft (r_state r')"
    if a: "micro cx r r'" "serves h (r_state r) cx" "base (r_state r)" "known_draft (r_state r) \<and> draft (r_state r)"
    for cx r r'
  proof -
    have k: "known_draft (r_state r')" by (rule known.preserved [OF a(1-3) conjunct1 [OF a(4)]])
    show ?thesis by (rule conjI [OF k preserved [OF a(1-3) conjunct1 [OF a(4)] k conjunct2 [OF a(4)]]])
  qed
  show "known_published (publish key rc q s) \<and> published (publish key rc q s)"
    if a: "known_draft s \<and> draft s" "unat q = Suc (unat (st_sequence s))" for s q key rc
    using a(1) by (intro conjI known.leave [OF _ a(2)] leave [OF _ a(2)]) simp_all
qed

end
