(* ===== verification/Lifecycle.thy ===== *)
theory Lifecycle
  imports Reachability
begin

text \<open>
  The claim lifecycle as an invariant of reachable cores: the status history is a path of the
  lifecycle state machine with nondecreasing sequence numbers, the revision counts it, a receipt
  is held exactly from acquisition on, a report exists once one is generated, and completion and
  release imply the status they need.
\<close>

section \<open>Histories\<close>

definition edge_fact :: "status_fact \<Rightarrow> status_fact \<Rightarrow> bool" where
  "edge_fact a b \<longleftrightarrow> lifecycle_edge (sf_status a) (sf_status b) \<and> sf_sequence a \<le> sf_sequence b"

definition history_ok :: "session_seq \<Rightarrow> claim_lifecycle \<Rightarrow> bool" where
  "history_ok q l \<longleftrightarrow> cl_history l \<noteq> [] \<and> sf_status (hd (cl_history l)) = Generated
     \<and> sf_sequence (hd (cl_history l)) = cl_created l
     \<and> successively edge_fact (cl_history l) \<and> sf_status (last (cl_history l)) = cl_status l
     \<and> sf_sequence (last (cl_history l)) \<le> q \<and> unat (cl_revision l) = length (cl_history l)"

lemma history_ok_mono: "history_ok q l \<Longrightarrow> q \<le> q' \<Longrightarrow> history_ok q' l"
  by (auto simp: history_ok_def)

lemma history_ok_new: "history_ok q (initial_lifecycle q)"
  by (simp add: history_ok_def initial_lifecycle_def)

lemma history_ok_frame:
  "history_ok q (l\<lparr>cl_receipt := x\<rparr>) = history_ok q l" "history_ok q (l\<lparr>cl_evidence_set := e\<rparr>) = history_ok q l"
  "history_ok q (l\<lparr>cl_local_complete := b\<rparr>) = history_ok q l" "history_ok q (l\<lparr>cl_released := b\<rparr>) = history_ok q l"
  "history_ok q (l\<lparr>cl_testament := t\<rparr>) = history_ok q l"
  by (simp_all add: history_ok_def)

lemma history_ok_advance:
  assumes "history_ok q (so_lifecycle c)" "lifecycle_edge (status_of c) st" "revision_free c" "q \<le> cx_sequence cx"
  shows "history_ok (cx_sequence cx) (so_lifecycle (advance_claim cx st w c))"
proof -
  have "unat (cl_revision (so_lifecycle c) + 1) = Suc (length (cl_history (so_lifecycle c)))"
    using assms(1,3) by (simp add: history_ok_def revision_free_def unat_word_ariths)
  moreover have "edge_fact (last (cl_history (so_lifecycle c))) (StatusFact st (cx_sequence cx))"
    using assms by (auto simp: history_ok_def edge_fact_def)
  ultimately show ?thesis
    using assms(1) by (auto simp: history_ok_def successively_append_iff)
qed

lemma satisfiable_validating:
  assumes "i \<in> bs_set (tracked_fixpoint s)" "claim_at s i = Some c" "\<not> is_terminal (status_of c)" "base s"
  shows "status_of c = Validating \<and> cl_local_complete (so_lifecycle c)"
proof -
  from assms(1) obtain d where "claim_at s i = Some d"
    "status_of d = Satisfied \<or> ready s (in_set (tracked_fixpoint s)) i d" by (rule tracked_fixpoint_cases)
  with assms have "cl_local_complete (so_lifecycle c)" by (auto simp: ready_def)
  with assms(2-4) show ?thesis by (auto simp: base_def complete_late_def late_def)
qed

lemma claim_step_history:
  assumes "claim_step cx s s' i c c'" "claim_at s i = Some c" "base s" "history_ok q (so_lifecycle c)"
    "q \<le> cx_sequence cx"
  shows "history_ok (cx_sequence cx) (so_lifecycle c')"
  using assms(1)
proof cases
  case (status st w)
  then show ?thesis using assms by (auto simp: status_guard_def intro: history_ok_advance)
next
  case satisfy
  with assms satisfiable_validating have "status_of c = Validating" by blast
  with satisfy assms show ?thesis by (auto simp: lifecycle_edge_def intro!: history_ok_advance)
next
  case (receive rc)
  have "history_ok q (so_lifecycle (with_receipt rc c))"
    using assms(4) by (simp add: so_lifecycle_update history_ok_frame)
  then show ?thesis unfolding receive(1)
    by (rule history_ok_advance)
      (use receive assms(5) in \<open>auto simp: so_lifecycle_update lifecycle_edge_def revision_free_def\<close>)
qed (use history_ok_mono [OF assms(4,5)] in \<open>simp_all add: so_lifecycle_update history_ok_frame\<close>)

definition histories :: "session_seq \<Rightarrow> state \<Rightarrow> bool" where
  "histories q s \<longleftrightarrow> (\<forall>i c. claim_at s i = Some c \<longrightarrow> history_ok q (so_lifecycle c))"

text \<open>A draft may hold facts of the sequence number it is executed at.\<close>

definition sequence_free :: "session_seq \<Rightarrow> bool" where
  "sequence_free q \<longleftrightarrow> unat q + 1 < 2 ^ 64"

definition draft_histories :: "state \<Rightarrow> bool" where
  "draft_histories s \<longleftrightarrow> (sequence_free (st_sequence s) \<longrightarrow> histories (st_sequence s + 1) s)"

lemma next_sequence:
  assumes "unat (q :: u64) = Suc (unat a)"
  shows "q = a + 1" "sequence_free a" "a \<le> q"
proof -
  have "unat q < 2 ^ LENGTH(64)" by (rule unsigned_less)
  then have lt: "Suc (unat a) < 2 ^ 64" using assms by simp
  then have "unat (a + 1) = Suc (unat a)" by (simp add: unat_word_ariths)
  with assms lt show "q = a + 1" "sequence_free a" "a \<le> q"
    by (simp_all add: word_unat_eq_iff word_le_nat_alt sequence_free_def)
qed

lemma micro_histories:
  assumes "micro cx r r'" "base (r_state r)" "histories (cx_sequence cx) (r_state r)"
  shows "histories (cx_sequence cx) (r_state r')"
  unfolding histories_def
proof (intro allI impI)
  fix i c'
  assume "claim_at (r_state r') i = Some c'"
  then show "history_ok (cx_sequence cx) (so_lifecycle c')"
  proof (rule claims_preserved [OF assms(1)])
    assume "claim_new cx (r_state r) i c'"
    then show ?thesis by cases (simp add: claim_row_def history_ok_new)
  next
    fix c
    assume c: "claim_at (r_state r) i = Some c" and st: "claim_step cx (r_state r) (r_state r') i c c'"
    with assms(3) have "history_ok (cx_sequence cx) (so_lifecycle c)" by (simp add: histories_def)
    with st c assms(2) show ?thesis by (rule claim_step_history) simp
  qed
qed

interpretation history: ledger_invariant h "\<lambda>s. histories (st_sequence s) s" draft_histories for h
proof unfold_locales
  show "histories (st_sequence (state_new l)) (state_new l)" for l
    by (simp add: histories_def state_new_def)
  show "draft_histories s" if "histories (st_sequence s) s" for s
    unfolding draft_histories_def
  proof
    assume "sequence_free (st_sequence s)"
    then have "st_sequence s \<le> st_sequence s + 1"
      by (simp add: sequence_free_def word_le_nat_alt unat_word_ariths)
    with that show "histories (st_sequence s + 1) s" by (auto simp: histories_def intro: history_ok_mono)
  qed
  show "draft_histories (r_state r')"
    if a: "micro cx r r'" "serves h (r_state r) cx" "base (r_state r)" "draft_histories (r_state r)" for cx r r'
  proof -
    have q: "unat (cx_sequence cx) = Suc (unat (st_sequence (r_state r)))" using a(2) by (simp add: serves_def)
    from a(4) have "histories (cx_sequence cx) (r_state r)"
      by (simp add: draft_histories_def next_sequence [OF q])
    with micro_histories [OF a(1,3)] show ?thesis
      by (simp add: draft_histories_def micro_frame [OF a(1)] next_sequence [OF q])
  qed
  show "histories (st_sequence (publish key rc q s)) (publish key rc q s)"
    if "draft_histories s" "unat q = Suc (unat (st_sequence s))" for s q key rc
    using that(1) by (simp add: draft_histories_def next_sequence [OF that(2)] histories_def)
qed

section \<open>What each status implies\<close>

definition held :: "claim_status \<Rightarrow> bool" where
  "held st \<longleftrightarrow> st \<in> {Received, Progressed, TestamentGenerated, TestamentAcknowledged, Validating, Satisfied,
     TestamentGenerationFailed, ValidationFailed, ValidationErrored, ValidationIncomplete}"

definition unheld :: "claim_status \<Rightarrow> bool" where
  "unheld st \<longleftrightarrow> st \<in> {Generated, Posted, PostFailed, ReceiptFailed}"

definition reported :: "claim_status \<Rightarrow> bool" where
  "reported st \<longleftrightarrow> st \<in> {TestamentGenerated, TestamentAcknowledged, Validating, Satisfied,
     TestamentGenerationFailed, ValidationFailed, ValidationErrored, ValidationIncomplete}"

lemma edge_held: "lifecycle_edge a b \<Longrightarrow> b \<noteq> Received \<Longrightarrow> held b \<Longrightarrow> held a"
  by (cases a) (auto simp: lifecycle_edge_def control_fenced_def held_def)

lemma edge_unheld: "lifecycle_edge a b \<Longrightarrow> unheld b \<Longrightarrow> unheld a"
  by (cases a) (auto simp: lifecycle_edge_def control_fenced_def unheld_def)

lemma edge_reported:
  "lifecycle_edge a b \<Longrightarrow> reported b \<Longrightarrow> reported a \<or> b = TestamentGenerated \<or> b = TestamentGenerationFailed"
  by (cases a) (auto simp: lifecycle_edge_def control_fenced_def reported_def)

definition claim_wf :: "claim_lifecycle \<Rightarrow> bool" where
  "claim_wf l \<longleftrightarrow>
     (held (cl_status l) \<longrightarrow> cl_receipt l \<noteq> None) \<and> (unheld (cl_status l) \<longrightarrow> cl_receipt l = None)
     \<and> (\<forall>rc. cl_receipt l = Some rc \<longrightarrow> fence_receipt (rc_fence rc) \<noteq> 0 \<and> fence_epoch (rc_fence rc) \<noteq> 0)
     \<and> (reported (cl_status l) \<longrightarrow> cl_testament l \<noteq> None)
     \<and> (cl_testament l \<noteq> None \<longrightarrow> cl_evidence_set l \<noteq> None \<and> cl_receipt l \<noteq> None)
     \<and> (cl_status l = Satisfied \<longrightarrow> cl_local_complete l)
     \<and> (cl_local_complete l \<longrightarrow> late (cl_status l) \<and> cl_testament l \<noteq> None)
     \<and> (cl_released l \<longrightarrow> is_terminal (cl_status l))"

lemmas status_classes = held_def unheld_def reported_def late_def

lemma claim_wf_new: "claim_wf (initial_lifecycle q)"
  by (simp add: claim_wf_def initial_lifecycle_def status_classes)

lemma claim_step_wf:
  assumes "claim_step cx s s' i c c'" "claim_at s i = Some c" "base s" "claim_wf (so_lifecycle c)"
  shows "claim_wf (so_lifecycle c')"
  using assms(1)
proof cases
  case (status st w)
  then have e: "lifecycle_edge (status_of c) st" "st \<noteq> Received" "st \<noteq> Satisfied"
    and t: "st = TestamentGenerated \<or> st = TestamentGenerationFailed \<longrightarrow> cl_testament (so_lifecycle c) \<noteq> None"
    by (auto simp: status_guard_def)
  have "\<not> is_terminal (status_of c)" using e(1) by (rule lifecycle_edge_active)
  then show ?thesis
    using assms(4) e t edge_held [OF e(1,2)] edge_unheld [OF e(1)] edge_reported [OF e(1)] late_edge [OF e(1)]
    unfolding status(1) claim_wf_def by auto
next
  case satisfy
  with assms satisfiable_validating have "status_of c = Validating" "cl_local_complete (so_lifecycle c)" by blast+
  with satisfy assms(4) show ?thesis by (auto simp: claim_wf_def status_classes)
next
  case (adopt old rc)
  have "fence_epoch (rc_fence rc) \<noteq> 0" using adopt(4) by (auto simp: word_unat_eq_iff)
  moreover have "\<not> unheld (status_of c)" using adopt(2) by (auto simp: unheld_def)
  ultimately show ?thesis using adopt assms(4) by (simp add: claim_wf_def so_lifecycle_update)
next
  case (receive rc)
  with assms(4) show ?thesis by (simp add: claim_wf_def so_lifecycle_update status_classes)
next
  case (closes content t h)
  then have "\<not> late (status_of c)" "cl_receipt (so_lifecycle c) \<noteq> None" by (auto simp: late_def working_def)
  with closes assms(4) show ?thesis by (auto simp: claim_wf_def so_lifecycle_update)
next
  case (opens e rc)
  then have "\<not> late (status_of c)" "\<not> reported (status_of c)" by (auto simp: status_classes working_def)
  with opens assms(4) show ?thesis by (auto simp: claim_wf_def so_lifecycle_update)
next
  case completes
  then have "late (status_of c)" "reported (status_of c)" by (simp_all add: late_def reported_def)
  with completes assms(4) show ?thesis by (simp add: claim_wf_def so_lifecycle_update)
qed (use assms(4) in \<open>simp_all add: claim_wf_def so_lifecycle_update\<close>)

definition claims_wf :: "state \<Rightarrow> bool" where
  "claims_wf s \<longleftrightarrow> (\<forall>i c. claim_at s i = Some c \<longrightarrow> claim_wf (so_lifecycle c))"

lemma claims_wfD: "claims_wf s \<Longrightarrow> claim_at s i = Some c \<Longrightarrow> claim_wf (so_lifecycle c)"
  by (simp add: claims_wf_def)

lemma micro_claims_wf:
  assumes "micro cx r r'" "base (r_state r)" "claims_wf (r_state r)"
  shows "claims_wf (r_state r')"
  unfolding claims_wf_def
proof (intro allI impI)
  fix i c'
  assume "claim_at (r_state r') i = Some c'"
  then show "claim_wf (so_lifecycle c')"
  proof (rule claims_preserved [OF assms(1)])
    assume "claim_new cx (r_state r) i c'"
    then show ?thesis by cases (simp add: claim_row_def claim_wf_new)
  qed (use assms(2,3) in \<open>blast intro: claim_step_wf dest: claims_wfD\<close>)
qed

interpretation wf: ledger_invariant h claims_wf claims_wf for h
  by unfold_locales (auto simp: claims_wf_def state_new_def intro: micro_claims_wf [unfolded claims_wf_def, rule_format])

end
