(* ===== verification/Growth.thy ===== *)
theory Growth
  imports Lifecycle "HOL-Library.Sublist"
begin

text \<open>
  What never goes back: a relation between an earlier and a later state for each table.  Content,
  content hash and creation of a row are fixed, histories and attempts only grow; a terminal claim
  can still be released and changes in nothing else, runs with a final verdict, closed evidence sets
  and released monitors are frozen, receipt epochs only rise.
  The interface is the locale \<open>ledger_order\<close>: a preorder that every step respects relates a core to
  every later core.
\<close>

section \<open>Later cores\<close>

inductive later_core :: "host \<Rightarrow> codec \<Rightarrow> core \<Rightarrow> core \<Rightarrow> bool" for h k co where
  same: "later_core h k co co"
| applied: "later_core h k co co' \<Longrightarrow> apply_mutation h k co' q pm = Inr (res, co'') \<Longrightarrow> later_core h k co co''"

lemma later_reachable: "later_core h k co co' \<Longrightarrow> reachable_core h k l lims co \<Longrightarrow> reachable_core h k l lims co'"
  by (induction rule: later_core.induct) (auto intro: reachable_core.applied)

locale ledger_order = known: ledger_invariant h known_published known_draft
  for h known_published known_draft +
  fixes R :: "state \<Rightarrow> state \<Rightarrow> bool"
  assumes reflexive: "R s s"
    and transitive: "R s s' \<Longrightarrow> R s' s'' \<Longrightarrow> R s s''"
    and respected: "micro cx r r' \<Longrightarrow> serves h (r_state r) cx \<Longrightarrow> base (r_state r) \<Longrightarrow> known_draft (r_state r)
      \<Longrightarrow> R (r_state r) (r_state r')"
    and unpublished: "R s (publish key rc q s)"
begin

lemma steps_grow:
  assumes "micros cx r r'" "serves h (r_state r) cx" "base (r_state r)" "known_draft (r_state r)"
  shows "R (r_state r) (r_state r')"
  using assms(1)
proof (induction rule: rtranclp_induct)
  case base
  show ?case by (rule reflexive)
next
  case (step r1 r2)
  have "serves h (r_state r1) cx" using assms(2) micros_frame [OF step(1)] by (simp add: serves_def)
  with micros_base [OF step(1) assms(3)] known.steps [OF step(1) assms(2-4)]
  have "R (r_state r1) (r_state r2)" using respected [OF step(2)] by blast
  with step(3) show ?case using transitive by blast
qed

lemma applied_grows:
  assumes "apply_mutation h k co q pm = Inr (res, co')" "base (co_state co)" "known_published (co_state co)"
  shows "R (co_state co) (co_state co')"
  using assms(1,2)
proof (rule apply_micros)
  fix d
  assume m: "micros (input_ctx h (co_limits co) (pm_input pm) q) (fresh_reducer (co_state co))
       \<lparr>r_state = d, r_deltas = ap_deltas res, r_effects = ap_effects res\<rparr>"
    and co': "co' = co\<lparr>co_state := publish (input_key (pm_input pm)) (ap_receipt res) q d\<rparr>"
    and q: "unat q = Suc (unat (st_sequence (co_state co)))"
  from steps_grow [OF m] assms(2) known.enter [OF assms(3)] q have "R (co_state co) d" by (simp add: serves_def)
  then show ?thesis unfolding co' by simp (rule transitive [OF _ unpublished])
qed

lemma later:
  assumes "later_core h k co co'" "reachable_core h k l lims co"
  shows "R (co_state co) (co_state co')"
  using assms(1)
proof (induction rule: later_core.induct)
  case same
  show ?case by (rule reflexive)
next
  case (applied co' q pm res co'')
  note re = later_reachable [OF applied(1) assms(2)]
  from applied_grows [OF applied(2) reachable_base [OF re] known.reachable [OF re]] applied(3)
  show ?case using transitive by blast
qed

end

section \<open>Claims\<close>

definition receipt_grows :: "receipt option \<Rightarrow> receipt option \<Rightarrow> bool" where
  "receipt_grows a b \<longleftrightarrow> (\<forall>rc. a = Some rc \<longrightarrow> (\<exists>rc'. b = Some rc' \<and>
     (rc' = rc \<or> fence_epoch (rc_fence rc) < fence_epoch (rc_fence rc'))))"

definition report_fixed :: "claim_status \<Rightarrow> bool" where
  "report_fixed st \<longleftrightarrow> reported st \<or> is_terminal st"

definition unreleased :: "claim \<Rightarrow> claim" where
  "unreleased c = with_lifecycle c ((so_lifecycle c)\<lparr>cl_released := False\<rparr>)"

definition claim_grows :: "claim \<Rightarrow> claim \<Rightarrow> bool" where
  "claim_grows c c' \<longleftrightarrow> so_content c' = so_content c \<and> so_content_hash c' = so_content_hash c
     \<and> cl_created (so_lifecycle c') = cl_created (so_lifecycle c)
     \<and> prefix (cl_history (so_lifecycle c)) (cl_history (so_lifecycle c'))
     \<and> (is_terminal (status_of c) \<longrightarrow> status_of c' = status_of c
          \<and> cl_history (so_lifecycle c') = cl_history (so_lifecycle c)
          \<and> cl_receipt (so_lifecycle c') = cl_receipt (so_lifecycle c)
          \<and> cl_evidence_set (so_lifecycle c') = cl_evidence_set (so_lifecycle c)
          \<and> cl_local_complete (so_lifecycle c') = cl_local_complete (so_lifecycle c)
          \<and> cl_terminal_witness (so_lifecycle c') = cl_terminal_witness (so_lifecycle c)
          \<and> unreleased c' = unreleased c)
     \<and> receipt_grows (cl_receipt (so_lifecycle c)) (cl_receipt (so_lifecycle c'))
     \<and> (report_fixed (status_of c) \<longrightarrow> report_fixed (status_of c')
          \<and> cl_testament (so_lifecycle c') = cl_testament (so_lifecycle c))
     \<and> (cl_local_complete (so_lifecycle c) \<longrightarrow> cl_local_complete (so_lifecycle c'))
     \<and> (cl_released (so_lifecycle c) \<longrightarrow> cl_released (so_lifecycle c'))"

lemma receipt_grows_refl [simp]: "receipt_grows a a"
  by (simp add: receipt_grows_def)

lemma receipt_grows_trans: "receipt_grows a b \<Longrightarrow> receipt_grows b c \<Longrightarrow> receipt_grows a c"
  by (fastforce simp: receipt_grows_def)

lemma claim_grows_refl [simp]: "claim_grows c c"
  by (simp add: claim_grows_def)

lemma claim_grows_trans: "claim_grows c c' \<Longrightarrow> claim_grows c' c'' \<Longrightarrow> claim_grows c c''"
  unfolding claim_grows_def using receipt_grows_trans by (auto intro: prefix_order.trans)

lemma report_fixed_edge: "lifecycle_edge a b \<Longrightarrow> report_fixed a \<Longrightarrow> report_fixed b"
  by (cases a) (auto simp: report_fixed_def reported_def lifecycle_edge_def control_fenced_def)

lemma claim_grows_advance:
  "lifecycle_edge (status_of c) st \<Longrightarrow> claim_grows c (advance_claim cx st w c)"
  using lifecycle_edge_active report_fixed_edge by (simp add: claim_grows_def)

lemma unreleased_eq:
  "unreleased a = unreleased b \<longleftrightarrow> so_content a = so_content b \<and> so_content_hash a = so_content_hash b
     \<and> (so_lifecycle a)\<lparr>cl_released := False\<rparr> = (so_lifecycle b)\<lparr>cl_released := False\<rparr>"
  by (auto simp: unreleased_def with_lifecycle_def intro: stored_object.equality)

lemma claim_step_grows:
  assumes "claim_step cx s s' i c c'" "claim_at s i = Some c" "base s" "claims_wf s"
  shows "claim_grows c c'"
  using assms(1)
proof cases
  case (status st w)
  then show ?thesis by (auto simp: status_guard_def intro: claim_grows_advance)
next
  case satisfy
  with assms satisfiable_validating have "status_of c = Validating" by blast
  with satisfy show ?thesis by (auto simp: lifecycle_edge_def intro: claim_grows_advance)
next
  case (receive rc)
  have "cl_receipt (so_lifecycle c) = None"
    using claims_wfD [OF assms(4,2)] receive(2) by (simp add: claim_wf_def unheld_def)
  with receive(2) have "claim_grows c (with_receipt rc c)"
    by (simp add: claim_grows_def so_lifecycle_update receipt_grows_def report_fixed_def reported_def)
  moreover have "claim_grows (with_receipt rc c) (advance_claim cx Received None (with_receipt rc c))"
    by (rule claim_grows_advance) (simp add: so_lifecycle_update receive(2) lifecycle_edge_def)
  ultimately show ?thesis unfolding receive(1) by (rule claim_grows_trans)
next
  case (adopt old rc)
  then have "fence_epoch (rc_fence old) < fence_epoch (rc_fence rc)" by (simp add: word_less_nat_alt)
  moreover have "\<not> is_terminal (status_of c)" using adopt(2) by auto
  ultimately show ?thesis using adopt by (simp add: claim_grows_def so_lifecycle_update receipt_grows_def)
next
  case (closes content t h)
  then have "\<not> report_fixed (status_of c)" "\<not> is_terminal (status_of c)"
    by (auto simp: report_fixed_def reported_def working_def)
  with closes show ?thesis by (simp add: claim_grows_def so_lifecycle_update)
qed (auto simp: claim_grows_def so_lifecycle_update working_def unreleased_eq)

section \<open>The other tables\<close>

definition validation_grows :: "validation \<Rightarrow> validation \<Rightarrow> bool" where
  "validation_grows v v' \<longleftrightarrow> so_content v' = so_content v \<and> so_content_hash v' = so_content_hash v
     \<and> vl_created (so_lifecycle v') = vl_created (so_lifecycle v)
     \<and> vl_latest_epoch (so_lifecycle v) \<le> vl_latest_epoch (so_lifecycle v')"

definition run_grows :: "validation_run \<Rightarrow> validation_run \<Rightarrow> bool" where
  "run_grows x x' \<longleftrightarrow> run_id x' = run_id x \<and> run_claim x' = run_claim x \<and> run_evaluator x' = run_evaluator x
     \<and> run_manifest x' = run_manifest x \<and> prefix (run_attempts x) (run_attempts x')
     \<and> (run_final_verdict x \<noteq> None \<longrightarrow> x' = x)"

definition testament_grows :: "testament \<Rightarrow> testament \<Rightarrow> bool" where
  "testament_grows t t' \<longleftrightarrow> so_content t' = so_content t \<and> so_content_hash t' = so_content_hash t
     \<and> tl_created (so_lifecycle t') = tl_created (so_lifecycle t)
     \<and> (tl_acknowledged (so_lifecycle t) \<noteq> None \<longrightarrow> tl_acknowledged (so_lifecycle t') \<noteq> None)"

definition set_grows :: "evidence_set \<Rightarrow> evidence_set \<Rightarrow> bool" where
  "set_grows e e' \<longleftrightarrow> es_id e' = es_id e \<and> es_claim e' = es_claim e \<and> prefix (es_artifacts e) (es_artifacts e')
     \<and> (es_closed e \<longrightarrow> e' = e)"

definition monitor_grows :: "monitor \<Rightarrow> monitor \<Rightarrow> bool" where
  "monitor_grows m m' \<longleftrightarrow> mon_id m' = mon_id m \<and> mon_owner m' = mon_owner m \<and> mon_deadline m' = mon_deadline m
     \<and> mon_registered m' = mon_registered m \<and> (mon_released m \<noteq> None \<longrightarrow> m' = m)"

definition table_grows :: "('v \<Rightarrow> 'v \<Rightarrow> bool) \<Rightarrow> ('k::linorder, 'v) btree_map \<Rightarrow> ('k, 'v) btree_map \<Rightarrow> bool" where
  "table_grows R t t' \<longleftrightarrow> (\<forall>k x. bm_get t k = Some x \<longrightarrow> (\<exists>x'. bm_get t' k = Some x' \<and> R x x'))"

definition state_grows :: "state \<Rightarrow> state \<Rightarrow> bool" where
  "state_grows s s' \<longleftrightarrow> st_ledger s' = st_ledger s
     \<and> table_grows claim_grows (st_claims s) (st_claims s')
     \<and> table_grows validation_grows (st_validations s) (st_validations s')
     \<and> table_grows (=) (st_artifacts s) (st_artifacts s')
     \<and> table_grows testament_grows (st_testaments s) (st_testaments s')
     \<and> table_grows set_grows (st_evidence_sets s) (st_evidence_sets s')
     \<and> table_grows run_grows (st_runs s) (st_runs s')
     \<and> table_grows monitor_grows (st_monitors s) (st_monitors s')"

lemma table_grows_refl: "(\<And>x. R x x) \<Longrightarrow> table_grows R t t"
  by (auto simp: table_grows_def)

lemma table_grows_trans:
  assumes "table_grows R t t'" "table_grows R t' t''" "\<And>x y z. R x y \<Longrightarrow> R y z \<Longrightarrow> R x z"
  shows "table_grows R t t''"
  unfolding table_grows_def
proof (intro allI impI)
  fix k x
  assume "bm_get t k = Some x"
  with assms(1) obtain y where "bm_get t' k = Some y" "R x y" unfolding table_grows_def by blast
  moreover from this(1) assms(2) obtain z where "bm_get t'' k = Some z" "R y z" unfolding table_grows_def by blast
  ultimately show "\<exists>z. bm_get t'' k = Some z \<and> R x z" using assms(3) by blast
qed

lemmas row_grows_defs = validation_grows_def run_grows_def testament_grows_def set_grows_def monitor_grows_def

lemma row_grows_refl [simp]:
  "validation_grows v v" "run_grows x x" "testament_grows t t" "set_grows e e" "monitor_grows m m"
  by (simp_all add: row_grows_defs)

lemma row_grows_trans:
  "validation_grows v v' \<Longrightarrow> validation_grows v' v'' \<Longrightarrow> validation_grows v v''"
  "run_grows x x' \<Longrightarrow> run_grows x' x'' \<Longrightarrow> run_grows x x''"
  "testament_grows t t' \<Longrightarrow> testament_grows t' t'' \<Longrightarrow> testament_grows t t''"
  "set_grows e e' \<Longrightarrow> set_grows e' e'' \<Longrightarrow> set_grows e e''"
  "monitor_grows m m' \<Longrightarrow> monitor_grows m' m'' \<Longrightarrow> monitor_grows m m''"
  by (auto simp: row_grows_defs intro: prefix_order.trans)

lemma validation_step_grows: "validation_step v v' \<Longrightarrow> validation_grows v v'"
  by (auto simp: validation_step_def validation_grows_def dest!: checked_add_one_less)

lemma run_step_grows: "run_step cx s x x' \<Longrightarrow> run_grows x x'"
  by (cases rule: run_step.cases) (auto simp: run_grows_def verdict_guard_def)

lemma testament_step_grows: "testament_step cx t t' \<Longrightarrow> testament_grows t t'"
  by (cases rule: testament_step.cases) (auto simp: testament_grows_def)

lemma set_step_grows: "set_step s s' e es es' \<Longrightarrow> set_grows es es'"
  by (cases rule: set_step.cases) (auto simp: set_grows_def)

lemma monitor_step_grows: "monitor_step cx s m m' \<Longrightarrow> monitor_grows m m'"
  by (cases rule: monitor_step.cases) (auto simp: monitor_grows_def)

lemma table_growsI:
  assumes "\<And>k x. bm_get t k = Some x \<Longrightarrow> \<exists>x'. bm_get t' k = Some x' \<and> S k x x'"
    "\<And>k x x'. S k x x' \<Longrightarrow> bm_get t k = Some x \<Longrightarrow> R x x'"
  shows "table_grows R t t'"
  unfolding table_grows_def using assms by blast

lemma micro_grows:
  assumes "micro cx r r'" "base (r_state r)" "claims_wf (r_state r)"
  shows "state_grows (r_state r) (r_state r')"
  unfolding state_grows_def
proof (intro conjI)
  have rk: "run_keys (r_state r)" using assms(2) by (simp add: base_def)
  show "st_ledger (r_state r') = st_ledger (r_state r)" by (rule micro_frame(1) [OF assms(1)])
  show "table_grows claim_grows (st_claims (r_state r)) (st_claims (r_state r'))"
    by (rule table_growsI, erule micro_claim [OF assms(1)], erule claim_step_grows [OF _ _ assms(2,3)], assumption)
  show "table_grows validation_grows (st_validations (r_state r)) (st_validations (r_state r'))"
    by (rule table_growsI, erule micro_validation [OF assms(1)], erule validation_step_grows)
  show "table_grows (=) (st_artifacts (r_state r)) (st_artifacts (r_state r'))"
    using micro_artifact [OF assms(1)] by (simp add: table_grows_def)
  show "table_grows testament_grows (st_testaments (r_state r)) (st_testaments (r_state r'))"
    by (rule table_growsI, erule micro_testament [OF assms(1)], erule testament_step_grows)
  show "table_grows set_grows (st_evidence_sets (r_state r)) (st_evidence_sets (r_state r'))"
    by (rule table_growsI, erule micro_set [OF assms(1)], erule set_step_grows)
  show "table_grows run_grows (st_runs (r_state r)) (st_runs (r_state r'))"
    by (rule table_growsI, erule micro_run [OF assms(1) rk], erule run_step_grows)
  show "table_grows monitor_grows (st_monitors (r_state r)) (st_monitors (r_state r'))"
    by (rule table_growsI, erule micro_monitor [OF assms(1)], erule monitor_step_grows)
qed

interpretation growth: ledger_order h claims_wf claims_wf state_grows for h
proof unfold_locales
  show "state_grows s s" for s by (simp add: state_grows_def table_grows_refl)
  show "state_grows s s''" if "state_grows s s'" "state_grows s' s''" for s s' s''
    using that unfolding state_grows_def
    by (auto intro: table_grows_trans claim_grows_trans row_grows_trans)
  show "state_grows (r_state r) (r_state r')"
    if "micro cx r r'" "base (r_state r)" "claims_wf (r_state r)" for cx r r'
    using that by (rule micro_grows)
  show "state_grows s (publish key rc q s)" for s key rc q by (simp add: state_grows_def table_grows_refl)
qed

end
