(* ===== verification/Identity.thy ===== *)
theory Identity
  imports Growth
begin

text \<open>
  Content addressing as an invariant: every stored object carries the canonical hash of its
  content, the identity index maps the hash of a claim, artifact or testament to it and the hash of
  a validation to a validation of that hash, an identifier names an object of one kind only, and
  every object belongs to the ledger of the session.
\<close>

section \<open>Fresh rows and the index\<close>

lemma micro_index_kept:
  assumes "micro cx r r'" "bm_get (st_identities (r_state r)) (k, x) = Some i" "k \<noteq> OK_Validation"
  shows "bm_get (st_identities (r_state r')) (k, x) = Some i"
  using assms(1)
proof cases
  case (m_generate claims)
  then have d: "distinct (map (claim_hash cx) claims)"
    and f: "\<forall>n \<in> set claims. bm_get (st_identities (r_state r)) (OK_Claim, claim_hash cx n) = None"
    by (auto simp: batch_ok_def)
  show ?thesis
  proof (cases "k = OK_Claim")
    case True
    with f assms(2) have "x \<notin> claim_hash cx ` set claims" by auto
    with True assms(2) m_generate write_batch_identities_claim [OF d] show ?thesis by simp
  next
    case False
    with assms(2,3) m_generate show ?thesis by (simp add: write_batch_identities_frame)
  qed
qed (use assms(2) in \<open>auto simp: satisfy_step_frame\<close>)

lemma micro_index_claim:
  assumes "micro cx r r'" "claim_at (r_state r) i = None" "claim_at (r_state r') i = Some c"
  shows "bm_get (st_identities (r_state r')) (OK_Claim, so_content_hash c) = Some i"
  using assms(1)
proof cases
  case (m_generate claims)
  then have d: "distinct (map (claim_hash cx) claims)" by (auto simp: batch_ok_def)
  from m_generate assms(2,3) obtain n where "n \<in> set claims" "nc_id n = i" "c = claim_row cx n"
    by (auto simp: batch_claims dest!: find_Some_set)
  then show ?thesis using m_generate write_batch_identities_claim [OF d] by (auto simp: claim_row_def)
next
  case (m_satisfy changed)
  then show ?thesis using assms(2,3) satisfy_step(1) [OF m_satisfy refl, of i] by simp
qed (use assms(2,3) in \<open>auto split: if_splits\<close>)

lemma micro_index_artifact:
  assumes "micro cx r r'" "bm_get (st_artifacts (r_state r)) i = None" "bm_get (st_artifacts (r_state r')) i = Some a"
  shows "bm_get (st_identities (r_state r')) (OK_Artifact, so_content_hash a) = Some i"
  using assms(1)
  by cases (use assms(2,3) in \<open>auto simp: satisfy_step_frame artifact_row_def split: if_splits\<close>)

lemma micro_index_testament:
  assumes "micro cx r r'" "bm_get (st_testaments (r_state r)) i = None" "bm_get (st_testaments (r_state r')) i = Some t"
  shows "bm_get (st_identities (r_state r')) (OK_Testament, so_content_hash t) = Some i"
  using assms(1)
  by cases (use assms(2,3) in \<open>auto simp: satisfy_step_frame testament_row_def split: if_splits\<close>)

text \<open>
  Validations of one claim may have equal content and different identifiers; the index then keeps
  one of them.  So a stored validation hash is indexed, not necessarily to that validation.
\<close>

lemma write_validations_indexed:
  "bm_get (st_identities (fold (write_validation cx) vs s)) (OK_Validation, x) \<noteq> None \<longleftrightarrow>
     x \<in> validation_hash cx ` set vs \<or> bm_get (st_identities s) (OK_Validation, x) \<noteq> None"
  by (induction vs arbitrary: s) (auto simp: write_validation_def)

lemma write_batch_indexed:
  "bm_get (st_identities (write_batch cx cs s)) (OK_Validation, x) \<noteq> None \<longleftrightarrow>
     x \<in> validation_hash cx ` set (batch_validations cs) \<or> bm_get (st_identities s) (OK_Validation, x) \<noteq> None"
proof (induction cs arbitrary: s)
  case (Cons n cs)
  have "write_batch cx (n # cs) s = write_batch cx cs (write_claim cx n s)" by (simp add: write_batch_def)
  moreover have "bm_get (st_identities (write_claim cx n s)) (OK_Validation, x) \<noteq> None \<longleftrightarrow>
      x \<in> validation_hash cx ` set (nc_validations n) \<or> bm_get (st_identities s) (OK_Validation, x) \<noteq> None"
    using write_validations_indexed [of cx "nc_validations n" s x] by (simp add: write_claim_def)
  ultimately show ?case using Cons.IH by auto
qed (simp add: write_batch_def)

lemma micro_indexed:
  assumes "micro cx r r'" "bm_get (st_identities (r_state r)) (OK_Validation, x) \<noteq> None"
  shows "bm_get (st_identities (r_state r')) (OK_Validation, x) \<noteq> None"
  using assms(1)
proof cases
  case (m_generate claims)
  with assms(2) write_batch_indexed show ?thesis by simp
qed (use assms(2) in \<open>auto simp: satisfy_step_frame\<close>)

section \<open>The invariant\<close>

definition claims_identified :: "host \<Rightarrow> state \<Rightarrow> bool" where
  "claims_identified h s \<longleftrightarrow> (\<forall>i c. claim_at s i = Some c \<longrightarrow> i \<noteq> 0 \<and> cc_ledger (so_content c) = st_ledger s
     \<and> claim_content_hash h (so_content c) = Inr (so_content_hash c)
     \<and> bm_get (st_identities s) (OK_Claim, so_content_hash c) = Some i)"

definition artifact_identity :: "host \<Rightarrow> state \<Rightarrow> bool" where
  "artifact_identity h s \<longleftrightarrow> (\<forall>i a. bm_get (st_artifacts s) i = Some a \<longrightarrow> i \<noteq> 0 \<and> ac_ledger (so_content a) = st_ledger s
     \<and> artifact_content_hash h (so_content a) = Inr (so_content_hash a)
     \<and> bm_get (st_identities s) (OK_Artifact, so_content_hash a) = Some i)"

definition testament_identity :: "host \<Rightarrow> state \<Rightarrow> bool" where
  "testament_identity h s \<longleftrightarrow> (\<forall>i t. bm_get (st_testaments s) i = Some t \<longrightarrow> i \<noteq> 0 \<and> tc_ledger (so_content t) = st_ledger s
     \<and> testament_content_hash h (so_content t) = Inr (so_content_hash t)
     \<and> bm_get (st_identities s) (OK_Testament, so_content_hash t) = Some i)"

definition validation_identity :: "host \<Rightarrow> state \<Rightarrow> bool" where
  "validation_identity h s \<longleftrightarrow> (\<forall>i v. bm_get (st_validations s) i = Some v \<longrightarrow> i \<noteq> 0
     \<and> vc_ledger (so_content v) = st_ledger s \<and> validation_content_hash h (so_content v) = Inr (so_content_hash v)
     \<and> bm_get (st_identities s) (OK_Validation, so_content_hash v) \<noteq> None)"

definition index_sound :: "state \<Rightarrow> bool" where
  "index_sound s \<longleftrightarrow> (\<forall>x i.
     (bm_get (st_identities s) (OK_Claim, x) = Some i \<longrightarrow> (\<exists>c. claim_at s i = Some c \<and> so_content_hash c = x))
     \<and> (bm_get (st_identities s) (OK_Validation, x) = Some i
          \<longrightarrow> (\<exists>v. bm_get (st_validations s) i = Some v \<and> so_content_hash v = x))
     \<and> (bm_get (st_identities s) (OK_Artifact, x) = Some i
          \<longrightarrow> (\<exists>a. bm_get (st_artifacts s) i = Some a \<and> so_content_hash a = x))
     \<and> (bm_get (st_identities s) (OK_Testament, x) = Some i
          \<longrightarrow> (\<exists>t. bm_get (st_testaments s) i = Some t \<and> so_content_hash t = x)))"

definition ids_disjoint :: "state \<Rightarrow> bool" where
  "ids_disjoint s \<longleftrightarrow> (\<forall>i. \<not> (claim_at s i \<noteq> None \<and> bm_get (st_validations s) i \<noteq> None)
     \<and> \<not> (claim_at s i \<noteq> None \<and> bm_get (st_artifacts s) i \<noteq> None)
     \<and> \<not> (claim_at s i \<noteq> None \<and> bm_get (st_testaments s) i \<noteq> None)
     \<and> \<not> (bm_get (st_validations s) i \<noteq> None \<and> bm_get (st_artifacts s) i \<noteq> None)
     \<and> \<not> (bm_get (st_validations s) i \<noteq> None \<and> bm_get (st_testaments s) i \<noteq> None)
     \<and> \<not> (bm_get (st_artifacts s) i \<noteq> None \<and> bm_get (st_testaments s) i \<noteq> None))"

definition identity_ok :: "host \<Rightarrow> state \<Rightarrow> bool" where
  "identity_ok h s \<longleftrightarrow> claims_identified h s \<and> artifact_identity h s \<and> testament_identity h s
     \<and> validation_identity h s \<and> index_sound s \<and> ids_disjoint s"

lemma claim_step_content: "claim_step cx s s' i c c' \<Longrightarrow> so_content c' = so_content c \<and> so_content_hash c' = so_content_hash c"
  by (cases rule: claim_step.cases) auto

lemma validation_step_content: "validation_step v v' \<Longrightarrow> so_content v' = so_content v \<and> so_content_hash v' = so_content_hash v"
  by (auto simp: validation_step_def)

lemma testament_step_content: "testament_step cx t t' \<Longrightarrow> so_content t' = so_content t \<and> so_content_hash t' = so_content_hash t"
  by (cases rule: testament_step.cases) auto

lemma batch_okD:
  assumes "batch_ok cx s claims" "n \<in> set claims"
  shows "proposal_ok cx s (set (map nc_id claims)) n" "hashable cx n" "free_id s (nc_id n)"
    "claim_content_hash (cx_host cx) (nc_content n) = Inr (claim_hash cx n)"
    "cc_ledger (nc_content n) = st_ledger s"
  using assms by (auto simp: batch_ok_def hashable_def proposal_ok_def new_ids_of_def)

lemma batch_validationD:
  assumes "batch_ok cx s claims" "n \<in> set (batch_validations claims)"
  shows "free_id s (nv_id n)" "validation_content_hash (cx_host cx) (nv_content n) = Inr (validation_hash cx n)"
    "vc_ledger (nv_content n) = st_ledger s"
proof -
  show "free_id s (nv_id n)" using assms by (auto simp: batch_ok_def new_ids_of_def)
  show "validation_content_hash (cx_host cx) (nv_content n) = Inr (validation_hash cx n)"
    using assms by (auto simp: batch_ok_def hashable_def)
  from assms show "vc_ledger (nv_content n) = st_ledger s"
    by (rule batch_validation_owner) (simp add: validation_ok_def)
qed

lemma micro_claims_identified:
  assumes "micro cx r r'" "cx_host cx = h" "claims_identified h (r_state r)"
  shows "claims_identified h (r_state r')"
  unfolding claims_identified_def
proof (intro allI impI)
  fix i c'
  assume c': "claim_at (r_state r') i = Some c'"
  then show "i \<noteq> 0 \<and> cc_ledger (so_content c') = st_ledger (r_state r')
     \<and> claim_content_hash h (so_content c') = Inr (so_content_hash c')
     \<and> bm_get (st_identities (r_state r')) (OK_Claim, so_content_hash c') = Some i"
  proof (rule claims_preserved [OF assms(1)])
    assume n: "claim_new cx (r_state r) i c'" "claim_at (r_state r) i = None"
    from n(1) obtain claims new where "batch_ok cx (r_state r) claims" "new \<in> set claims" "nc_id new = i"
      "c' = claim_row cx new" by cases
    with batch_okD [OF this(1,2)] micro_index_claim [OF assms(1) n(2) c'] show ?thesis
      using assms(2) by (simp add: claim_row_def free_id_iff micro_frame [OF assms(1)])
  next
    fix c
    assume c: "claim_at (r_state r) i = Some c" and st: "claim_step cx (r_state r) (r_state r') i c c'"
    with claim_step_content [OF st] assms(3) micro_index_kept [OF assms(1)] show ?thesis
      by (simp add: claims_identified_def micro_frame [OF assms(1)])
  qed
qed

lemma micro_artifact_identity:
  assumes "micro cx r r'" "cx_host cx = h" "artifact_identity h (r_state r)"
  shows "artifact_identity h (r_state r')"
  unfolding artifact_identity_def
proof (intro allI impI)
  fix i a
  assume a: "bm_get (st_artifacts (r_state r')) i = Some a"
  show "i \<noteq> 0 \<and> ac_ledger (so_content a) = st_ledger (r_state r')
     \<and> artifact_content_hash h (so_content a) = Inr (so_content_hash a)
     \<and> bm_get (st_identities (r_state r')) (OK_Artifact, so_content_hash a) = Some i"
  proof (cases "bm_get (st_artifacts (r_state r)) i")
    case None
    from micro_artifact_new [OF assms(1) None a] micro_index_artifact [OF assms(1) None a] show ?thesis
      using assms(2) by cases (simp add: artifact_row_def free_id_iff micro_frame [OF assms(1)])
  next
    case (Some b)
    with micro_artifact [OF assms(1) Some] a assms(3) micro_index_kept [OF assms(1)] show ?thesis
      by (simp add: artifact_identity_def micro_frame [OF assms(1)])
  qed
qed

lemma micro_testament_identity:
  assumes "micro cx r r'" "cx_host cx = h" "testament_identity h (r_state r)"
  shows "testament_identity h (r_state r')"
  unfolding testament_identity_def
proof (intro allI impI)
  fix i t'
  assume t': "bm_get (st_testaments (r_state r')) i = Some t'"
  then show "i \<noteq> 0 \<and> tc_ledger (so_content t') = st_ledger (r_state r')
     \<and> testament_content_hash h (so_content t') = Inr (so_content_hash t')
     \<and> bm_get (st_identities (r_state r')) (OK_Testament, so_content_hash t') = Some i"
  proof (rule testaments_preserved [OF assms(1)])
    assume n: "testament_new cx (r_state r) (r_state r') i t'" "bm_get (st_testaments (r_state r)) i = None"
    from n(1) micro_index_testament [OF assms(1) n(2) t'] show ?thesis
      using assms(2) by cases (simp add: testament_row_def free_id_iff)
  next
    fix t
    assume t: "bm_get (st_testaments (r_state r)) i = Some t" and st: "testament_step cx t t'"
    with testament_step_content [OF st] assms(3) micro_index_kept [OF assms(1)] show ?thesis
      by (simp add: testament_identity_def micro_frame [OF assms(1)])
  qed
qed

lemma micro_validation_identity:
  assumes "micro cx r r'" "cx_host cx = h" "validation_identity h (r_state r)"
  shows "validation_identity h (r_state r')"
  unfolding validation_identity_def
proof (intro allI impI)
  fix i v'
  assume "bm_get (st_validations (r_state r')) i = Some v'"
  then show "i \<noteq> 0 \<and> vc_ledger (so_content v') = st_ledger (r_state r')
     \<and> validation_content_hash h (so_content v') = Inr (so_content_hash v')
     \<and> bm_get (st_identities (r_state r')) (OK_Validation, so_content_hash v') \<noteq> None"
  proof (rule validations_preserved [OF assms(1)])
    assume "validation_new cx (r_state r) (r_state r') i v'"
    then obtain claims new where "batch_ok cx (r_state r) claims" "new \<in> set (batch_validations claims)" "nv_id new = i"
      "v' = validation_row cx new" "r_state r' = write_batch cx claims (r_state r)" by cases
    with batch_validationD [OF this(1,2)] write_batch_indexed [of cx claims "r_state r" "validation_hash cx new"]
    show ?thesis using assms(2) by (simp add: validation_row_def free_id_iff micro_frame [OF assms(1)])
  next
    fix v
    assume v: "bm_get (st_validations (r_state r)) i = Some v" and st: "validation_step v v'"
    with validation_step_content [OF st] assms(3) micro_indexed [OF assms(1)] show ?thesis
      by (simp add: validation_identity_def micro_frame [OF assms(1)])
  qed
qed

lemma micro_index_sound:
  assumes "micro cx r r'" "index_sound (r_state r)"
  shows "index_sound (r_state r')"
  unfolding index_sound_def
proof (intro allI conjI impI)
  fix x i
  note idx = assms(2) [unfolded index_sound_def, rule_format, of x i]
  show "\<exists>c. claim_at (r_state r') i = Some c \<and> so_content_hash c = x"
    if "bm_get (st_identities (r_state r')) (OK_Claim, x) = Some i"
    using micro_identity_claim [OF assms(1) that]
  proof
    assume "bm_get (st_identities (r_state r)) (OK_Claim, x) = Some i"
    with idx obtain c where "claim_at (r_state r) i = Some c" "so_content_hash c = x" by blast
    with micro_claim [OF assms(1) this(1)] show ?thesis using claim_step_content by fastforce
  qed
  show "\<exists>v. bm_get (st_validations (r_state r')) i = Some v \<and> so_content_hash v = x"
    if "bm_get (st_identities (r_state r')) (OK_Validation, x) = Some i"
    using micro_identity_validation [OF assms(1) that]
  proof
    assume "bm_get (st_identities (r_state r)) (OK_Validation, x) = Some i"
    with idx obtain v where "bm_get (st_validations (r_state r)) i = Some v" "so_content_hash v = x" by blast
    with micro_validation [OF assms(1) this(1)] show ?thesis using validation_step_content by fastforce
  qed
  show "\<exists>a. bm_get (st_artifacts (r_state r')) i = Some a \<and> so_content_hash a = x"
    if "bm_get (st_identities (r_state r')) (OK_Artifact, x) = Some i"
    using micro_identity_artifact [OF assms(1) that]
  proof
    assume "bm_get (st_identities (r_state r)) (OK_Artifact, x) = Some i"
    with idx obtain a where "bm_get (st_artifacts (r_state r)) i = Some a" "so_content_hash a = x" by blast
    with micro_artifact [OF assms(1) this(1)] show ?thesis by blast
  qed
  show "\<exists>t. bm_get (st_testaments (r_state r')) i = Some t \<and> so_content_hash t = x"
    if "bm_get (st_identities (r_state r')) (OK_Testament, x) = Some i"
    using micro_identity_testament [OF assms(1) that]
  proof
    assume "bm_get (st_identities (r_state r)) (OK_Testament, x) = Some i"
    with idx obtain t where "bm_get (st_testaments (r_state r)) i = Some t" "so_content_hash t = x" by blast
    with micro_testament [OF assms(1) this(1)] show ?thesis using testament_step_content by fastforce
  qed
qed

section \<open>Identifiers of one kind\<close>

abbreviation appears :: "(object_id, 'a) btree_map \<Rightarrow> (object_id, 'a) btree_map \<Rightarrow> object_id \<Rightarrow> bool" where
  "appears t t' i \<equiv> bm_get t i = None \<and> bm_get t' i \<noteq> None"

lemma micro_appears_free:
  assumes "micro cx r r'"
  shows "appears (st_claims (r_state r)) (st_claims (r_state r')) i \<Longrightarrow> free_id (r_state r) i"
    and "appears (st_validations (r_state r)) (st_validations (r_state r')) i \<Longrightarrow> free_id (r_state r) i"
    and "appears (st_artifacts (r_state r)) (st_artifacts (r_state r')) i \<Longrightarrow> free_id (r_state r) i"
    and "appears (st_testaments (r_state r)) (st_testaments (r_state r')) i \<Longrightarrow> free_id (r_state r) i"
proof -
  show "appears (st_claims (r_state r)) (st_claims (r_state r')) i \<Longrightarrow> free_id (r_state r) i"
    using micro_claim_new [OF assms] by (auto elim!: claim_new.cases dest: batch_okD(3))
  show "appears (st_validations (r_state r)) (st_validations (r_state r')) i \<Longrightarrow> free_id (r_state r) i"
    using micro_validation_new [OF assms] by (auto elim!: validation_new.cases dest: batch_validationD(1))
  show "appears (st_artifacts (r_state r)) (st_artifacts (r_state r')) i \<Longrightarrow> free_id (r_state r) i"
    using micro_artifact_new [OF assms] by (auto elim!: artifact_new.cases)
  show "appears (st_testaments (r_state r)) (st_testaments (r_state r')) i \<Longrightarrow> free_id (r_state r) i"
    using micro_testament_new [OF assms] by (auto elim!: testament_new.cases)
qed

lemma micro_appears_once:
  assumes "micro cx r r'"
  shows "\<not> (appears (st_claims (r_state r)) (st_claims (r_state r')) i
      \<and> appears (st_validations (r_state r)) (st_validations (r_state r')) i)"
    and "\<not> ((appears (st_claims (r_state r)) (st_claims (r_state r')) i
        \<or> appears (st_validations (r_state r)) (st_validations (r_state r')) i)
      \<and> (appears (st_artifacts (r_state r)) (st_artifacts (r_state r')) j
        \<or> appears (st_testaments (r_state r)) (st_testaments (r_state r')) j))"
    and "\<not> (appears (st_artifacts (r_state r)) (st_artifacts (r_state r')) i
      \<and> appears (st_testaments (r_state r)) (st_testaments (r_state r')) i)"
proof -
  have sat: "st_artifacts (r_state r') = st_artifacts (r_state r) \<and> st_testaments (r_state r') = st_testaments (r_state r)
      \<and> \<not> appears (st_validations (r_state r)) (st_validations (r_state r')) i
      \<and> \<not> appears (st_claims (r_state r)) (st_claims (r_state r')) i"
    if "satisfy_all cx (bm_keys (tracked_fixpoint (r_state r))) False r = Inr (changed, r')" for changed i
    using satisfy_step_frame [OF that] satisfy_step(1) [OF that refl, of i] by auto
  have gen: "\<not> (appears (st_claims s) (st_claims (write_batch cx claims s)) i
      \<and> appears (st_validations s) (st_validations (write_batch cx claims s)) i)"
    if ok: "batch_ok cx s claims" for s claims i
  proof -
    have "nc_id ` set claims \<inter> nv_id ` set (batch_validations claims) = {}"
      using ok by (intro batch_ids_distinct(3)) (auto simp: batch_ok_def)
    moreover have "i \<in> nc_id ` set claims" if "appears (st_claims s) (st_claims (write_batch cx claims s)) i"
      using that by (auto simp: batch_claims [OF ok] dest!: find_Some_set)
    moreover have "i \<in> nv_id ` set (batch_validations claims)"
      if "appears (st_validations s) (st_validations (write_batch cx claims s)) i"
    proof -
      from that obtain n where "List.find (\<lambda>n. nv_id n = i) (batch_validations claims) = Some n"
        by (auto simp: batch_validation_rows [OF ok])
      then show ?thesis by (auto dest!: find_Some_set)
    qed
    ultimately show ?thesis by blast
  qed
  show "\<not> (appears (st_claims (r_state r)) (st_claims (r_state r')) i
      \<and> appears (st_validations (r_state r)) (st_validations (r_state r')) i)"
    using assms by cases (use sat gen in \<open>auto split: if_splits\<close>)
  show "\<not> ((appears (st_claims (r_state r)) (st_claims (r_state r')) i
        \<or> appears (st_validations (r_state r)) (st_validations (r_state r')) i)
      \<and> (appears (st_artifacts (r_state r)) (st_artifacts (r_state r')) j
        \<or> appears (st_testaments (r_state r)) (st_testaments (r_state r')) j))"
    using assms by cases (use sat in \<open>auto split: if_splits\<close>)
  show "\<not> (appears (st_artifacts (r_state r)) (st_artifacts (r_state r')) i
      \<and> appears (st_testaments (r_state r)) (st_testaments (r_state r')) i)"
    using assms by cases (use sat in \<open>auto split: if_splits\<close>)
qed

lemma micro_ids_disjoint:
  assumes "micro cx r r'" "ids_disjoint (r_state r)"
  shows "ids_disjoint (r_state r')"
proof -
  note free = micro_appears_free [OF assms(1), unfolded free_id_iff]
  note once = micro_appears_once [OF assms(1)]
  note old = assms(2) [unfolded ids_disjoint_def, rule_format]
  show ?thesis unfolding ids_disjoint_def
  proof (intro allI conjI)
    fix i
    show "\<not> (claim_at (r_state r') i \<noteq> None \<and> bm_get (st_validations (r_state r')) i \<noteq> None)"
      using free(1,2) [of i] once(1) [of i] old [of i] by metis
    show "\<not> (claim_at (r_state r') i \<noteq> None \<and> bm_get (st_artifacts (r_state r')) i \<noteq> None)"
      using free(1,3) [of i] once(2) [of i i] old [of i] by metis
    show "\<not> (claim_at (r_state r') i \<noteq> None \<and> bm_get (st_testaments (r_state r')) i \<noteq> None)"
      using free(1,4) [of i] once(2) [of i i] old [of i] by metis
    show "\<not> (bm_get (st_validations (r_state r')) i \<noteq> None \<and> bm_get (st_artifacts (r_state r')) i \<noteq> None)"
      using free(2,3) [of i] once(2) [of i i] old [of i] by metis
    show "\<not> (bm_get (st_validations (r_state r')) i \<noteq> None \<and> bm_get (st_testaments (r_state r')) i \<noteq> None)"
      using free(2,4) [of i] once(2) [of i i] old [of i] by metis
    show "\<not> (bm_get (st_artifacts (r_state r')) i \<noteq> None \<and> bm_get (st_testaments (r_state r')) i \<noteq> None)"
      using free(3,4) [of i] once(3) [of i] old [of i] by metis
  qed
qed

lemmas identity_defs = identity_ok_def claims_identified_def artifact_identity_def testament_identity_def
  validation_identity_def index_sound_def ids_disjoint_def

interpretation identity: ledger_invariant h "identity_ok h" "identity_ok h" for h
proof unfold_locales
  show "identity_ok h (state_new l)" for l by (simp add: identity_defs state_new_def)
  show "identity_ok h (r_state r')"
    if "micro cx r r'" "serves h (r_state r) cx" "identity_ok h (r_state r)" for cx r r'
    using that by (simp add: identity_ok_def serves_def micro_claims_identified micro_artifact_identity
        micro_testament_identity micro_validation_identity micro_index_sound micro_ids_disjoint)
  show "identity_ok h (publish key rc q s)" if "identity_ok h s" for s q key rc
    using that by (simp add: identity_defs)
qed

end
