(* ===== verification/Structure.thy ===== *)
theory Structure
  imports Identity
begin

text \<open>
  The structure of the stored claims as an invariant: the lineage edges form no cycle, no edge
  dangles, a claim names its parties, and requirements and validation rows correspond one to one
  with the specification the claim pinned.
\<close>

section \<open>Edges\<close>

definition edges_closed :: "state \<Rightarrow> bool" where
  "edges_closed s \<longleftrightarrow> (\<forall>i c k ob. claim_at s i = Some c \<longrightarrow> Relation k (TObject ob) \<in> set (bm_keys (cc_relations (so_content c)))
     \<longrightarrow> k \<in> set claim_edge_kinds \<and> or_ledger ob = st_ledger s \<and> or_kind ob = OK_Claim \<and> claim_at s (or_id ob) \<noteq> None)"

lemma micro_claim_contents:
  assumes "micro cx r r'"
  obtains (generate) claims where "batch_ok cx (r_state r) claims" "r_state r' = write_batch cx claims (r_state r)"
      "check_acyclic (r_state r') lineage_kinds (lim_max_graph_visits (cx_limits cx)) = Inr ()"
  | (keep) "\<And>i. map_option so_content (claim_at (r_state r') i) = map_option so_content (claim_at (r_state r) i)"
      "\<And>i. map_option so_content (bm_get (st_validations (r_state r')) i)
          = map_option so_content (bm_get (st_validations (r_state r)) i)"
  using assms
proof cases
  case (m_generate claims)
  from generate [OF m_generate(1,3,4)] show thesis .
next
  case (m_satisfy changed)
  show thesis
    by (rule keep) (auto simp: satisfy_step_frame [OF m_satisfy] satisfy_step(1) [OF m_satisfy refl] satisfied_row_def
        option.map_comp comp_def intro!: option.map_cong)
qed (rule keep; auto)+

lemma lineage_cong:
  assumes "\<And>i. map_option so_content (claim_at s' i) = map_option so_content (claim_at s i)"
  shows "lineage s' kinds = lineage s kinds"
proof -
  have "(\<exists>c. claim_at s' i = Some c \<and> d \<in> set (lineage_targets kinds c))
      \<longleftrightarrow> (\<exists>c. claim_at s i = Some c \<and> d \<in> set (lineage_targets kinds c))" for i d
    using assms [of i] by (cases "claim_at s i"; cases "claim_at s' i") (auto simp: lineage_targets_def)
  then show ?thesis by (simp add: lineage_def)
qed

lemma micro_acyclic:
  assumes "micro cx r r'" "acyclic (lineage (r_state r) lineage_kinds)"
  shows "acyclic (lineage (r_state r') lineage_kinds)"
  using assms(1)
proof (cases rule: micro_claim_contents)
  case (generate claims)
  then show ?thesis using check_acyclic_sound by blast
next
  case keep
  then show ?thesis using assms(2) lineage_cong by metis
qed

lemma edge_target_kept:
  assumes "micro cx r r'" "claim_at (r_state r) i \<noteq> None"
  shows "claim_at (r_state r') i \<noteq> None"
  using assms micro_claim by blast

lemma micro_edges_closed:
  assumes "micro cx r r'" "edges_closed (r_state r)"
  shows "edges_closed (r_state r')"
  unfolding edges_closed_def
proof (intro allI impI)
  fix i c' k ob
  assume c': "claim_at (r_state r') i = Some c'"
    and rel: "Relation k (TObject ob) \<in> set (bm_keys (cc_relations (so_content c')))"
  from c' show "k \<in> set claim_edge_kinds \<and> or_ledger ob = st_ledger (r_state r') \<and> or_kind ob = OK_Claim
    \<and> claim_at (r_state r') (or_id ob) \<noteq> None"
  proof (rule claims_preserved [OF assms(1)])
    fix c
    assume c: "claim_at (r_state r) i = Some c" "claim_step cx (r_state r) (r_state r') i c c'"
    then show ?thesis
      using assms(2) rel claim_step_content [OF c(2)] edge_target_kept [OF assms(1)]
      by (auto simp: edges_closed_def micro_frame [OF assms(1)])
  next
    assume n: "claim_at (r_state r) i = None"
    from assms(1) show ?thesis
    proof (cases rule: micro_claim_contents)
      case (generate claims)
      then obtain new where new: "new \<in> set claims" "c' = claim_row cx new"
        using n c' by (auto simp: batch_claims dest!: find_Some_set)
      then have "edge_ok (r_state r) (set (map nc_id claims)) (nc_id new) k ob"
        using rel batch_okD(1) [OF generate(1)] by (auto simp: proposal_ok_def claim_row_def)
      moreover have "claim_at (r_state r') j \<noteq> None" if "j \<in> set (map nc_id claims)" for j
        using that generate batch_distinct [OF generate(1)] by (auto simp: write_batch_claims)
      ultimately show ?thesis
        using edge_target_kept [OF assms(1)] by (auto simp: edge_ok_def micro_frame [OF assms(1)])
    next
      case keep
      with n c' show ?thesis by (metis option.map_disc_iff option.distinct(1))
    qed
  qed
qed

section \<open>Parties and requirements\<close>

definition claim_shape :: "claim_content \<Rightarrow> bool" where
  "claim_shape c \<longleftrightarrow> cc_schema c = SCHEMA
     \<and> (\<forall>k \<in> {RK_Issuer, RK_Subject, RK_ClaimAction, RK_CausedBy}. relation_count c k = 1)
     \<and> issuer c \<noteq> None \<and> subject c \<noteq> None \<and> action c \<noteq> None \<and> cause c \<noteq> None
     \<and> (issuer c = subject c \<longrightarrow> action c = Some AT_Handoff)
     \<and> distinct (map rq_id (cc_requirements c))"

definition pinned :: "host \<Rightarrow> requirement_ref \<Rightarrow> claim_id \<Rightarrow> validation_content \<Rightarrow> bool" where
  "pinned h q i v \<longleftrightarrow> vc_claim v = i \<and> vc_schema v = SCHEMA \<and> specification_hash h v = Inr (rq_specification q)
     \<and> vc_evaluator v \<noteq> 0 \<and> handlers_ok v"

definition requirements_stored :: "host \<Rightarrow> state \<Rightarrow> bool" where
  "requirements_stored h s \<longleftrightarrow> (\<forall>i c. claim_at s i = Some c \<longrightarrow> claim_shape (so_content c)
     \<and> (\<forall>q \<in> set (cc_requirements (so_content c)).
          \<exists>v. bm_get (st_validations s) (rq_id q) = Some v \<and> pinned h q i (so_content v))
     \<and> (\<exists>j v. bm_get (st_validations s) j = Some v \<and> vc_claim (so_content v) = i \<and> required_receipt (so_content v)))"

definition validations_required :: "host \<Rightarrow> state \<Rightarrow> bool" where
  "validations_required h s \<longleftrightarrow> (\<forall>j v. bm_get (st_validations s) j = Some v \<longrightarrow>
     (\<exists>c. claim_at s (vc_claim (so_content v)) = Some c
        \<and> (\<exists>q \<in> set (cc_requirements (so_content c)). rq_id q = j \<and> pinned h q (vc_claim (so_content v)) (so_content v))))"

lemma validation_kept:
  assumes "micro cx r r'" "bm_get (st_validations (r_state r)) j = Some v"
  obtains v' where "bm_get (st_validations (r_state r')) j = Some v'" "so_content v' = so_content v"
  using micro_validation [OF assms] validation_step_content by blast

lemma claim_kept:
  assumes "micro cx r r'" "claim_at (r_state r) i = Some c"
  obtains c' where "claim_at (r_state r') i = Some c'" "so_content c' = so_content c"
  using micro_claim [OF assms] claim_step_content by blast

lemma batch_claim_shape:
  assumes "batch_ok cx s claims" "n \<in> set claims"
  shows "claim_shape (nc_content n)"
  using batch_okD(1) [OF assms]
  by (auto simp: claim_shape_def proposal_ok_def parties_ok_def requirements_ok_def)

lemma batch_validation_written:
  assumes "batch_ok cx s claims" "v \<in> set (batch_validations claims)"
  shows "bm_get (st_validations (write_batch cx claims s)) (nv_id v) = Some (validation_row cx v)"
  using assms batch_distinct [OF assms(1)] by (auto simp: write_batch_validations)

lemma batch_claim_written:
  assumes "batch_ok cx s claims" "n \<in> set claims"
  shows "claim_at (write_batch cx claims s) (nc_id n) = Some (claim_row cx n)"
  using assms batch_distinct [OF assms(1)] by (auto simp: write_batch_claims)

lemma validation_ok_pinned: "validation_ok cx s new q v \<Longrightarrow> pinned (cx_host cx) q (nc_id new) v"
  by (simp add: validation_ok_def pinned_def)

lemma batch_requirements:
  assumes "batch_ok cx s claims" "n \<in> set claims"
  shows "\<forall>q \<in> set (cc_requirements (nc_content n)). \<exists>v \<in> set (batch_validations claims).
      nv_id v = rq_id q \<and> pinned (cx_host cx) q (nc_id n) (nv_content v)"
    and "\<exists>v \<in> set (batch_validations claims). vc_claim (nv_content v) = nc_id n \<and> required_receipt (nv_content v)"
proof -
  have ok: "requirements_ok cx s n" using batch_okD(1) [OF assms] by (simp add: proposal_ok_def)
  show "\<forall>q \<in> set (cc_requirements (nc_content n)). \<exists>v \<in> set (batch_validations claims).
      nv_id v = rq_id q \<and> pinned (cx_host cx) q (nc_id n) (nv_content v)"
    using ok assms(2) validation_ok_pinned by (fastforce simp: requirements_ok_def)
  from ok obtain v where v: "v \<in> set (nc_validations n)" "required_receipt (nv_content v)"
    by (auto simp: requirements_ok_def)
  have "distinct (new_ids_of n)" using assms by (auto simp: batch_ok_def distinct_concat_iff)
  then have "distinct (map nv_id (nc_validations n))" by (simp add: new_ids_of_def)
  with requirement_of_validation [OF ok] v have "vc_claim (nv_content v) = nc_id n"
    by (auto simp: validation_ok_def)
  with v assms(2) show "\<exists>v \<in> set (batch_validations claims). vc_claim (nv_content v) = nc_id n \<and> required_receipt (nv_content v)"
    by auto
qed

lemma micro_requirements_stored:
  assumes "micro cx r r'" "cx_host cx = h" "requirements_stored h (r_state r)"
  shows "requirements_stored h (r_state r')"
  unfolding requirements_stored_def
proof (intro allI impI)
  fix i c'
  assume c': "claim_at (r_state r') i = Some c'"
  let ?P = "\<lambda>s c. claim_shape (so_content c)
     \<and> (\<forall>q \<in> set (cc_requirements (so_content c)).
          \<exists>v. bm_get (st_validations s) (rq_id q) = Some v \<and> pinned h q i (so_content v))
     \<and> (\<exists>j v. bm_get (st_validations s) j = Some v \<and> vc_claim (so_content v) = i \<and> required_receipt (so_content v))"
  from c' show "?P (r_state r') c'"
  proof (rule claims_preserved [OF assms(1)])
    fix c
    assume c: "claim_at (r_state r) i = Some c" "claim_step cx (r_state r) (r_state r') i c c'"
    then have P: "?P (r_state r) c" using assms(3) by (simp add: requirements_stored_def)
    have kept: "\<exists>v'. bm_get (st_validations (r_state r')) j = Some v' \<and> Q (so_content v')"
      if "\<exists>v. bm_get (st_validations (r_state r)) j = Some v \<and> Q (so_content v)" for j Q
      using that validation_kept [OF assms(1)] by metis
    from P have "\<exists>v. bm_get (st_validations (r_state r')) (rq_id q) = Some v \<and> pinned h q i (so_content v)"
      if "q \<in> set (cc_requirements (so_content c))" for q
      using that kept [of "rq_id q" "pinned h q i"] by blast
    moreover from P obtain j where "\<exists>v. bm_get (st_validations (r_state r)) j = Some v
        \<and> (\<lambda>x. vc_claim x = i \<and> required_receipt x) (so_content v)" by blast
    then have "\<exists>v. bm_get (st_validations (r_state r')) j = Some v
        \<and> (\<lambda>x. vc_claim x = i \<and> required_receipt x) (so_content v)" by (rule kept)
    ultimately show ?thesis using P claim_step_content [OF c(2)] by auto
  next
    assume n: "claim_at (r_state r) i = None"
    from assms(1) show ?thesis
    proof (cases rule: micro_claim_contents)
      case (generate claims)
      then obtain new where new: "new \<in> set claims" "nc_id new = i" "c' = claim_row cx new"
        using n c' by (auto simp: batch_claims dest!: find_Some_set)
      have row: "bm_get (st_validations (r_state r')) (nv_id v) = Some (validation_row cx v)"
        if "v \<in> set (batch_validations claims)" for v
        using batch_validation_written [OF generate(1) that] generate(2) by simp
      note req = batch_requirements [OF generate(1) new(1), unfolded new(2) assms(2)]
      show ?thesis
      proof (intro conjI ballI)
        show "claim_shape (so_content c')" using batch_claim_shape [OF generate(1) new(1)] by (simp add: new(3) claim_row_def)
        show "\<exists>v. bm_get (st_validations (r_state r')) (rq_id q) = Some v \<and> pinned h q i (so_content v)"
          if "q \<in> set (cc_requirements (so_content c'))" for q
        proof -
          have "q \<in> set (cc_requirements (nc_content new))" using that by (simp add: new(3) claim_row_def)
          with req(1) obtain v where "v \<in> set (batch_validations claims)" "nv_id v = rq_id q"
            "pinned h q i (nv_content v)" by blast
          with row [of v] show ?thesis by (auto simp: validation_row_def)
        qed
        from req(2) obtain v where "v \<in> set (batch_validations claims)" "vc_claim (nv_content v) = i"
          "required_receipt (nv_content v)" by blast
        with row [of v] show "\<exists>j v. bm_get (st_validations (r_state r')) j = Some v \<and> vc_claim (so_content v) = i
            \<and> required_receipt (so_content v)"
          by (intro exI [of _ "nv_id v"] exI [of _ "validation_row cx v"]) (simp add: validation_row_def)
      qed
    next
      case keep
      with n c' show ?thesis by (metis option.map_disc_iff option.distinct(1))
    qed
  qed
qed

lemma micro_validations_required:
  assumes "micro cx r r'" "cx_host cx = h" "validations_required h (r_state r)"
  shows "validations_required h (r_state r')"
  unfolding validations_required_def
proof (intro allI impI)
  fix j v'
  assume v': "bm_get (st_validations (r_state r')) j = Some v'"
  let ?P = "\<lambda>s v. \<exists>c. claim_at s (vc_claim (so_content v)) = Some c
        \<and> (\<exists>q \<in> set (cc_requirements (so_content c)). rq_id q = j \<and> pinned h q (vc_claim (so_content v)) (so_content v))"
  from v' show "?P (r_state r') v'"
  proof (rule validations_preserved [OF assms(1)])
    fix v
    assume v: "bm_get (st_validations (r_state r)) j = Some v" "validation_step v v'"
    then have "?P (r_state r) v" using assms(3) by (simp add: validations_required_def)
    then obtain c q where c: "claim_at (r_state r) (vc_claim (so_content v)) = Some c"
      "q \<in> set (cc_requirements (so_content c))" "rq_id q = j" "pinned h q (vc_claim (so_content v)) (so_content v)"
      by blast
    from assms(1) c(1) obtain c' where "claim_at (r_state r') (vc_claim (so_content v)) = Some c'"
      "so_content c' = so_content c" by (rule claim_kept)
    with c validation_step_content [OF v(2)] show ?thesis by auto
  next
    assume "validation_new cx (r_state r) (r_state r') j v'"
    then show ?thesis
    proof cases
      case (generated claims n)
      from generated(2,3) obtain new q where "new \<in> set claims" "q \<in> set (cc_requirements (nc_content new))"
        "nv_id n = rq_id q" "validation_ok cx (r_state r) new q (nv_content n)"
        by (rule batch_validation_owner)
      with generated batch_claim_written [OF generated(2), of new] assms(2) show ?thesis
        by (auto simp: validation_row_def claim_row_def validation_ok_def pinned_def)
    qed
  qed
qed

definition structured :: "host \<Rightarrow> state \<Rightarrow> bool" where
  "structured h s \<longleftrightarrow> acyclic (lineage s lineage_kinds) \<and> edges_closed s \<and> requirements_stored h s
     \<and> validations_required h s"

interpretation shape: ledger_invariant h "structured h" "structured h" for h
proof unfold_locales
  show "structured h (state_new l)" for l
    by (simp add: structured_def lineage_def edges_closed_def requirements_stored_def validations_required_def
        state_new_def acyclic_def)
  show "structured h (r_state r')"
    if "micro cx r r'" "serves h (r_state r) cx" "structured h (r_state r)" for cx r r'
    using that by (simp add: structured_def serves_def micro_acyclic micro_edges_closed micro_requirements_stored
        micro_validations_required)
  show "structured h (publish key rc q s)" if "structured h s" for s q key rc
    using that by (simp add: structured_def lineage_def edges_closed_def requirements_stored_def validations_required_def)
qed

end
