(* ===== verification/Runs.thy ===== *)
theory Runs
  imports Structure
begin

text \<open>
  Validation runs as an invariant: a run belongs to a stored requirement, its attempts are
  numbered consecutively and come from its pinned evaluator, they walk the pinned handlers
  strictly forward, and a final verdict is the value of the last attempt.  So a run accepts at
  most one verdict per handler and always ends.
\<close>

section \<open>The handler walk\<close>

lemma find_from_Some:
  assumes "find_from P k xs = Some n"
  shows "k \<le> n \<and> n < length xs \<and> P (xs ! n)"
proof -
  from assms obtain x where "(n, x) \<in> set (drop k (enumerate 0 xs))" "P x"
    by (auto simp: find_from_def dest!: find_Some_set)
  then obtain j where "j < length (drop k (enumerate 0 xs))" "drop k (enumerate 0 xs) ! j = (n, x)" "P x"
    by (auto simp: in_set_conv_nth)
  then show ?thesis by (auto simp: nth_enumerate_eq)
qed

lemma next_handler_Some:
  "next_handler v quality following val = Some n \<Longrightarrow> following \<le> n \<and> n < length (vc_handlers v)"
  by (auto simp: next_handler_def dest: find_from_Some split: if_splits)

definition walked :: "handler_ref list \<Rightarrow> verdict_record list \<Rightarrow> nat \<Rightarrow> bool" where
  "walked hs as n \<longleftrightarrow> n \<le> length hs \<and> (\<exists>ps. sorted_wrt (<) ps \<and> (\<forall>p \<in> set ps. p < n)
     \<and> map vr_handler as = map (nth hs) ps)"

lemma walked_Nil: "n \<le> length hs \<Longrightarrow> walked hs [] n"
  by (auto simp: walked_def)

lemma walked_mono: "walked hs as n \<Longrightarrow> n \<le> m \<Longrightarrow> m \<le> length hs \<Longrightarrow> walked hs as m"
  unfolding walked_def by (meson le_trans less_le_trans)

lemma walked_snoc:
  assumes "walked hs as n" "n < length hs" "vr_handler a = hs ! n"
  shows "walked hs (as @ [a]) (Suc n)"
proof -
  from assms(1) obtain ps where "sorted_wrt (<) ps" "\<forall>p \<in> set ps. p < n" "map vr_handler as = map (nth hs) ps"
    by (auto simp: walked_def)
  with assms(2,3) show ?thesis
    unfolding walked_def by (intro conjI exI [of _ "ps @ [n]"]) (auto simp: sorted_wrt_append less_Suc_eq)
qed

lemma walked_length:
  assumes "walked hs as n"
  shows "length as \<le> n"
proof -
  from assms obtain ps where ps: "sorted_wrt (<) ps" "\<forall>p \<in> set ps. p < n" "map vr_handler as = map (nth hs) ps"
    by (auto simp: walked_def)
  have "length as = length ps" using ps(3) by (metis length_map)
  also have "\<dots> = card (set ps)" using ps(1) by (simp add: distinct_card strict_sorted_iff)
  also have "\<dots> \<le> card {..<n}" using ps(2) by (intro card_mono) auto
  finally show ?thesis by simp
qed

section \<open>The invariant\<close>

definition attempts_ok :: "validation_run \<Rightarrow> bool" where
  "attempts_ok x \<longleftrightarrow> (\<forall>k < length (run_attempts x). let a = run_attempts x ! k in
     unat (vr_attempt a) = k \<and> vr_run a = run_id x \<and> vr_evaluator a = run_evaluator x \<and> vr_manifest a = run_manifest x)"

definition final_ok :: "validation_run \<Rightarrow> bool" where
  "final_ok x \<longleftrightarrow> (\<forall>f. run_final_verdict x = Some f \<longrightarrow> run_attempts x \<noteq> [] \<and> vr_value (last (run_attempts x)) = f)"

definition built_in :: "host \<Rightarrow> validation \<Rightarrow> validation_run \<Rightarrow> bool" where
  "built_in h v x \<longleftrightarrow> vc_kind (so_content v) = VK_Receipt
     \<and> run_attempts x = [receipt_verdict h v (run_id x) (run_manifest x)] \<and> run_final_verdict x = Some VV_Pass"

definition walks :: "validation \<Rightarrow> validation_run \<Rightarrow> bool" where
  "walks v x \<longleftrightarrow> (case run_final_verdict x of
      None \<Rightarrow> unat (run_handler_index x) < length (vc_handlers (so_content v))
        \<and> walked (vc_handlers (so_content v)) (run_attempts x) (unat (run_handler_index x))
    | Some _ \<Rightarrow> walked (vc_handlers (so_content v)) (run_attempts x) (length (vc_handlers (so_content v))))"

definition run_ok :: "host \<Rightarrow> state \<Rightarrow> validation_run \<Rightarrow> bool" where
  "run_ok h s x \<longleftrightarrow> (\<exists>v. bm_get (st_validations s) (ri_validation (run_id x)) = Some v
     \<and> run_claim x = vc_claim (so_content v) \<and> run_evaluator x = vc_evaluator (so_content v)
     \<and> ri_phase (run_id x) = vc_phase (so_content v)
     \<and> ri_epoch (run_id x) \<noteq> 0 \<and> ri_epoch (run_id x) \<le> vl_latest_epoch (so_lifecycle v)
     \<and> attempts_ok x \<and> final_ok x \<and> (built_in h v x \<or> walks v x))"

lemma walks_cong: "so_content v' = so_content v \<Longrightarrow> walks v' x = walks v x"
  by (simp add: walks_def split: option.split)

lemma built_in_cong: "so_content v' = so_content v \<Longrightarrow> built_in h v' x = built_in h v x"
  by (simp add: built_in_def receipt_verdict_def)

lemma run_ok_mono:
  assumes "run_ok h s x"
    and "\<And>v. bm_get (st_validations s) (ri_validation (run_id x)) = Some v
      \<Longrightarrow> \<exists>v'. bm_get (st_validations s') (ri_validation (run_id x)) = Some v' \<and> validation_grows v v'"
  shows "run_ok h s' x"
proof -
  from assms(1) obtain v where v: "bm_get (st_validations s) (ri_validation (run_id x)) = Some v"
    and rest: "run_claim x = vc_claim (so_content v)" "run_evaluator x = vc_evaluator (so_content v)"
      "ri_phase (run_id x) = vc_phase (so_content v)" "ri_epoch (run_id x) \<noteq> 0"
      "ri_epoch (run_id x) \<le> vl_latest_epoch (so_lifecycle v)"
      "attempts_ok x" "final_ok x" "built_in h v x \<or> walks v x"
    by (auto simp: run_ok_def)
  from assms(2) [OF v] obtain v' where v': "bm_get (st_validations s') (ri_validation (run_id x)) = Some v'"
    and g: "so_content v' = so_content v" "vl_latest_epoch (so_lifecycle v) \<le> vl_latest_epoch (so_lifecycle v')"
    by (auto simp: validation_grows_def)
  from rest g walks_cong [OF g(1)] built_in_cong [OF g(1)] v' show ?thesis
    unfolding run_ok_def by (intro exI [of _ v']) auto
qed

lemma attempts_ok_snoc:
  "attempts_ok x \<Longrightarrow> unat (vr_attempt a) = length (run_attempts x) \<Longrightarrow> vr_run a = run_id x
    \<Longrightarrow> vr_evaluator a = run_evaluator x \<Longrightarrow> vr_manifest a = run_manifest x \<Longrightarrow> attempts_ok (next_run a x v)"
  by (auto simp: attempts_ok_def nth_append less_Suc_eq Let_def)

lemma final_ok_next: "run_final_verdict x = None \<Longrightarrow> final_ok (next_run a x v)"
  by (auto simp: final_ok_def next_run_def Let_def split: option.splits)

lemma walks_next:
  assumes "walks v x" "run_final_verdict x = None" "next_index_fits a x v"
    "nth_opt (vc_handlers (so_content v)) (unat (run_handler_index x)) = Some (vr_handler a)"
  shows "walks v (next_run a x v)"
proof -
  let ?hs = "vc_handlers (so_content v)" and ?i = "unat (run_handler_index x)"
  from assms(1,2) have i: "?i < length ?hs" and w: "walked ?hs (run_attempts x) ?i" by (auto simp: walks_def)
  from assms(4) have "vr_handler a = ?hs ! ?i" by (auto simp: nth_opt_def split: if_splits)
  with w i have w': "walked ?hs (run_attempts x @ [a]) (Suc ?i)" by (rule walked_snoc)
  show ?thesis
  proof (cases "next_handler (so_content v) (run_quality_phase x) (?i + 1) (vr_value a)")
    case None
    then have "run_final_verdict (next_run a x v) = Some (vr_value a)" by (simp add: next_run_def)
    with walked_mono [OF w'] i show ?thesis by (simp add: walks_def)
  next
    case (Some n)
    then have n: "Suc ?i \<le> n" "n < length ?hs" using next_handler_Some by fastforce+
    have "n < 2 ^ 32" using Some assms(3) by (simp add: next_index_fits_def)
    then have "unat (of_nat n :: u32) = n" by (simp add: unat_of_nat)
    with Some assms(2) n walked_mono [OF w'] show ?thesis by (simp add: walks_def next_run_def)
  qed
qed

lemma run_step_ok:
  assumes "run_step cx s x x'" "run_ok h s x"
  shows "run_ok h s x'"
  using assms(1)
proof cases
  case (verdict v c a)
  from assms(2) verdict(2) have ok: "run_claim x = vc_claim (so_content v)" "run_evaluator x = vc_evaluator (so_content v)"
      "ri_phase (run_id x) = vc_phase (so_content v)" "ri_epoch (run_id x) \<noteq> 0"
      "ri_epoch (run_id x) \<le> vl_latest_epoch (so_lifecycle v)"
      "attempts_ok x" "final_ok x" "built_in h v x \<or> walks v x"
    by (auto simp: run_ok_def)
  from verdict(5) have g: "run_final_verdict x = None" "vr_evaluator a = run_evaluator x"
    "nth_opt (vc_handlers (so_content v)) (unat (run_handler_index x)) = Some (vr_handler a)"
    "unat (vr_attempt a) = length (run_attempts x)" "vr_manifest a = run_manifest x"
    by (auto simp: verdict_guard_def)
  with ok have "walks v x" by (auto simp: built_in_def)
  then have "walks v (next_run a x v)" using g(1,3) verdict(6) walks_next by blast
  moreover have "attempts_ok (next_run a x v)" using ok(6) g verdict(4) by (intro attempts_ok_snoc) auto
  ultimately show ?thesis unfolding verdict(1) run_ok_def
    using ok verdict(2) final_ok_next [OF g(1)] by (intro exI [of _ v]) simp
qed (use assms(2) in simp)

definition runs_ok :: "host \<Rightarrow> state \<Rightarrow> bool" where
  "runs_ok h s \<longleftrightarrow> (\<forall>k x. bm_get (st_runs s) k = Some x \<longrightarrow> run_ok h s x)"

lemma handlers_of:
  assumes "validations_required h s" "bm_get (st_validations s) j = Some v"
  shows "handlers_ok (so_content v)"
  using assms by (fastforce simp: validations_required_def pinned_def)

lemma epoch_succ:
  assumes "unat (e :: u64) + 1 < 2 ^ 64"
  shows "e + 1 \<noteq> 0"
proof -
  have "unat (e + 1) = unat e + 1" using assms by (simp add: unat_word_ariths)
  then show ?thesis by (auto simp: word_unat_eq_iff)
qed

lemma run_new_ok:
  assumes "run_new cx s s' k x" "cx_host cx = h" "validations_required h s"
  shows "run_ok h s' x"
  using assms(1)
proof cases
  case (scheduled i v c first target manifest)
  have "0 < length (vc_handlers (so_content v))"
    using scheduled(6) by (cases "vc_handlers (so_content v)") (auto simp: first_opt_def)
  then have "walks (with_epoch (vl_latest_epoch (so_lifecycle v) + 1) v) x"
    by (simp add: walks_def scheduled(1) new_run_def walked_Nil)
  then show ?thesis unfolding run_ok_def
    using scheduled epoch_succ [OF scheduled(9)]
    by (intro exI [of _ "with_epoch (vl_latest_epoch (so_lifecycle v) + 1) v"])
      (simp add: new_run_def attempts_ok_def final_ok_def)
next
  case (receipt i v c target manifest)
  have "vc_phase (so_content v) = PH_WholeWork"
    using handlers_of [OF assms(3) receipt(2)] receipt(3) by (simp add: handlers_ok_def)
  then show ?thesis unfolding run_ok_def
    using receipt epoch_succ [OF receipt(9)] assms(2)
    by (intro exI [of _ "with_epoch (vl_latest_epoch (so_lifecycle v) + 1) v"])
      (simp add: receipt_run_def receipt_verdict_def attempts_ok_def final_ok_def built_in_def)
qed

lemma micro_runs_ok:
  assumes "micro cx r r'" "cx_host cx = h" "base (r_state r)" "validations_required h (r_state r)" "runs_ok h (r_state r)"
  shows "runs_ok h (r_state r')"
  unfolding runs_ok_def
proof (intro allI impI)
  fix k x'
  have rk: "run_keys (r_state r)" using assms(3) by (simp add: base_def)
  assume "bm_get (st_runs (r_state r')) k = Some x'"
  then show "run_ok h (r_state r') x'"
  proof (rule runs_preserved [OF assms(1) rk])
    assume "run_new cx (r_state r) (r_state r') k x'"
    then show ?thesis using assms(2,4) by (rule run_new_ok)
  next
    fix x
    assume "bm_get (st_runs (r_state r)) k = Some x" and st: "run_step cx (r_state r) x x'"
    with assms(5) have "run_ok h (r_state r) x" by (simp add: runs_ok_def)
    with st have "run_ok h (r_state r) x'" by (rule run_step_ok)
    then show ?thesis
    proof (rule run_ok_mono)
      fix v
      assume "bm_get (st_validations (r_state r)) (ri_validation (run_id x')) = Some v"
      from micro_validation [OF assms(1) this] validation_step_grows
      show "\<exists>v'. bm_get (st_validations (r_state r')) (ri_validation (run_id x')) = Some v' \<and> validation_grows v v'"
        by blast
    qed
  qed
qed

interpretation run: dependent_invariant h "structured h" "structured h" "runs_ok h" "runs_ok h" for h
proof unfold_locales
  show "runs_ok h (state_new l)" for l by (simp add: runs_ok_def state_new_def)
  show "runs_ok h (r_state r')"
    if a: "micro cx r r'" "serves h (r_state r) cx" "base (r_state r)" "structured h (r_state r)" "runs_ok h (r_state r)"
    for cx r r'
  proof -
    have "cx_host cx = h" "validations_required h (r_state r)" using a(2,4) by (simp_all add: serves_def structured_def)
    then show ?thesis by (rule micro_runs_ok [OF a(1) _ a(3) _ a(5)])
  qed
  show "runs_ok h (publish key rc q s)" if "runs_ok h s" for s q key rc
    using that by (simp add: runs_ok_def run_ok_def)
qed

lemma reachable_runs_ok: "reachable_core h k l lims co \<Longrightarrow> runs_ok h (co_state co)"
  by (drule run.both.reachable) simp

end
