(* ===== verification/Completion.thy ===== *)
theory Completion
  imports Runs
begin

text \<open>
  What completion, satisfaction and dependency failure mean: the aggregate verdict is the worst
  final verdict of the gating requirements; a claim is locally complete only when all of them
  passed, it was acquired only after its admission requirements passed and its dependencies were
  satisfied, and it is satisfied only with all of that and with the claims it awaits terminal.
\<close>

section \<open>The aggregate verdict\<close>

definition gates :: "state \<Rightarrow> claim_id \<Rightarrow> validation_id set" where
  "gates s i = {j. \<exists>v. bm_get (st_validations s) j = Some v \<and> vc_claim (so_content v) = i
     \<and> vc_mode (so_content v) = MO_Required \<and> vc_phase (so_content v) \<noteq> PH_Admission}"

definition gate_runs :: "state \<Rightarrow> claim_id \<Rightarrow> validation_run set" where
  "gate_runs s i = (\<Union>j \<in> gates s i. set (runs_of s j))"

lemma worst_of_runs_Some:
  "worst_of_runs xs w0 = Some w \<longleftrightarrow>
     (\<forall>x \<in> set xs. \<exists>f. run_final_verdict x = Some f \<and> severity f \<le> severity w)
     \<and> severity w0 \<le> severity w \<and> (w = w0 \<or> (\<exists>x \<in> set xs. run_final_verdict x = Some w))"
proof (induction xs arbitrary: w0)
  case Nil
  then show ?case by auto
next
  case (Cons x xs)
  show ?case
  proof (cases "run_final_verdict x")
    case None
    then show ?thesis by simp
  next
    case (Some f)
    then show ?thesis using Cons.IH [of "if severity f > severity w0 then f else w0"]
      by (auto simp: severity_inject split: if_splits)
  qed
qed

definition gating :: "claim_id \<Rightarrow> validation \<Rightarrow> bool" where
  "gating i v \<longleftrightarrow> vc_claim (so_content v) = i \<and> vc_mode (so_content v) = MO_Required
     \<and> vc_phase (so_content v) \<noteq> PH_Admission"

lemma worst_of_runs_append:
  "worst_of_runs (xs @ ys) w = Option.bind (worst_of_runs xs w) (worst_of_runs ys)"
  by (induction xs arbitrary: w) (auto split: option.splits)

abbreviation gate_list :: "claim_id \<Rightarrow> (validation_id \<times> validation) list \<Rightarrow> (validation_id \<times> validation) list" where
  "gate_list i vs \<equiv> filter (\<lambda>(j, v). gating i v) vs"

lemma aggregate_loop_eq:
  "aggregate_loop s i vs w0 any =
     (if (any \<or> gate_list i vs \<noteq> []) \<and> (\<forall>(j, v) \<in> set (gate_list i vs). runs_of s j \<noteq> [])
      then worst_of_runs (concat (map (\<lambda>(j, v). runs_of s j) (gate_list i vs))) w0 else None)"
proof (induction vs arbitrary: w0 any)
  case (Cons p vs)
  obtain j v where p: "p = (j, v)" by (cases p)
  show ?case
  proof (cases "gating i v \<and> runs_of s j \<noteq> []")
    case True
    then have "aggregate_loop s i (p # vs) w0 any
        = Option.bind (worst_of_runs (runs_of s j) w0) (\<lambda>w. aggregate_loop s i vs w True)"
      by (simp add: p gating_def split: option.split)
    with True show ?thesis
      by (cases "worst_of_runs (runs_of s j) w0") (auto simp: p Cons.IH worst_of_runs_append)
  next
    case False
    show ?thesis
    proof (cases "gating i v")
      case True
      with False have "runs_of s j = []" by simp
      with True show ?thesis by (simp add: p gating_def)
    next
      case no: False
      then have "aggregate_loop s i (p # vs) w0 any = aggregate_loop s i vs w0 any"
        by (auto simp: p gating_def)
      moreover have "gate_list i (p # vs) = gate_list i vs" using no by (simp add: p)
      ultimately show ?thesis using Cons.IH [of w0 any] by (simp only:)
    qed
  qed
qed simp

lemma gates_list: "j \<in> gates s i \<longleftrightarrow> (\<exists>v. (j, v) \<in> set (gate_list i (bm_iter (st_validations s))))"
  by (auto simp: gates_def gating_def bm_iter_get)

lemma aggregate_eq:
  "aggregate s i = (if gates s i \<noteq> {} \<and> (\<forall>j \<in> gates s i. runs_of s j \<noteq> [])
     then worst_of_runs (concat (map (\<lambda>(j, v). runs_of s j) (gate_list i (bm_iter (st_validations s))))) VV_Pass
     else None)"
proof -
  let ?l = "gate_list i (bm_iter (st_validations s))"
  have "?l \<noteq> [] \<longleftrightarrow> gates s i \<noteq> {}" using gates_list [of _ s i] by (cases ?l) auto
  moreover have "(\<forall>(j, v) \<in> set ?l. runs_of s j \<noteq> []) \<longleftrightarrow> (\<forall>j \<in> gates s i. runs_of s j \<noteq> [])"
    using gates_list [of _ s i] by auto
  ultimately show ?thesis by (simp add: aggregate_def aggregate_loop_eq)
qed

lemma gate_runs_list:
  "gate_runs s i = set (concat (map (\<lambda>(j, v). runs_of s j) (gate_list i (bm_iter (st_validations s)))))"
  unfolding gate_runs_def set_concat set_map using gates_list [of _ s i] by force

lemma aggregate_Some:
  "aggregate s i = Some w \<longleftrightarrow> gates s i \<noteq> {} \<and> (\<forall>j \<in> gates s i. runs_of s j \<noteq> [])
     \<and> (\<forall>x \<in> gate_runs s i. \<exists>f. run_final_verdict x = Some f \<and> severity f \<le> severity w)
     \<and> (\<exists>x \<in> gate_runs s i. run_final_verdict x = Some w)"
proof -
  have "\<exists>x \<in> gate_runs s i. run_final_verdict x = Some VV_Pass"
    if "gates s i \<noteq> {}" "\<forall>j \<in> gates s i. runs_of s j \<noteq> []"
      "\<forall>x \<in> gate_runs s i. \<exists>f. run_final_verdict x = Some f \<and> severity f \<le> severity VV_Pass"
  proof -
    from that(1,2) obtain x where x: "x \<in> gate_runs s i" by (fastforce simp: gate_runs_def neq_Nil_conv)
    with that(3) obtain f where "run_final_verdict x = Some f" "severity f \<le> severity VV_Pass" by blast
    moreover from this(2) have "f = VV_Pass" by (cases f) simp_all
    ultimately show ?thesis using x by blast
  qed
  note attained = this
  define l where "l = concat (map (\<lambda>(j, v). runs_of s j) (gate_list i (bm_iter (st_validations s))))"
  have l: "gate_runs s i = set l" by (simp add: gate_runs_list l_def)
  have "aggregate s i = Some w \<longleftrightarrow> gates s i \<noteq> {} \<and> (\<forall>j \<in> gates s i. runs_of s j \<noteq> [])
      \<and> worst_of_runs l VV_Pass = Some w"
    by (simp add: aggregate_eq l_def)
  also have "\<dots> \<longleftrightarrow> gates s i \<noteq> {} \<and> (\<forall>j \<in> gates s i. runs_of s j \<noteq> [])
     \<and> (\<forall>x \<in> gate_runs s i. \<exists>f. run_final_verdict x = Some f \<and> severity f \<le> severity w)
     \<and> (\<exists>x \<in> gate_runs s i. run_final_verdict x = Some w)"
    unfolding worst_of_runs_Some l [symmetric] using attained by (cases "w = VV_Pass") auto
  finally show ?thesis .
qed

lemma runs_of_iff:
  "x \<in> set (runs_of s j) \<longleftrightarrow> ri_validation (run_id x) = j \<and> (\<exists>k. bm_get (st_runs s) k = Some x)"
  by (auto simp: runs_of_def set_bm_values ran_def)

section \<open>Requirements that passed\<close>

definition validated :: "state \<Rightarrow> validation_id \<Rightarrow> bool" where
  "validated s j \<longleftrightarrow> runs_of s j \<noteq> [] \<and> (\<forall>x \<in> set (runs_of s j). run_final_verdict x = Some VV_Pass)"

lemma validated_cong: "st_runs s' = st_runs s \<Longrightarrow> validated s' j = validated s j"
  by (simp add: validated_def runs_of_def)

lemma aggregate_pass_validated:
  assumes "aggregate s i = Some VV_Pass" "j \<in> gates s i"
  shows "validated s j"
proof -
  from assms have "runs_of s j \<noteq> []"
    and "\<forall>x \<in> gate_runs s i. \<exists>f. run_final_verdict x = Some f \<and> severity f \<le> severity VV_Pass"
    by (auto simp: aggregate_Some)
  moreover have "f = VV_Pass" if "severity f \<le> severity VV_Pass" for f using that by (cases f) simp_all
  ultimately show ?thesis using assms(2) unfolding validated_def gate_runs_def by blast
qed

lemma phase_passed_validated:
  assumes "phase_passed s i phase" "bm_get (st_validations s) j = Some v" "required_in i phase v"
  shows "validated s j"
proof -
  have "(j, v) \<in> set (bm_iter (st_validations s))" using assms(2) by (simp add: bm_iter_get)
  with assms(1,3) show ?thesis by (fastforce simp: phase_passed_def validated_def list_all_iff)
qed

lemma validated_kept:
  assumes "micro cx r r'" "run_keys (r_state r)" "validated (r_state r) j"
    and new: "\<And>k x. run_new cx (r_state r) (r_state r') k x \<Longrightarrow> ri_validation k \<noteq> j"
  shows "validated (r_state r') j"
proof -
  have rk': "run_keys (r_state r')" using micro_run_keys [OF assms(1,2)] .
  obtain x where "x \<in> set (runs_of (r_state r) j)"
    using assms(3) by (cases "runs_of (r_state r) j") (auto simp: validated_def)
  then obtain k where x: "ri_validation (run_id x) = j" "bm_get (st_runs (r_state r)) k = Some x"
    by (auto simp: runs_of_iff)
  from micro_run [OF assms(1,2) x(2)] obtain x' where x': "bm_get (st_runs (r_state r')) k = Some x'"
    "run_step cx (r_state r) x x'" by blast
  have "run_id x' = run_id x" using run_step_grows [OF x'(2)] by (simp add: run_grows_def)
  with x x' have "x' \<in> set (runs_of (r_state r') j)" by (auto simp: runs_of_iff)
  moreover have "run_final_verdict y' = Some VV_Pass" if "y' \<in> set (runs_of (r_state r') j)" for y'
  proof -
    from that obtain q where q: "ri_validation (run_id y') = j" "bm_get (st_runs (r_state r')) q = Some y'"
      by (auto simp: runs_of_iff)
    from q(2) show ?thesis
    proof (rule runs_preserved [OF assms(1,2)])
      assume "run_new cx (r_state r) (r_state r') q y'"
      with new have "ri_validation q \<noteq> j" by blast
      moreover have "run_id y' = q" using rk' q(2) by (simp add: run_keys_def)
      ultimately show ?thesis using q(1) by simp
    next
      fix y
      assume y: "bm_get (st_runs (r_state r)) q = Some y" and st: "run_step cx (r_state r) y y'"
      note g = run_step_grows [OF st, unfolded run_grows_def]
      have "y \<in> set (runs_of (r_state r) j)" using y q(1) g by (auto simp: runs_of_iff)
      then have "run_final_verdict y = Some VV_Pass" using assms(3) by (simp add: validated_def)
      with g show ?thesis by simp
    qed
  qed
  ultimately show ?thesis by (auto simp: validated_def)
qed

definition checked :: "host \<Rightarrow> state \<Rightarrow> bool" where
  "checked h s \<longleftrightarrow> claims_wf s \<and> structured h s \<and> runs_ok h s"

interpretation checked: ledger_invariant h "checked h" "checked h" for h
proof unfold_locales
  show "checked h (state_new l)" for l
    by (simp add: checked_def wf.initial run.both.initial [THEN conjunct1] run.both.initial [THEN conjunct2])
  show "checked h (r_state r')"
    if a: "micro cx r r'" "serves h (r_state r) cx" "base (r_state r)" "checked h (r_state r)" for cx r r'
    using run.both.preserved [OF a(1-3)] wf.preserved [OF a(1-3)] a(4) by (simp add: checked_def)
  show "checked h (publish key rc q s)" if "checked h s" "unat q = Suc (unat (st_sequence s))" for s q key rc
    using run.both.leave [OF _ that(2)] wf.leave [OF _ that(2)] that(1) by (simp add: checked_def)
qed

definition completion_ok :: "state \<Rightarrow> bool" where
  "completion_ok s \<longleftrightarrow> (\<forall>i c j v. claim_at s i = Some c \<longrightarrow> bm_get (st_validations s) j = Some v
     \<longrightarrow> vc_claim (so_content v) = i \<longrightarrow> vc_mode (so_content v) = MO_Required
     \<longrightarrow> (cl_local_complete (so_lifecycle c) \<and> vc_phase (so_content v) \<noteq> PH_Admission \<longrightarrow> validated s j)
       \<and> (cl_receipt (so_lifecycle c) \<noteq> None \<and> vc_phase (so_content v) = PH_Admission \<longrightarrow> validated s j))"

lemma run_new_validation:
  assumes "run_new cx s s' k x"
  obtains v c where "bm_get (st_validations s) (ri_validation k) = Some v"
    "claim_at s (vc_claim (so_content v)) = Some c" "\<not> cl_local_complete (so_lifecycle c)"
    "schedule_status (vc_phase (so_content v)) (status_of c)
      \<or> vc_kind (so_content v) = VK_Receipt"
  using assms by cases auto

lemma claim_step_completes:
  assumes "claim_step cx s s' i c c'" "cl_local_complete (so_lifecycle c')" "\<not> cl_local_complete (so_lifecycle c)"
  shows "aggregate s i = Some VV_Pass \<and> st_runs s' = st_runs s"
  using assms(1) by cases (use assms(2,3) in \<open>auto simp: so_lifecycle_update\<close>)

lemma claim_step_receives:
  assumes "claim_step cx s s' i c c'" "cl_receipt (so_lifecycle c') \<noteq> None" "cl_receipt (so_lifecycle c) = None"
  shows "phase_passed s i PH_Admission \<and> st_runs s' = st_runs s
    \<and> (\<forall>d \<in> set (dependencies (so_content c) RK_DependsOn). \<exists>t. claim_at s d = Some t \<and> status_of t = Satisfied)"
  using assms(1) by cases (use assms(2,3) in \<open>auto simp: so_lifecycle_update\<close>)

lemma new_validation_claim:
  assumes "validation_new cx s s' j v"
  shows "claim_at s (vc_claim (so_content v)) = None"
  using assms
proof cases
  case (generated claims n)
  from generated(2,3) obtain new q where "new \<in> set claims" "validation_ok cx s new q (nv_content n)"
    by (rule batch_validation_owner)
  with batch_okD(3) [OF generated(2)] show ?thesis
    by (simp add: generated(1) validation_row_def validation_ok_def free_id_iff)
qed

lemma micro_completion_ok:
  assumes "micro cx r r'" "base (r_state r)" "checked h (r_state r)" "completion_ok (r_state r)"
  shows "completion_ok (r_state r')"
  unfolding completion_ok_def
proof (intro allI impI)
  fix i c' j v'
  assume c': "claim_at (r_state r') i = Some c'" and v': "bm_get (st_validations (r_state r')) j = Some v'"
    and own: "vc_claim (so_content v') = i" and req: "vc_mode (so_content v') = MO_Required"
  let ?P = "\<lambda>c. (cl_local_complete (so_lifecycle c) \<and> vc_phase (so_content v') \<noteq> PH_Admission \<longrightarrow> validated (r_state r') j)
       \<and> (cl_receipt (so_lifecycle c) \<noteq> None \<and> vc_phase (so_content v') = PH_Admission \<longrightarrow> validated (r_state r') j)"
  have rk: "run_keys (r_state r)" using assms(2) by (simp add: base_def)
  from c' show "?P c'"
  proof (rule claims_preserved [OF assms(1)])
    assume "claim_new cx (r_state r) i c'"
    then show ?thesis by cases (simp add: claim_row_def initial_lifecycle_def)
  next
    fix c
    assume c: "claim_at (r_state r) i = Some c" and st: "claim_step cx (r_state r) (r_state r') i c c'"
    from v' obtain v where v: "bm_get (st_validations (r_state r)) j = Some v" and vv: "so_content v' = so_content v"
    proof (rule validations_preserved [OF assms(1)])
      assume "validation_new cx (r_state r) (r_state r') j v'"
      from new_validation_claim [OF this] c own show thesis by simp
    next
      fix v
      assume "bm_get (st_validations (r_state r)) j = Some v" "validation_step v v'"
      with validation_step_content that show thesis by blast
    qed
    have inv: "cl_local_complete (so_lifecycle c) \<Longrightarrow> vc_phase (so_content v) \<noteq> PH_Admission \<Longrightarrow> validated (r_state r) j"
      "cl_receipt (so_lifecycle c) \<noteq> None \<Longrightarrow> vc_phase (so_content v) = PH_Admission \<Longrightarrow> validated (r_state r) j"
      using assms(4) [unfolded completion_ok_def, rule_format, OF c v] own req vv by simp_all
    have hk: "handlers_ok (so_content v)" using assms(3) v by (auto simp: checked_def structured_def intro: handlers_of)
    have wf: "claim_wf (so_lifecycle c)" using assms(3) c by (auto simp: checked_def dest: claims_wfD)
    show ?thesis
    proof (intro conjI impI)
      assume a: "cl_local_complete (so_lifecycle c') \<and> vc_phase (so_content v') \<noteq> PH_Admission"
      show "validated (r_state r') j"
      proof (cases "cl_local_complete (so_lifecycle c)")
        case True
        have "validated (r_state r) j" using inv(1) True a vv by simp
        with assms(1) rk show ?thesis
        proof (rule validated_kept)
          fix k x
          assume "run_new cx (r_state r) (r_state r') k x"
          then show "ri_validation k \<noteq> j" by (rule run_new_validation) (use v c own vv True in auto)
        qed
      next
        case False
        from claim_step_completes [OF st] a False have agg: "aggregate (r_state r) i = Some VV_Pass"
          and eq: "st_runs (r_state r') = st_runs (r_state r)" by auto
        have "j \<in> gates (r_state r) i" using v own req vv a by (auto simp: gates_def)
        with aggregate_pass_validated [OF agg] show ?thesis by (simp add: validated_cong [OF eq])
      qed
    next
      assume a: "cl_receipt (so_lifecycle c') \<noteq> None \<and> vc_phase (so_content v') = PH_Admission"
      show "validated (r_state r') j"
      proof (cases "cl_receipt (so_lifecycle c)")
        case (Some rc)
        then have "\<not> unheld (status_of c)" using wf by (auto simp: claim_wf_def)
        then have st: "status_of c \<noteq> Posted" by (auto simp: unheld_def)
        have "validated (r_state r) j" using inv(2) Some a vv by simp
        with assms(1) rk show ?thesis
        proof (rule validated_kept)
          fix k x
          assume "run_new cx (r_state r) (r_state r') k x"
          then show "ri_validation k \<noteq> j"
            by (rule run_new_validation)
              (use v c own vv st a hk in \<open>auto simp: schedule_status_def handlers_ok_def\<close>)
        qed
      next
        case None
        from claim_step_receives [OF st] a None have ph: "phase_passed (r_state r) i PH_Admission"
          and eq: "st_runs (r_state r') = st_runs (r_state r)" by auto
        have "required_in i PH_Admission v" using own req vv a by (auto simp: required_in_def)
        with phase_passed_validated [OF ph v] show ?thesis by (simp add: validated_cong [OF eq])
      qed
    qed
  qed
qed

section \<open>Dependencies\<close>

definition satisfied_at :: "state \<Rightarrow> claim_id \<Rightarrow> bool" where
  "satisfied_at s d \<longleftrightarrow> (\<exists>t. claim_at s d = Some t \<and> status_of t = Satisfied)"

definition deps_ok :: "state \<Rightarrow> claim_id \<Rightarrow> claim \<Rightarrow> bool" where
  "deps_ok s i c \<longleftrightarrow>
     (cl_receipt (so_lifecycle c) \<noteq> None \<longrightarrow> (\<forall>d \<in> set (dependencies (so_content c) RK_DependsOn). satisfied_at s d))
     \<and> (status_of c = Satisfied \<longrightarrow> (\<forall>d \<in> set (dependencies (so_content c) RK_Awaits). terminal_at s d))
     \<and> (status_of c = DependencyFailed \<longrightarrow> cl_receipt (so_lifecycle c) = None
          \<and> (\<exists>d \<in> set (dependencies (so_content c) RK_DependsOn). cl_terminal_witness (so_lifecycle c) = Some d \<and> failed_at s d))"

definition dependencies_ok :: "state \<Rightarrow> bool" where
  "dependencies_ok s \<longleftrightarrow> (\<forall>i c. claim_at s i = Some c \<longrightarrow> deps_ok s i c)"

lemma terminal_at_iff: "terminal_at s d \<longleftrightarrow> (\<exists>t. claim_at s d = Some t \<and> is_terminal (status_of t))"
  by (auto simp: terminal_at_def split: option.splits)

lemma terminal_kept:
  assumes "micro cx r r'" "base (r_state r)" "claims_wf (r_state r)" "claim_at (r_state r) d = Some t" "is_terminal (status_of t)"
  shows "\<exists>t'. claim_at (r_state r') d = Some t' \<and> status_of t' = status_of t"
proof -
  from micro_claim [OF assms(1,4)] obtain t' where "claim_at (r_state r') d = Some t'"
    "claim_step cx (r_state r) (r_state r') d t t'" by blast
  with claim_step_grows [OF this(2) assms(4,2,3)] assms(5) show ?thesis by (auto simp: claim_grows_def)
qed

lemma micro_terminal_facts:
  assumes "micro cx r r'" "base (r_state r)" "claims_wf (r_state r)"
  shows "satisfied_at (r_state r) d \<Longrightarrow> satisfied_at (r_state r') d"
    and "terminal_at (r_state r) d \<Longrightarrow> terminal_at (r_state r') d"
    and "failed_at (r_state r) d \<Longrightarrow> failed_at (r_state r') d"
proof -
  show "satisfied_at (r_state r) d \<Longrightarrow> satisfied_at (r_state r') d"
    unfolding satisfied_at_def using terminal_kept [OF assms, of d] by fastforce
  show "terminal_at (r_state r) d \<Longrightarrow> terminal_at (r_state r') d"
    unfolding terminal_at_iff using terminal_kept [OF assms, of d] by fastforce
  show "failed_at (r_state r) d \<Longrightarrow> failed_at (r_state r') d"
    unfolding failed_at_def using terminal_kept [OF assms, of d] by fastforce
qed

lemma satisfied_not_failed: "satisfied_at s d \<Longrightarrow> \<not> failed_at s d"
  by (auto simp: satisfied_at_def failed_at_def)

lemma satisfied_terminal: "satisfied_at s d \<Longrightarrow> terminal_at s d"
  by (auto simp: satisfied_at_def terminal_at_iff)

lemma claim_step_deps:
  assumes "claim_step cx s s' i c c'" "claim_at s i = Some c" "deps_ok s i c"
    and sat: "\<And>d. satisfied_at s d \<Longrightarrow> satisfied_at s' d" and ter: "\<And>d. terminal_at s d \<Longrightarrow> terminal_at s' d"
    and fai: "\<And>d. failed_at s d \<Longrightarrow> failed_at s' d"
  shows "deps_ok s' i c'"
  using assms(1)
proof cases
  case (status st w)
  then have ne: "st \<noteq> Satisfied" by (simp add: status_guard_def)
  show ?thesis
  proof (cases "st = DependencyFailed")
    case True
    with status obtain d where d: "w = Some d" "d \<in> set (dependencies (so_content c) RK_DependsOn)" "failed_at s d"
      by (auto simp: status_guard_def)
    then have "cl_receipt (so_lifecycle c) = None"
      using assms(3) satisfied_not_failed by (auto simp: deps_ok_def)
    with d fai True show ?thesis by (auto simp: status(1) deps_ok_def)
  next
    case False
    with ne assms(3) sat show ?thesis by (auto simp: status(1) deps_ok_def)
  qed
next
  case satisfy
  have "terminal_at s' d" if "d \<in> set (dependencies (so_content c) RK_Awaits)" for d
  proof -
    from satisfy(2) obtain c0 where "claim_at s i = Some c0"
      "status_of c0 = Satisfied \<or> ready s (in_set (tracked_fixpoint s)) i c0" by (rule tracked_fixpoint_cases)
    with assms(2) satisfy(3) have "ready s (in_set (tracked_fixpoint s)) i c" by auto
    with that consider "d \<in> bs_set (tracked_fixpoint s)" | "terminal_at s d" by (auto simp: ready_def)
    then show ?thesis
    proof cases
      case 1
      with satisfy(5) have "satisfied_at s' d" by (auto simp: satisfied_at_def)
      then show ?thesis by (rule satisfied_terminal)
    qed (rule ter)
  qed
  with assms(3) sat show ?thesis by (auto simp: satisfy(1) deps_ok_def)
next
  case (receive rc)
  then have "satisfied_at s d" if "d \<in> set (dependencies (so_content c) RK_DependsOn)" for d
    using that by (auto simp: satisfied_at_def)
  with sat show ?thesis by (auto simp: receive(1) deps_ok_def)
next
  case (adopt old rc)
  with assms(3) have "\<forall>d \<in> set (dependencies (so_content c) RK_DependsOn). satisfied_at s d" by (simp add: deps_ok_def)
  moreover have "\<not> is_terminal (status_of c)" using adopt(2) by auto
  ultimately show ?thesis using sat by (auto simp: adopt(1) deps_ok_def so_lifecycle_update)
qed (use assms(3) sat ter fai in \<open>auto simp: deps_ok_def so_lifecycle_update\<close>)

lemma micro_dependencies_ok:
  assumes "micro cx r r'" "base (r_state r)" "checked h (r_state r)" "dependencies_ok (r_state r)"
  shows "dependencies_ok (r_state r')"
  unfolding dependencies_ok_def
proof (intro allI impI)
  fix i c'
  have wf: "claims_wf (r_state r)" using assms(3) by (simp add: checked_def)
  assume "claim_at (r_state r') i = Some c'"
  then show "deps_ok (r_state r') i c'"
  proof (rule claims_preserved [OF assms(1)])
    assume "claim_new cx (r_state r) i c'"
    then show ?thesis by cases (simp add: deps_ok_def claim_row_def initial_lifecycle_def)
  next
    fix c
    assume c: "claim_at (r_state r) i = Some c" and st: "claim_step cx (r_state r) (r_state r') i c c'"
    then have "deps_ok (r_state r) i c" using assms(4) by (simp add: dependencies_ok_def)
    with st c show ?thesis using micro_terminal_facts [OF assms(1,2) wf] by (rule claim_step_deps)
  qed
qed

interpretation completion: dependent_invariant h "checked h" "checked h"
  "\<lambda>s. completion_ok s \<and> dependencies_ok s" "\<lambda>s. completion_ok s \<and> dependencies_ok s" for h
proof unfold_locales
  show "completion_ok (state_new l) \<and> dependencies_ok (state_new l)" for l
    by (simp add: completion_ok_def dependencies_ok_def state_new_def)
  show "completion_ok (r_state r') \<and> dependencies_ok (r_state r')"
    if "micro cx r r'" "base (r_state r)" "checked h (r_state r)" "completion_ok (r_state r) \<and> dependencies_ok (r_state r)"
    for cx r r'
    using that micro_completion_ok micro_dependencies_ok by blast
  show "completion_ok (publish key rc q s) \<and> dependencies_ok (publish key rc q s)"
    if "completion_ok s \<and> dependencies_ok s" for s q key rc
    using that by (simp add: completion_ok_def dependencies_ok_def deps_ok_def satisfied_at_def terminal_at_iff
        failed_at_def validated_def runs_of_def)
qed

lemma reachable_completion:
  assumes "reachable_core h k l lims co"
  shows "checked h (co_state co)" "completion_ok (co_state co)" "dependencies_ok (co_state co)"
  using completion.both.reachable [OF assms] by simp_all

text \<open>A satisfied claim: everything it required has happened.\<close>

lemma satisfied_earned:
  assumes "reachable_core h k l lims co" "claim_at (co_state co) i = Some c" "status_of c = Satisfied"
  shows "cl_local_complete (so_lifecycle c)"
    and "\<forall>j v. bm_get (st_validations (co_state co)) j = Some v \<longrightarrow> vc_claim (so_content v) = i
      \<longrightarrow> vc_mode (so_content v) = MO_Required \<longrightarrow> validated (co_state co) j"
    and "\<forall>d \<in> set (dependencies (so_content c) RK_DependsOn). satisfied_at (co_state co) d"
    and "\<forall>d \<in> set (dependencies (so_content c) RK_Awaits). terminal_at (co_state co) d"
proof -
  note inv = reachable_completion [OF assms(1)]
  have wf: "claim_wf (so_lifecycle c)" using inv(1) assms(2) by (auto simp: checked_def dest: claims_wfD)
  then show lc: "cl_local_complete (so_lifecycle c)" using assms(3) by (simp add: claim_wf_def)
  have rc: "cl_receipt (so_lifecycle c) \<noteq> None" using wf assms(3) by (simp add: claim_wf_def held_def)
  show "\<forall>j v. bm_get (st_validations (co_state co)) j = Some v \<longrightarrow> vc_claim (so_content v) = i
      \<longrightarrow> vc_mode (so_content v) = MO_Required \<longrightarrow> validated (co_state co) j"
    using inv(2) assms(2) lc rc unfolding completion_ok_def by blast
  have "deps_ok (co_state co) i c" using inv(3) assms(2) by (simp add: dependencies_ok_def)
  then show "\<forall>d \<in> set (dependencies (so_content c) RK_DependsOn). satisfied_at (co_state co) d"
    "\<forall>d \<in> set (dependencies (so_content c) RK_Awaits). terminal_at (co_state co) d"
    using rc assms(3) by (simp_all add: deps_ok_def)
qed

end
