(* ===== verification/Evidence.thy ===== *)
theory Evidence
  imports Completion
begin

text \<open>
  Evidence sets and testaments as an invariant: a set holds distinct verified artifacts of one
  claim, a testament reports exactly the artifacts of its set, which it closed and which no other
  testament reports, and a claim points to its own set and its own testament, acknowledged once
  the status says so.
\<close>

section \<open>Sets and testaments\<close>

definition set_ok :: "state \<Rightarrow> evidence_set_id \<Rightarrow> evidence_set \<Rightarrow> bool" where
  "set_ok s e es \<longleftrightarrow> es_id es = e \<and> distinct (es_artifacts es) \<and> (\<forall>a \<in> set (es_artifacts es). artifact_verified s a)
     \<and> claim_at s (es_claim es) \<noteq> None
     \<and> (es_closed es \<longrightarrow> (\<exists>t x. bm_get (st_testaments s) t = Some x \<and> tc_evidence_set (so_content x) = e))"

definition testament_ok :: "state \<Rightarrow> testament \<Rightarrow> bool" where
  "testament_ok s x \<longleftrightarrow> (\<exists>es. bm_get (st_evidence_sets s) (tc_evidence_set (so_content x)) = Some es \<and> es_closed es
     \<and> es_claim es = tc_claim (so_content x) \<and> es_artifacts es = tc_artifacts (so_content x))"

definition single_report :: "state \<Rightarrow> bool" where
  "single_report s \<longleftrightarrow> (\<forall>t t' x x'. bm_get (st_testaments s) t = Some x \<longrightarrow> bm_get (st_testaments s) t' = Some x'
     \<longrightarrow> tc_evidence_set (so_content x) = tc_evidence_set (so_content x') \<longrightarrow> t = t')"

definition evidence_ok :: "state \<Rightarrow> bool" where
  "evidence_ok s \<longleftrightarrow> (\<forall>e es. bm_get (st_evidence_sets s) e = Some es \<longrightarrow> set_ok s e es)
     \<and> (\<forall>t x. bm_get (st_testaments s) t = Some x \<longrightarrow> testament_ok s x) \<and> single_report s"

lemma testament_kept:
  assumes "micro cx r r'" "bm_get (st_testaments (r_state r)) t = Some x"
  obtains x' where "bm_get (st_testaments (r_state r')) t = Some x'" "so_content x' = so_content x"
    "tl_acknowledged (so_lifecycle x) \<noteq> None \<longrightarrow> tl_acknowledged (so_lifecycle x') \<noteq> None"
  using micro_testament [OF assms] testament_step_grows unfolding testament_grows_def by blast

lemma set_kept:
  assumes "micro cx r r'" "bm_get (st_evidence_sets (r_state r)) e = Some es"
  obtains es' where "bm_get (st_evidence_sets (r_state r')) e = Some es'" "set_grows es es'"
  using micro_set [OF assms] set_step_grows by blast

lemma micro_set_ok:
  assumes "micro cx r r'" "\<forall>e es. bm_get (st_evidence_sets (r_state r)) e = Some es \<longrightarrow> set_ok (r_state r) e es"
    "bm_get (st_evidence_sets (r_state r')) e = Some es'"
  shows "set_ok (r_state r') e es'"
  using assms(3)
proof (rule sets_preserved [OF assms(1)])
  assume "set_new (r_state r) e es'"
  then show ?thesis using edge_target_kept [OF assms(1)] by cases (auto simp: set_ok_def empty_set_def)
next
  fix es
  assume es: "bm_get (st_evidence_sets (r_state r)) e = Some es" and st: "set_step (r_state r) (r_state r') e es es'"
  then have ok: "set_ok (r_state r) e es" using assms(2) by blast
  then have base: "es_id es = e" "distinct (es_artifacts es)" "claim_at (r_state r') (es_claim es) \<noteq> None"
    "\<forall>a \<in> set (es_artifacts es). artifact_verified (r_state r') a"
    using edge_target_kept [OF assms(1)] micro_artifact_verified [OF assms(1)] by (auto simp: set_ok_def)
  have old: "\<exists>t x. bm_get (st_testaments (r_state r')) t = Some x \<and> tc_evidence_set (so_content x) = e" if "es_closed es"
  proof -
    from ok that obtain t x where "bm_get (st_testaments (r_state r)) t = Some x" "tc_evidence_set (so_content x) = e"
      by (auto simp: set_ok_def)
    with testament_kept [OF assms(1) this(1)] show ?thesis by metis
  qed
  from st show ?thesis
  proof cases
    case keep
    with base old show ?thesis by (simp add: set_ok_def)
  next
    case (refence i c rc)
    with base show ?thesis by (simp add: set_ok_def)
  next
    case (stage a)
    with base micro_artifact_verified [OF assms(1) stage(3)] show ?thesis by (simp add: set_ok_def)
  next
    case (close t cx content h)
    then have "\<exists>t x. bm_get (st_testaments (r_state r')) t = Some x \<and> tc_evidence_set (so_content x) = e"
      by (intro exI [of _ t]) (simp add: testament_row_def)
    with close base show ?thesis by (simp add: set_ok_def)
  qed
qed

lemma testament_new_ok:
  assumes "testament_new cx s s' i t"
  shows "testament_ok s' t"
  using assms by cases (simp add: testament_ok_def testament_row_def)

lemma micro_testament_ok:
  assumes "micro cx r r'" "\<forall>t x. bm_get (st_testaments (r_state r)) t = Some x \<longrightarrow> testament_ok (r_state r) x"
    "bm_get (st_testaments (r_state r')) t = Some x'"
  shows "testament_ok (r_state r') x'"
  using assms(3)
proof (rule testaments_preserved [OF assms(1)])
  assume "testament_new cx (r_state r) (r_state r') t x'"
  then show ?thesis by (rule testament_new_ok)
next
  fix x
  assume "bm_get (st_testaments (r_state r)) t = Some x" and st: "testament_step cx x x'"
  with assms(2) obtain es where es: "bm_get (st_evidence_sets (r_state r)) (tc_evidence_set (so_content x)) = Some es"
    "es_closed es" "es_claim es = tc_claim (so_content x)" "es_artifacts es = tc_artifacts (so_content x)"
    by (auto simp: testament_ok_def)
  from set_kept [OF assms(1) es(1)] es(2)
  have "bm_get (st_evidence_sets (r_state r')) (tc_evidence_set (so_content x)) = Some es"
    by (metis set_grows_def)
  with es testament_step_content [OF st] show ?thesis by (simp add: testament_ok_def)
qed

lemma testament_new_row:
  assumes "testament_new cx s s' t x"
  shows "bm_get (st_testaments s) t = None" "bm_get (st_testaments s') u = (if u = t then Some x else bm_get (st_testaments s) u)"
  using assms by (auto elim!: testament_new.cases simp: free_id_iff)

lemma testament_new_once: "testament_new cx s s' t x \<Longrightarrow> testament_new cx s s' t' x' \<Longrightarrow> t = t'"
  using testament_new_row(2) [of cx s s' t x t'] testament_new_row(2) [of cx s s' t' x' t']
    testament_new_row(1) [of cx s s' t' x']
  by (auto split: if_splits)

lemma micro_single_report:
  assumes "micro cx r r'" "evidence_ok (r_state r)"
  shows "single_report (r_state r')"
proof -
  have tok: "testament_ok (r_state r) x" if "bm_get (st_testaments (r_state r)) t = Some x" for t x
    using assms(2) that by (auto simp: evidence_ok_def)
  have fresh: "tc_evidence_set (so_content y) \<noteq> tc_evidence_set (so_content x)"
    if n: "testament_new cx (r_state r) (r_state r') t x" and y: "bm_get (st_testaments (r_state r)) u = Some y" for t u x y
    using n
  proof cases
    case (closed content h es c)
    with tok [OF y] show ?thesis by (auto simp: testament_ok_def testament_row_def)
  qed
  show ?thesis unfolding single_report_def
  proof (intro allI impI)
    fix t t' x x'
    assume a: "bm_get (st_testaments (r_state r')) t = Some x" "bm_get (st_testaments (r_state r')) t' = Some x'"
      and eq: "tc_evidence_set (so_content x) = tc_evidence_set (so_content x')"
    have cases: "testament_new cx (r_state r) (r_state r') u z
        \<or> (\<exists>z0. bm_get (st_testaments (r_state r)) u = Some z0 \<and> so_content z0 = so_content z)"
      if "bm_get (st_testaments (r_state r')) u = Some z" for u z
      using that by (rule testaments_preserved [OF assms(1)]) (auto dest: testament_step_content)
    show "t = t'"
      using cases [OF a(1)] cases [OF a(2)] eq fresh testament_new_once assms(2)
      unfolding evidence_ok_def single_report_def by metis
  qed
qed

lemma micro_evidence_ok:
  assumes "micro cx r r'" "evidence_ok (r_state r)"
  shows "evidence_ok (r_state r')"
proof -
  from assms(2) have a: "\<forall>e es. bm_get (st_evidence_sets (r_state r)) e = Some es \<longrightarrow> set_ok (r_state r) e es"
    and b: "\<forall>t x. bm_get (st_testaments (r_state r)) t = Some x \<longrightarrow> testament_ok (r_state r) x"
    by (auto simp: evidence_ok_def)
  show ?thesis unfolding evidence_ok_def
    using micro_set_ok [OF assms(1) a] micro_testament_ok [OF assms(1) b] micro_single_report [OF assms] by blast
qed

section \<open>A claim and its report\<close>

definition acked :: "claim_status \<Rightarrow> bool" where
  "acked st \<longleftrightarrow> st \<in> {TestamentAcknowledged, Validating, Satisfied, ValidationFailed, ValidationErrored,
     ValidationIncomplete}"

lemma edge_acked: "lifecycle_edge a b \<Longrightarrow> acked b \<Longrightarrow> acked a \<or> b = TestamentAcknowledged"
  by (cases a) (auto simp: lifecycle_edge_def control_fenced_def acked_def)

definition report_ok :: "state \<Rightarrow> claim_id \<Rightarrow> claim_lifecycle \<Rightarrow> bool" where
  "report_ok s i c \<longleftrightarrow>
     (\<forall>t. cl_testament c = Some t \<longrightarrow> (\<exists>x. bm_get (st_testaments s) t = Some x \<and> tc_claim (so_content x) = i
        \<and> cl_evidence_set c = Some (tc_evidence_set (so_content x))))
     \<and> (\<forall>e. cl_evidence_set c = Some e \<longrightarrow> (\<exists>es. bm_get (st_evidence_sets s) e = Some es \<and> es_claim es = i))
     \<and> (acked (cl_status c) \<longrightarrow> (\<exists>t x. cl_testament c = Some t \<and> bm_get (st_testaments s) t = Some x
        \<and> tl_acknowledged (so_lifecycle x) \<noteq> None))"

definition reports_ok :: "state \<Rightarrow> bool" where
  "reports_ok s \<longleftrightarrow> (\<forall>i c. claim_at s i = Some c \<longrightarrow> report_ok s i (so_lifecycle c))"

lemma report_ok_mono:
  assumes "micro cx r r'" "report_ok (r_state r) i c"
  shows "report_ok (r_state r') i c"
  unfolding report_ok_def
proof (intro conjI allI impI)
  fix t
  assume "cl_testament c = Some t"
  with assms(2) obtain x where x: "bm_get (st_testaments (r_state r)) t = Some x" "tc_claim (so_content x) = i"
    "cl_evidence_set c = Some (tc_evidence_set (so_content x))" by (auto simp: report_ok_def)
  from testament_kept [OF assms(1) x(1)] x(2,3)
  show "\<exists>x. bm_get (st_testaments (r_state r')) t = Some x \<and> tc_claim (so_content x) = i
      \<and> cl_evidence_set c = Some (tc_evidence_set (so_content x))" by metis
next
  fix e
  assume "cl_evidence_set c = Some e"
  with assms(2) obtain es where es: "bm_get (st_evidence_sets (r_state r)) e = Some es" "es_claim es = i"
    by (auto simp: report_ok_def)
  from set_kept [OF assms(1) es(1)] es(2) show "\<exists>es. bm_get (st_evidence_sets (r_state r')) e = Some es \<and> es_claim es = i"
    by (metis set_grows_def)
next
  assume "acked (cl_status c)"
  with assms(2) obtain t x where x: "cl_testament c = Some t" "bm_get (st_testaments (r_state r)) t = Some x"
    "tl_acknowledged (so_lifecycle x) \<noteq> None" by (auto simp: report_ok_def)
  from testament_kept [OF assms(1) x(2)] x(1,3) show "\<exists>t x. cl_testament c = Some t
      \<and> bm_get (st_testaments (r_state r')) t = Some x \<and> tl_acknowledged (so_lifecycle x) \<noteq> None" by metis
qed

lemma report_ok_same:
  "report_ok s i c \<Longrightarrow> cl_testament c' = cl_testament c \<Longrightarrow> cl_evidence_set c' = cl_evidence_set c
    \<Longrightarrow> (acked (cl_status c') \<Longrightarrow> acked (cl_status c)) \<Longrightarrow> report_ok s i c'"
  by (simp add: report_ok_def)

lemma claim_step_report:
  assumes st: "claim_step cx (r_state r) (r_state r') i c c'" and m: "micro cx r r'"
    and c: "claim_at (r_state r) i = Some c" and wf: "claim_wf (so_lifecycle c)" and b: "base (r_state r)"
    and ev': "evidence_ok (r_state r')" and ok: "report_ok (r_state r) i (so_lifecycle c)"
  shows "report_ok (r_state r') i (so_lifecycle c')"
proof -
  note ok' = report_ok_mono [OF m ok]
  from st show ?thesis
  proof cases
    case (status s0 w)
    then have e: "lifecycle_edge (status_of c) s0" by (simp add: status_guard_def)
    show ?thesis
    proof (cases "s0 = TestamentAcknowledged")
      case True
      with status obtain t x where x: "cl_testament (so_lifecycle c) = Some t"
        "bm_get (st_testaments (r_state r)) t = Some x" "tl_acknowledged (so_lifecycle x) \<noteq> None"
        by (auto simp: status_guard_def)
      from testament_kept [OF m x(2)] x(1,3) have "\<exists>t x. cl_testament (so_lifecycle c) = Some t
          \<and> bm_get (st_testaments (r_state r')) t = Some x \<and> tl_acknowledged (so_lifecycle x) \<noteq> None" by metis
      with ok' show ?thesis unfolding status(1) report_ok_def by simp
    next
      case False
      then show ?thesis using edge_acked [OF e] by (auto simp: status(1) intro: report_ok_same [OF ok'])
    qed
  next
    case satisfy
    have "status_of c = Validating" using satisfiable_validating [OF satisfy(2) c satisfy(3) b] by simp
    then show ?thesis by (auto simp: satisfy(1) acked_def intro: report_ok_same [OF ok'])
  next
    case (receive rc)
    then show ?thesis by (auto simp: so_lifecycle_update acked_def intro: report_ok_same [OF ok'])
  next
    case (opens e rc)
    have "cl_testament (so_lifecycle c) = None" using wf opens(3) by (auto simp: claim_wf_def)
    moreover have "\<not> acked (status_of c)" using opens(2) by (auto simp: working_def acked_def)
    ultimately show ?thesis using opens(7) by (simp add: opens(1) report_ok_def so_lifecycle_update empty_set_def)
  next
    case (closes content t h)
    have na: "\<not> acked (status_of c)" using closes(2) by (auto simp: working_def acked_def)
    from ev' closes(6) have "testament_ok (r_state r') (testament_row cx content h)" by (auto simp: evidence_ok_def)
    then obtain es where "bm_get (st_evidence_sets (r_state r')) (tc_evidence_set content) = Some es" "es_claim es = i"
      using closes(3) by (auto simp: testament_ok_def testament_row_def)
    with na closes show ?thesis by (simp add: report_ok_def so_lifecycle_update testament_row_def)
  qed (use ok' in \<open>auto simp: so_lifecycle_update intro: report_ok_same\<close>)
qed

interpretation evidence: dependent_invariant h "checked h" "checked h"
  "\<lambda>s. evidence_ok s \<and> reports_ok s" "\<lambda>s. evidence_ok s \<and> reports_ok s" for h
proof unfold_locales
  show "evidence_ok (state_new l) \<and> reports_ok (state_new l)" for l
    by (simp add: evidence_ok_def reports_ok_def single_report_def state_new_def)
  show "evidence_ok (r_state r') \<and> reports_ok (r_state r')"
    if a: "micro cx r r'" "base (r_state r)" "checked h (r_state r)" "evidence_ok (r_state r) \<and> reports_ok (r_state r)"
    for cx r r'
  proof
    from a(4) have ev: "evidence_ok (r_state r)" and rp: "reports_ok (r_state r)" by auto
    show ev': "evidence_ok (r_state r')" by (rule micro_evidence_ok [OF a(1) ev])
    have wf: "claims_wf (r_state r)" using a(3) by (simp add: checked_def)
    show "reports_ok (r_state r')" unfolding reports_ok_def
    proof (intro allI impI)
      fix i c'
      assume "claim_at (r_state r') i = Some c'"
      then show "report_ok (r_state r') i (so_lifecycle c')"
      proof (rule claims_preserved [OF a(1)])
        assume "claim_new cx (r_state r) i c'"
        then show ?thesis by cases (simp add: claim_row_def initial_lifecycle_def report_ok_def acked_def)
      next
        fix c
        assume c: "claim_at (r_state r) i = Some c" and st: "claim_step cx (r_state r) (r_state r') i c c'"
        have "report_ok (r_state r) i (so_lifecycle c)" using rp c by (simp add: reports_ok_def)
        with st a(1) c claims_wfD [OF wf c] a(2) ev' show ?thesis by (rule claim_step_report)
      qed
    qed
  qed
  show "evidence_ok (publish key rc q s) \<and> reports_ok (publish key rc q s)"
    if "evidence_ok s \<and> reports_ok s" for s q key rc
    using that by (simp add: evidence_ok_def reports_ok_def single_report_def report_ok_def set_ok_def testament_ok_def
        artifact_verified_def)
qed

lemma reachable_evidence:
  assumes "reachable_core h k l lims co"
  shows "evidence_ok (co_state co)" "reports_ok (co_state co)"
  using evidence.both.reachable [OF assms] by simp_all

end
