(* ===== verification/Coordination.thy ===== *)
theory Coordination
  imports Evidence
begin

text \<open>
  Coordination between participants: no two claims hold the same receipt, the admitted request
  epochs of a participant form one contiguous window, and monitors refer to existing claims.
\<close>

section \<open>Receipts\<close>

definition receipt_at :: "state \<Rightarrow> claim_id \<Rightarrow> receipt option" where
  "receipt_at s i = Option.bind (claim_at s i) (\<lambda>c. cl_receipt (so_lifecycle c))"

lemma receipt_allocated_iff:
  "receipt_allocated s x \<longleftrightarrow> (\<exists>i rc. receipt_at s i = Some rc \<and> fence_receipt (rc_fence rc) = x)"
  by (force simp: receipt_allocated_def list_ex_iff set_bm_values ran_def receipt_at_def Option.bind_eq_Some_conv
      split: option.splits)

lemma micro_receipts:
  assumes "micro cx r r'"
  obtains (keep) "\<And>i. receipt_at (r_state r') i = receipt_at (r_state r) i"
  | (issue) i0 rc where "\<not> receipt_allocated (r_state r) (fence_receipt (rc_fence rc))"
      "\<And>i. receipt_at (r_state r') i = (if i = i0 then Some rc else receipt_at (r_state r) i)"
  using assms
proof cases
  case (m_generate claims)
  show thesis
  proof (rule keep)
    fix i
    show "receipt_at (r_state r') i = receipt_at (r_state r) i"
      using m_generate
      by (cases "claim_at (r_state r) i"; cases "List.find (\<lambda>n. nc_id n = i) claims")
        (auto simp: receipt_at_def batch_claims claim_row_def initial_lifecycle_def)
  qed
next
  case (m_satisfy changed)
  show thesis
  proof (rule keep)
    fix i
    show "receipt_at (r_state r') i = receipt_at (r_state r) i"
      by (cases "claim_at (r_state r) i")
        (auto simp: receipt_at_def satisfy_step(1) [OF m_satisfy refl] satisfied_row_def)
  qed
next
  case (m_acquire i c rc)
  then show thesis by (intro issue [of rc i]) (auto simp: receipt_at_def so_lifecycle_update)
next
  case (m_adopt i c old rc)
  then show thesis by (intro issue [of rc i]) (auto simp: receipt_at_def so_lifecycle_update)
qed (rule keep; auto simp: receipt_at_def so_lifecycle_update)+

definition receipts_distinct :: "state \<Rightarrow> bool" where
  "receipts_distinct s \<longleftrightarrow> (\<forall>i j rc rc'. receipt_at s i = Some rc \<longrightarrow> receipt_at s j = Some rc'
     \<longrightarrow> fence_receipt (rc_fence rc) = fence_receipt (rc_fence rc') \<longrightarrow> i = j)"

lemma micro_receipts_distinct:
  assumes "micro cx r r'" "receipts_distinct (r_state r)"
  shows "receipts_distinct (r_state r')"
  using assms(1)
proof (cases rule: micro_receipts)
  case keep
  with assms(2) show ?thesis by (simp add: receipts_distinct_def)
next
  case (issue i0 rc)
  have "\<And>j rc'. receipt_at (r_state r) j = Some rc' \<Longrightarrow> fence_receipt (rc_fence rc') \<noteq> fence_receipt (rc_fence rc)"
    using issue(1) by (auto simp: receipt_allocated_iff)
  with assms(2) issue(2) show ?thesis unfolding receipts_distinct_def by (metis option.inject)
qed

section \<open>Request epochs\<close>

definition window_ok :: "epoch_window \<Rightarrow> bool" where
  "window_ok w \<longleftrightarrow> ew_minimum w \<noteq> 0 \<and> (\<exists>n. ew_minimum w \<le> n \<and> bs_set (ew_admitted w) = {ew_minimum w .. n})"

lemma bs_last_interval:
  assumes "bs_set t = {a .. b}" "a \<le> (b :: 'a::linorder)"
  shows "bs_last t = Some b"
proof (cases "bs_last t")
  case None
  then have "bs_set t = {}" by (auto simp: bs_last_def bs_set_def split: if_splits)
  with assms show ?thesis by auto
next
  case (Some x)
  with bs_last_max [OF Some] assms show ?thesis by (auto intro: antisym)
qed

lemma succ_interval:
  assumes "checked_add (n :: u64) 1 = Some e" "a \<le> n"
  shows "insert e {a .. n} = {a .. e}"
proof -
  have e: "unat e = Suc (unat n)" using assms(1) by (rule checked_add_one_unat)
  show ?thesis
  proof (rule set_eqI)
    fix x
    show "x \<in> insert e {a .. n} \<longleftrightarrow> x \<in> {a .. e}"
      using assms(2) e by (auto simp: word_le_nat_alt word_unat_eq_iff)
  qed
qed

lemma epoch_step_window:
  assumes "epoch_step cx w w'" "\<forall>x. w = Some x \<longrightarrow> window_ok x" "w' = Some y"
  shows "window_ok y"
  using assms(1)
proof cases
  case keep
  with assms show ?thesis by simp
next
  case first
  with assms(3) show ?thesis by (auto simp: window_ok_def)
next
  case (admit x e)
  from assms(2) admit obtain n where n: "ew_minimum x \<noteq> 0" "ew_minimum x \<le> n" "bs_set (ew_admitted x) = {ew_minimum x .. n}"
    by (auto simp: window_ok_def)
  with admit have s: "checked_add n 1 = Some e" by (simp add: bs_last_interval [OF n(3,2)])
  have "ew_minimum x \<le> e" using admit by simp
  with admit assms(3) n succ_interval [OF s n(2)] show ?thesis by (auto simp: window_ok_def)
next
  case (raise x lowest)
  from assms(2) raise obtain n where n: "ew_minimum x \<noteq> 0" "ew_minimum x \<le> n" "bs_set (ew_admitted x) = {ew_minimum x .. n}"
    by (auto simp: window_ok_def)
  with raise have l: "lowest \<le> n" "ew_minimum x \<le> lowest" by (auto simp: bs_contains_iff)
  have "{e \<in> {ew_minimum x .. n}. lowest \<le> e} = {lowest .. n}" using l(2) by auto
  moreover have "lowest \<noteq> 0" using l(2) n(1) by (auto simp: word_le_nat_alt word_unat_eq_iff)
  ultimately show ?thesis using raise assms(3) n l by (auto simp: window_ok_def bs_set_retain)
qed

definition windows_ok :: "state \<Rightarrow> bool" where
  "windows_ok s \<longleftrightarrow> (\<forall>p w. bm_get (st_epochs s) p = Some w \<longrightarrow> window_ok w)"

section \<open>Monitors\<close>

definition monitor_ok :: "state \<Rightarrow> monitor_id \<Rightarrow> monitor \<Rightarrow> bool" where
  "monitor_ok s i m \<longleftrightarrow> i \<noteq> 0 \<and> mon_id m = i \<and> claim_at s (mon_owner m) \<noteq> None \<and> bm_keys (mon_roots m) \<noteq> []
     \<and> (\<forall>p \<in> set (bm_keys (mon_roots m)). claim_at s (wp_claim p) \<noteq> None)"

definition monitors_ok :: "state \<Rightarrow> bool" where
  "monitors_ok s \<longleftrightarrow> (\<forall>i m. bm_get (st_monitors s) i = Some m \<longrightarrow> monitor_ok s i m)"

lemma rebind_claim: "wp_claim (rebind_predicate p n q) = (if wp_claim q = p then n else wp_claim q)"
  by (cases q) (auto simp: rebind_predicate_def)

lemma micro_monitors_ok:
  assumes "micro cx r r'" "monitors_ok (r_state r)"
  shows "monitors_ok (r_state r')"
  unfolding monitors_ok_def
proof (intro allI impI)
  fix i m'
  note kept = edge_target_kept [OF assms(1)]
  assume "bm_get (st_monitors (r_state r')) i = Some m'"
  then show "monitor_ok (r_state r') i m'"
  proof (rule monitors_preserved [OF assms(1)])
    assume "monitor_new cx (r_state r) i m'"
    then show ?thesis using kept by cases (simp add: monitor_ok_def)
  next
    fix m
    assume "bm_get (st_monitors (r_state r)) i = Some m" and st: "monitor_step cx (r_state r) m m'"
    with assms(2) kept have ok: "monitor_ok (r_state r') i m" by (auto simp: monitors_ok_def monitor_ok_def)
    from st show ?thesis
    proof cases
      case (rebind n c p)
      let ?roots = "bs_of_list (map (rebind_predicate p n) (bm_keys (mon_roots m)))"
      have keys: "set (bm_keys ?roots) = rebind_predicate p n ` set (bm_keys (mon_roots m))"
        using bs_set_of_list [of "map (rebind_predicate p n) (bm_keys (mon_roots m))"] by (simp add: bs_set_def)
      have "claim_at (r_state r') n \<noteq> None" using kept rebind(4) by blast
      moreover have "bm_keys ?roots \<noteq> []" using keys ok by (auto simp: monitor_ok_def)
      ultimately show ?thesis using ok keys by (simp add: rebind(1) monitor_ok_def rebind_claim)
    qed (use ok in \<open>simp_all add: monitor_ok_def\<close>)
  qed
qed

definition coordinated :: "state \<Rightarrow> bool" where
  "coordinated s \<longleftrightarrow> receipts_distinct s \<and> windows_ok s \<and> monitors_ok s"

interpretation coordination: ledger_invariant h coordinated coordinated for h
proof unfold_locales
  show "coordinated (state_new l)" for l
    by (simp add: coordinated_def receipts_distinct_def receipt_at_def windows_ok_def monitors_ok_def state_new_def)
  show "coordinated (r_state r')" if "micro cx r r'" "coordinated (r_state r)" for cx r r'
  proof -
    have "windows_ok (r_state r')" unfolding windows_ok_def
      using epoch_step_window [OF micro_epoch [OF that(1)]] that(2) by (auto simp: coordinated_def windows_ok_def)
    with that micro_receipts_distinct micro_monitors_ok show ?thesis by (simp add: coordinated_def)
  qed
  show "coordinated (publish key rc q s)" if "coordinated s" for s q key rc
    using that by (simp add: coordinated_def receipts_distinct_def receipt_at_def windows_ok_def monitors_ok_def monitor_ok_def)
qed

end
