(* ===== verification/Requests.thy ===== *)
theory Requests
  imports Reachability
begin

text \<open>
  Request identity over a served session: cores reached by preparing and applying requests.  The
  receipts number the committed requests from one without gaps, a stored receipt stays, and so a
  request that was committed once is answered with its original receipt ever after.  The capacity
  limits bound what a served session stores.
\<close>

section \<open>Served sessions\<close>

inductive served :: "host \<Rightarrow> codec \<Rightarrow> ledger_id \<Rightarrow> limits \<Rightarrow> core \<Rightarrow> bool" for h k l lims where
  start: "served h k l lims (core_new l lims)"
| committed: "served h k l lims co \<Longrightarrow> commit h k co input = Some (res, co') \<Longrightarrow> served h k l lims co'"

inductive serves_on :: "host \<Rightarrow> codec \<Rightarrow> core \<Rightarrow> core \<Rightarrow> bool" for h k co where
  same: "serves_on h k co co"
| committed: "serves_on h k co co' \<Longrightarrow> commit h k co' input = Some (res, co'') \<Longrightarrow> serves_on h k co co''"

lemma commit_cases:
  assumes "commit h k co input = Some (res, co')"
  obtains pm s' where "stage h k co input = Inr (pm, res, s')" "co' = co\<lparr>co_state := s'\<rparr>"
    "apply_mutation h k co (st_sequence (co_state co) + 1) pm = Inr (res, co')" "pm_input pm = input"
proof -
  from assms obtain pm s' where st: "stage h k co input = Inr (pm, res, s')" and co': "co' = co\<lparr>co_state := s'\<rparr>"
    by (auto simp: commit_stage split: sum.splits)
  have "pm_input pm = input" using st by (rule stage_cases) simp
  with stage_apply [OF st] st co' that show thesis by blast
qed

lemma served_reachable: "served h k l lims co \<Longrightarrow> reachable_core h k l lims co"
proof (induction rule: served.induct)
  case (committed co input res co')
  from committed(2) show ?case by (rule commit_cases) (rule reachable_core.applied [OF committed(3)])
qed (rule reachable_core.start)

lemma serves_on_served: "serves_on h k co co' \<Longrightarrow> served h k l lims co \<Longrightarrow> served h k l lims co'"
  by (induction rule: serves_on.induct) (auto intro: served.committed)

lemma commit_receipt:
  assumes "commit h k co input = Some (res, co')" "base (co_state co)"
  obtains hash where
    "check_input k co input = Inr ()" "command_hash h k input = Inr hash"
    "bm_get (st_receipts (co_state co)) (input_key input) = None"
    "bm_len (st_receipts (co_state co)) < lim_max_requests (co_limits co)"
    "st_receipts (co_state co') = bm_insert (input_key input) (ap_receipt res) (st_receipts (co_state co))"
    "mr_key (ap_receipt res) = input_key input" "mr_command_hash (ap_receipt res) = hash"
    "mr_ledger (ap_receipt res) = st_ledger (co_state co)" "mr_sequence (ap_receipt res) = st_sequence (co_state co')"
    "unat (st_sequence (co_state co')) = Suc (unat (st_sequence (co_state co)))"
    "st_ledger (co_state co') = st_ledger (co_state co)" "co_limits co' = co_limits co"
  using assms(1)
proof (rule commit_cases)
  fix pm s'
  assume st: "stage h k co input = Inr (pm, res, s')" and co': "co' = co\<lparr>co_state := s'\<rparr>"
  from st show thesis
  proof (cases rule: stage_cases)
    case (1 hash sequence draft result deltas effects)
    have frame: "st_ledger draft = st_ledger (co_state co) \<and> st_receipts draft = st_receipts (co_state co)"
      using micros_frame [OF execute_domain_micros [OF _ assms(2)]] 1(9) by (auto simp: execute_on_def)
    have "bm_get (st_receipts (co_state co)) (input_key input) = None"
      using 1(3) by (auto simp: check_duplicate_def split: option.splits if_splits)
    with 1 frame show thesis
      by (intro that [of hash]) (simp_all add: co' checked_add_one_unat)
  qed
qed

section \<open>The table of receipts\<close>

definition requests_ok :: "state \<Rightarrow> bool" where
  "requests_ok s \<longleftrightarrow> bm_len (st_receipts s) = unat (st_sequence s)
     \<and> (\<forall>key rc. bm_get (st_receipts s) key = Some rc \<longrightarrow> mr_key rc = key \<and> mr_ledger rc = st_ledger s
          \<and> 0 < unat (mr_sequence rc) \<and> mr_sequence rc \<le> st_sequence s)
     \<and> (\<forall>key key' rc rc'. bm_get (st_receipts s) key = Some rc \<longrightarrow> bm_get (st_receipts s) key' = Some rc'
          \<longrightarrow> mr_sequence rc = mr_sequence rc' \<longrightarrow> key = key')"

lemma commit_requests_ok:
  assumes "commit h k co input = Some (res, co')" "base (co_state co)" "requests_ok (co_state co)"
  shows "requests_ok (co_state co')"
  using assms(1,2)
proof (rule commit_receipt)
  fix hash
  let ?key = "input_key input" and ?rc = "ap_receipt res" and ?s = "co_state co" and ?s' = "co_state co'"
  assume new: "bm_get (st_receipts ?s) ?key = None"
    and rcs: "st_receipts ?s' = bm_insert ?key ?rc (st_receipts ?s)"
    and rc: "mr_key ?rc = ?key" "mr_ledger ?rc = st_ledger ?s" "mr_sequence ?rc = st_sequence ?s'"
    and q: "unat (st_sequence ?s') = Suc (unat (st_sequence ?s))" and l: "st_ledger ?s' = st_ledger ?s"
  have old: "mr_key x = key" "mr_ledger x = st_ledger ?s" "0 < unat (mr_sequence x)" "mr_sequence x \<le> st_sequence ?s"
    "mr_sequence x < st_sequence ?s'" if "bm_get (st_receipts ?s) key = Some x" for key x
    using assms(3) that q by (auto simp: requests_ok_def word_le_nat_alt word_less_nat_alt less_Suc_eq_le)
  have "bm_len (st_receipts ?s') = unat (st_sequence ?s')"
    using assms(3) new by (simp add: rcs q bm_len_insert bm_contains_def requests_ok_def)
  moreover have "mr_key x = key \<and> mr_ledger x = st_ledger ?s' \<and> 0 < unat (mr_sequence x) \<and> mr_sequence x \<le> st_sequence ?s'"
    if "bm_get (st_receipts ?s') key = Some x" for key x
    using that old [of key x] rc q l by (auto simp: rcs split: if_splits)
  moreover have "key = key'" if "bm_get (st_receipts ?s') key = Some x" "bm_get (st_receipts ?s') key' = Some x'"
    "mr_sequence x = mr_sequence x'" for key key' x x'
  proof (cases "key = ?key \<or> key' = ?key")
    case True
    with that old(5) [of key x] old(5) [of key' x'] rc show ?thesis by (auto simp: rcs split: if_splits)
  next
    case False
    with that have "bm_get (st_receipts ?s) key = Some x" "bm_get (st_receipts ?s) key' = Some x'" by (auto simp: rcs)
    with that(3) assms(3) show ?thesis unfolding requests_ok_def by blast
  qed
  ultimately show ?thesis unfolding requests_ok_def by blast
qed

lemma served_requests_ok: "served h k l lims co \<Longrightarrow> requests_ok (co_state co)"
proof (induction rule: served.induct)
  case (committed co input res co')
  from committed(2) reachable_base [OF served_reachable [OF committed(1)]] committed(3) show ?case
    by (rule commit_requests_ok)
qed (simp add: core_new_def requests_ok_def state_new_def)

text \<open>The receipts carry exactly the sequence numbers from one to the current one.\<close>

lemma requests_ok_sequences:
  assumes "requests_ok s"
  shows "{unat (mr_sequence rc) | key rc. bm_get (st_receipts s) key = Some rc} = {1 .. unat (st_sequence s)}"
proof -
  let ?f = "\<lambda>key. unat (mr_sequence (the (bm_get (st_receipts s) key)))"
  let ?D = "dom (bm_get (st_receipts s))"
  have eq: "{unat (mr_sequence rc) | key rc. bm_get (st_receipts s) key = Some rc} = ?f ` ?D"
    by (force simp: dom_def image_iff)
  have "inj_on ?f ?D"
  proof (rule inj_onI)
    fix x y
    assume "x \<in> ?D" "y \<in> ?D" "?f x = ?f y"
    then obtain a b where "bm_get (st_receipts s) x = Some a" "bm_get (st_receipts s) y = Some b"
      "mr_sequence a = mr_sequence b" by (auto simp: word_unat_eq_iff)
    with assms show "x = y" unfolding requests_ok_def by blast
  qed
  then have "card (?f ` ?D) = unat (st_sequence s)"
    using assms by (simp add: card_image bm_len_card [symmetric] requests_ok_def)
  moreover have "?f ` ?D \<subseteq> {1 .. unat (st_sequence s)}"
    using assms by (auto simp: requests_ok_def word_le_nat_alt Suc_le_eq)
  ultimately show ?thesis unfolding eq by (intro card_subset_eq) auto
qed

section \<open>Retries\<close>

lemma commit_keeps_receipt:
  assumes "commit h k co input = Some (res, co')" "base (co_state co)" "bm_get (st_receipts (co_state co)) key = Some rc"
  shows "bm_get (st_receipts (co_state co')) key = Some rc"
  using assms(1,2) by (rule commit_receipt) (use assms(3) in auto)

lemma serves_on_receipt:
  assumes "serves_on h k co co'" "served h k l lims co" "bm_get (st_receipts (co_state co)) key = Some rc"
  shows "bm_get (st_receipts (co_state co')) key = Some rc \<and> co_limits co' = co_limits co
    \<and> st_ledger (co_state co') = st_ledger (co_state co)"
  using assms(1)
proof (induction rule: serves_on.induct)
  case (committed co' input res co'')
  have b: "base (co_state co')"
    by (rule reachable_base [OF served_reachable [OF serves_on_served [OF committed(1) assms(2)]]])
  from commit_keeps_receipt [OF committed(2) b] committed(3) have "bm_get (st_receipts (co_state co'')) key = Some rc" by blast
  moreover from committed(2) b have "co_limits co'' = co_limits co' \<and> st_ledger (co_state co'') = st_ledger (co_state co')"
    by (rule commit_receipt) simp
  ultimately show ?case using committed(3) by simp
qed (simp add: assms(3))

lemma check_input_cong:
  "co_limits co' = co_limits co \<Longrightarrow> st_ledger (co_state co') = st_ledger (co_state co)
     \<Longrightarrow> check_input k co' input = check_input k co input"
  by (simp add: check_input_def split: option.split)

lemma retry_answered:
  assumes "served h k l lims co" "commit h k co input = Some (res, co1)" "serves_on h k co1 co2"
  shows "stage h k co2 input = Inl (Duplicate (ap_receipt res))"
  using assms(2) reachable_base [OF served_reachable [OF assms(1)]]
proof (rule commit_receipt)
  fix hash
  assume c: "check_input k co input = Inr ()" "command_hash h k input = Inr hash"
    "st_receipts (co_state co1) = bm_insert (input_key input) (ap_receipt res) (st_receipts (co_state co))"
    "mr_command_hash (ap_receipt res) = hash" "st_ledger (co_state co1) = st_ledger (co_state co)" "co_limits co1 = co_limits co"
  have "served h k l lims co1" using assms(1,2) by (rule served.committed)
  from serves_on_receipt [OF assms(3) this, of "input_key input" "ap_receipt res"] c
  have "bm_get (st_receipts (co_state co2)) (input_key input) = Some (ap_receipt res)"
    "check_input k co2 input = Inr ()" by (auto simp: check_input_cong [of co2 co])
  with c show ?thesis by (simp add: stage_def Let_def check_duplicate_def)
qed

lemma reuse_refused:
  assumes "served h k l lims co" "commit h k co input = Some (res, co1)" "serves_on h k co1 co2"
    "input_key other = input_key input" "command_hash h k other \<noteq> command_hash h k input"
  shows "stage h k co2 other = (case check_input k co2 other of
      Inl e \<Rightarrow> Inl e
    | Inr _ \<Rightarrow> (case command_hash h k other of
        Inl _ \<Rightarrow> Inl (Refuse EC_InvalidSchema)
      | Inr _ \<Rightarrow> Inl (Refuse EC_IdempotencyConflict)))"
  using assms(2) reachable_base [OF served_reachable [OF assms(1)]]
proof (rule commit_receipt)
  fix hash
  assume c: "command_hash h k input = Inr hash"
    "st_receipts (co_state co1) = bm_insert (input_key input) (ap_receipt res) (st_receipts (co_state co))"
    "mr_command_hash (ap_receipt res) = hash"
  have "served h k l lims co1" using assms(1,2) by (rule served.committed)
  from serves_on_receipt [OF assms(3) this, of "input_key input" "ap_receipt res"] c
  have "bm_get (st_receipts (co_state co2)) (input_key other) = Some (ap_receipt res)" by (simp add: assms(4))
  with c assms(5) show ?thesis by (auto simp: stage_def Let_def check_duplicate_def split: sum.splits)
qed

section \<open>Capacity\<close>

definition stored_objects :: "state \<Rightarrow> nat" where
  "stored_objects s = bm_len (st_claims s) + bm_len (st_validations s) + bm_len (st_artifacts s)
     + bm_len (st_testaments s) + bm_len (st_evidence_sets s) + bm_len (st_runs s)"

lemma object_budget_bound:
  assumes "object_budget cx r = Inr (u, r')"
  shows "stored_objects (r_state r) \<le> lim_max_objects (cx_limits cx)"
  using assms
  by (auto simp: object_budget_def stored_objects_def Option.bind_eq_Some_conv dest!: usize_add_Some)

lemma execute_bound:
  assumes "execute_domain_on cx s = Inr (s', res, ds, fx)"
  shows "stored_objects s' \<le> lim_max_objects (cx_limits cx)"
proof -
  from assms obtain r r' where "object_budget cx r = Inr ((), r')" "s' = r_state r'"
    by (auto simp: execute_domain_on_def split: sum.splits prod.splits)
  with object_budget_bound object_budget_Inr show ?thesis by metis
qed

lemma reachable_bound: "reachable_core h k l lims co \<Longrightarrow> stored_objects (co_state co) \<le> lim_max_objects lims"
proof (induction rule: reachable_core.induct)
  case (applied co q pm res co')
  from applied(2) show ?case
  proof (cases rule: apply_cases)
    case (1 draft result)
    then have "stored_objects draft \<le> lim_max_objects (co_limits co)"
      using execute_bound by (fastforce simp: execute_on_def)
    with 1(4) reachable_frame [OF applied(1)] show ?thesis by (simp add: stored_objects_def)
  qed
qed (simp add: core_new_def stored_objects_def state_new_def)

lemma served_bound: "served h k l lims co \<Longrightarrow> bm_len (st_receipts (co_state co)) \<le> lim_max_requests lims"
proof (induction rule: served.induct)
  case (committed co input res co')
  have r: "reachable_core h k l lims co" by (rule served_reachable [OF committed(1)])
  from committed(2) reachable_base [OF r] show ?case
    by (rule commit_receipt) (use reachable_frame [OF r] in \<open>simp add: bm_len_insert bm_contains_def\<close>)
qed (simp add: core_new_def state_new_def)

end
