(* ===== verification/DeltaLog.thy ===== *)
theory DeltaLog
  imports Reachability
begin

text \<open>
  The delta log of one applied mutation.  Its entries are numbered consecutively from zero under
  the mutation's sequence number, and its status entries are complete: appending them, claim by
  claim, to the histories before the mutation gives the histories after it, every entry names the
  status it replaces, and a claim's status after the mutation is the last one logged for it.
\<close>

section \<open>Reading a log\<close>

definition history_at :: "state \<Rightarrow> claim_id \<Rightarrow> status_fact list" where
  "history_at s i = (case claim_at s i of None \<Rightarrow> [] | Some c \<Rightarrow> cl_history (so_lifecycle c))"

definition status_at :: "state \<Rightarrow> claim_id \<Rightarrow> claim_status option" where
  "status_at s i = map_option status_of (claim_at s i)"

definition status_change :: "claim_id \<Rightarrow> delta \<Rightarrow> (claim_status option \<times> claim_status) option" where
  "status_change i d = (if de_claim d = Some i then
     (case de_fact d of FactStatus old new _ \<Rightarrow> Some (old, new) | _ \<Rightarrow> None) else None)"

definition status_changes :: "claim_id \<Rightarrow> delta list \<Rightarrow> (claim_status option \<times> claim_status) list" where
  "status_changes i ds = filter_map (status_change i) ds"

fun linked :: "claim_status option \<Rightarrow> (claim_status option \<times> claim_status) list \<Rightarrow> bool" where
  "linked p [] \<longleftrightarrow> True"
| "linked p ((old, new) # ps) \<longleftrightarrow> old = p \<and> linked (Some new) ps"

fun final_status :: "claim_status option \<Rightarrow> (claim_status option \<times> claim_status) list \<Rightarrow> claim_status option" where
  "final_status p [] = p"
| "final_status p ((old, new) # ps) = final_status (Some new) ps"

definition numbered :: "ctx \<Rightarrow> reducer \<Rightarrow> bool" where
  "numbered cx r \<longleftrightarrow> length (r_deltas r) \<le> 2 ^ 32 \<and> (\<forall>n < length (r_deltas r).
     de_id (r_deltas r ! n) = \<lparr>did_ledger = st_ledger (r_state r), did_sequence = cx_sequence cx, did_ordinal = of_nat n\<rparr>
     \<and> de_actor (r_deltas r ! n) = principal cx)"

definition replays :: "session_seq \<Rightarrow> state \<Rightarrow> reducer \<Rightarrow> bool" where
  "replays q s r \<longleftrightarrow> (\<forall>i.
     history_at (r_state r) i = history_at s i @ map (\<lambda>p. StatusFact (snd p) q) (status_changes i (r_deltas r))
     \<and> linked (status_at s i) (status_changes i (r_deltas r))
     \<and> status_at (r_state r) i = final_status (status_at s i) (status_changes i (r_deltas r)))"

lemma linked_snoc: "linked p (ps @ [(old, new)]) \<longleftrightarrow> linked p ps \<and> old = final_status p ps"
  by (induction p ps rule: linked.induct) auto

lemma final_status_snoc [simp]: "final_status p (ps @ [(old, new)]) = Some new"
  by (induction p ps rule: final_status.induct) auto

lemma filter_map_append: "filter_map f (xs @ ys) = filter_map f xs @ filter_map f ys"
  by (induction xs) (auto split: option.splits)

lemma status_changes_snoc:
  "status_changes i (ds @ [d]) = status_changes i ds @ (case status_change i d of None \<Rightarrow> [] | Some p \<Rightarrow> [p])"
  by (simp add: status_changes_def filter_map_append split: option.split)

section \<open>What one entry keeps\<close>

definition entry :: "ctx \<Rightarrow> state \<Rightarrow> nat \<Rightarrow> claim_id option \<Rightarrow> lifecycle_action \<Rightarrow> delta_fact \<Rightarrow> delta" where
  "entry cx s n c a f = \<lparr>de_schema = SCHEMA,
     de_id = \<lparr>did_ledger = st_ledger s, did_sequence = cx_sequence cx, did_ordinal = of_nat n\<rparr>,
     de_action = a, de_actor = principal cx, de_claim = c, de_fact = f\<rparr>"

lemma push_delta_entry:
  "r_deltas (push_delta cx c a f r) = r_deltas r @ [entry cx (r_state r) (length (r_deltas r)) c a f]"
  by (simp add: push_delta_def entry_def)

lemma numbered_snoc:
  assumes "numbered cx r" "ordinal_free r" "st_ledger (r_state r') = st_ledger (r_state r)"
    "r_deltas r' = r_deltas r @ [entry cx (r_state r) (length (r_deltas r)) c a f]"
  shows "numbered cx r'"
  using assms by (auto simp: numbered_def nth_append less_Suc_eq entry_def)

lemma replays_keep:
  assumes "replays q s r" "\<And>i. history_at (r_state r') i = history_at (r_state r) i"
    "\<And>i. status_at (r_state r') i = status_at (r_state r) i" "\<And>i. status_changes i (r_deltas r') = status_changes i (r_deltas r)"
  shows "replays q s r'"
  using assms by (simp add: replays_def)

lemma replays_change:
  assumes "replays q s r" "r_deltas r' = r_deltas r @ [entry cx s' n (Some j) a (FactStatus (status_at (r_state r) j) st w)]"
    "\<And>i. history_at (r_state r') i = history_at (r_state r) i @ (if i = j then [StatusFact st q] else [])"
    "\<And>i. status_at (r_state r') i = (if i = j then Some st else status_at (r_state r) i)"
  shows "replays q s r'"
  unfolding replays_def
proof
  fix i
  have ch: "status_changes i (r_deltas r') = status_changes i (r_deltas r) @ (if i = j then [(status_at (r_state r) j, st)] else [])"
    by (simp add: assms(2) status_changes_snoc status_change_def entry_def)
  have old: "history_at (r_state r) i = history_at s i @ map (\<lambda>p. StatusFact (snd p) q) (status_changes i (r_deltas r))"
    "linked (status_at s i) (status_changes i (r_deltas r))"
    "status_at (r_state r) i = final_status (status_at s i) (status_changes i (r_deltas r))"
    using assms(1) by (simp_all add: replays_def)
  show "history_at (r_state r') i = history_at s i @ map (\<lambda>p. StatusFact (snd p) q) (status_changes i (r_deltas r'))
     \<and> linked (status_at s i) (status_changes i (r_deltas r'))
     \<and> status_at (r_state r') i = final_status (status_at s i) (status_changes i (r_deltas r'))"
    unfolding ch using old assms(3) [of i] assms(4) [of i] by (cases "i = j") (simp_all add: linked_snoc)
qed

definition logged :: "ctx \<Rightarrow> state \<Rightarrow> reducer \<Rightarrow> bool" where
  "logged cx s r \<longleftrightarrow> numbered cx r \<and> replays (cx_sequence cx) s r"

lemma logged_status:
  assumes "logged cx s r" "claim_at (r_state r) i = Some c" "ordinal_free r"
  shows "logged cx s (write_status cx i st w c r)"
  unfolding logged_def
proof
  show "numbered cx (write_status cx i st w c r)"
    by (rule numbered_snoc [of cx r]) (use assms in \<open>auto simp: logged_def push_delta_entry\<close>)
  show "replays (cx_sequence cx) s (write_status cx i st w c r)"
    by (rule replays_change [of _ s r _ cx "r_state r" "length (r_deltas r)" i])
      (use assms in \<open>auto simp: logged_def push_delta_entry history_at_def status_at_def\<close>)
qed

lemma insert_claim_ordinal: "insert_claim cx new r = Inr (u, r') \<Longrightarrow> ordinal_free r"
  by (auto simp: insert_claim_def dest!: insert_validations_Inr)

lemma write_claim_claims: "claim_at (write_claim cx new s) i = (if i = nc_id new then Some (claim_row cx new) else claim_at s i)"
  by (simp add: write_claim_def)

lemma write_claim_ledger: "st_ledger (write_claim cx new s) = st_ledger s"
  by (simp add: write_claim_def)

lemma logged_insert:
  assumes "insert_claim cx new r = Inr (u, r')" "logged cx s r" "claim_at (r_state r) (nc_id new) = None"
  shows "logged cx s r'"
proof -
  note ins = insert_claim_Inr [OF assms(1)]
  then have st: "r_state r' = write_claim cx new (r_state r)" by blast
  have ds: "r_deltas r' = r_deltas r @ [entry cx (r_state r) (length (r_deltas r)) (Some (nc_id new)) LA_Generated
      (FactStatus None Generated None)]"
    using ins by (simp add: push_delta_entry entry_def write_claim_ledger)
  have "numbered cx r'"
    by (rule numbered_snoc [OF _ _ _ ds])
      (use assms(2) insert_claim_ordinal [OF assms(1)] in \<open>auto simp: logged_def st write_claim_ledger\<close>)
  moreover have none: "status_at (r_state r) (nc_id new) = None" using assms(3) by (simp add: status_at_def)
  have "replays (cx_sequence cx) s r'"
    by (rule replays_change [of _ s r, OF _ ds [folded none]])
      (use assms(2,3) in \<open>auto simp: logged_def st history_at_def status_at_def write_claim_claims claim_row_def
         initial_lifecycle_def\<close>)
  ultimately show ?thesis by (simp add: logged_def)
qed

lemma logged_inserts:
  assumes "forR (insert_claim cx) claims r = Inr (u, r')" "logged cx s r" "distinct (map nc_id claims)"
    "\<forall>new \<in> set claims. claim_at (r_state r) (nc_id new) = None"
  shows "logged cx s r'"
  using assms
proof (induction claims arbitrary: r)
  case (Cons new claims)
  from Cons.prems(1) obtain r1 where ins: "insert_claim cx new r = Inr ((), r1)"
    and rec: "forR (insert_claim cx) claims r1 = Inr (u, r')" by auto
  have "logged cx s r1" using logged_insert [OF ins Cons.prems(2)] Cons.prems(4) by simp
  moreover have "\<forall>n \<in> set claims. claim_at (r_state r1) (nc_id n) = None"
    using Cons.prems(3,4) insert_claim_Inr [OF ins] by (simp add: write_claim_claims) (metis image_eqI)
  ultimately show ?case using Cons.IH [OF rec] Cons.prems(3) by simp
qed simp

lemma logged_satisfies:
  "satisfy_all cx ids ch r = Inr (ch', r') \<Longrightarrow> logged cx s r \<Longrightarrow> logged cx s r'"
proof (induction ids arbitrary: ch r)
  case (Cons i ids)
  show ?case
  proof (cases "\<exists>c. claim_at (r_state r) i = Some c \<and> status_of c \<noteq> Satisfied")
    case True
    then obtain c where c: "claim_at (r_state r) i = Some c" "status_of c \<noteq> Satisfied" by blast
    with Cons.prems(1) have "ordinal_free r"
      and rec: "satisfy_all cx ids True (write_status cx i Satisfied None c r) = Inr (ch', r')" by auto
    with Cons.IH [OF rec logged_status [OF Cons.prems(2) c(1)]] show ?thesis by simp
  next
    case False
    with Cons.prems(1) have "satisfy_all cx ids ch r = Inr (ch', r')" by (auto split: option.splits)
    with Cons show ?thesis by blast
  qed
qed simp

lemma status_change_other: "\<not> is_status_fact f \<Longrightarrow> status_change i (entry cx s n c a f) = None"
  by (cases f) (auto simp: status_change_def entry_def)

lemma logged_emit:
  assumes "logged cx s r" "\<not> is_status_fact f" "ordinal_free r"
  shows "logged cx s (push_delta cx c a f r)"
  unfolding logged_def
proof
  show "numbered cx (push_delta cx c a f r)"
    by (rule numbered_snoc [of cx r]) (use assms in \<open>auto simp: logged_def push_delta_entry\<close>)
  show "replays (cx_sequence cx) s (push_delta cx c a f r)"
    by (rule replays_keep [of _ s r])
      (use assms in \<open>auto simp: logged_def push_delta_entry status_changes_snoc status_change_other\<close>)
qed

lemma logged_quiet:
  assumes "logged cx s r" "r_deltas r' = r_deltas r" "st_ledger (r_state r') = st_ledger (r_state r)"
    "\<And>i. map_option (\<lambda>c. (status_of c, cl_history (so_lifecycle c))) (claim_at (r_state r') i) =
       map_option (\<lambda>c. (status_of c, cl_history (so_lifecycle c))) (claim_at (r_state r) i)"
  shows "logged cx s r'"
proof -
  have "history_at (r_state r') i = history_at (r_state r) i" "status_at (r_state r') i = status_at (r_state r) i" for i
    using assms(4) [of i]
    by (cases "claim_at (r_state r) i"; cases "claim_at (r_state r') i"; simp add: history_at_def status_at_def)+
  with assms(1,2) have "replays (cx_sequence cx) s r'"
    unfolding logged_def by (metis replays_keep)
  with assms show ?thesis by (simp add: logged_def numbered_def)
qed

lemma micro_logged:
  assumes "micro cx r r'" "logged cx s r"
  shows "logged cx s r'"
  using assms(1)
proof cases
  case (m_emit f c a)
  with logged_emit [OF assms(2)] show ?thesis by simp
next
  case (m_generate claims)
  have "distinct (map nc_id claims)" using m_generate(1) by (auto simp: batch_ok_def intro: batch_ids_distinct)
  moreover have "\<forall>new \<in> set claims. claim_at (r_state r) (nc_id new) = None"
    using m_generate(1) by (auto simp: batch_ok_def free_id_iff new_ids_of_def)
  ultimately show ?thesis by (rule logged_inserts [OF m_generate(2) assms(2)])
next
  case (m_status i c st w)
  with logged_status [OF assms(2)] show ?thesis by simp
next
  case (m_satisfy changed)
  then show ?thesis by (rule logged_satisfies [OF _ assms(2)])
next
  case (m_acquire i c rc)
  let ?r = "r\<lparr>r_state := put_claim i (with_receipt rc c) (r_state r)\<rparr>"
  have "logged cx s ?r" using m_acquire by (intro logged_quiet [OF assms(2)]) (auto simp: so_lifecycle_update)
  with m_acquire show ?thesis by (simp add: logged_status)
qed (rule logged_quiet [OF assms(2)]; auto simp: so_lifecycle_update)+

lemma micros_logged: "micros cx r r' \<Longrightarrow> logged cx s r \<Longrightarrow> logged cx s r'"
  by (induction rule: rtranclp_induct) (auto intro: micro_logged)

lemma fresh_logged: "logged cx s (fresh_reducer s)"
  by (simp add: logged_def numbered_def replays_def status_changes_def)

lemma apply_logged:
  assumes "apply_mutation h k co q pm = Inr (res, co')" "base (co_state co)"
  shows "logged (input_ctx h (co_limits co) (pm_input pm) q) (co_state co)
    \<lparr>r_state = co_state co', r_deltas = ap_deltas res, r_effects = ap_effects res\<rparr>"
  using assms
proof (rule apply_micros)
  fix draft
  let ?cx = "input_ctx h (co_limits co) (pm_input pm) q"
  assume m: "micros ?cx (fresh_reducer (co_state co))
       \<lparr>r_state = draft, r_deltas = ap_deltas res, r_effects = ap_effects res\<rparr>"
    and co': "co' = co\<lparr>co_state := publish (input_key (pm_input pm)) (ap_receipt res) q draft\<rparr>"
  show ?thesis
    by (rule logged_quiet [OF micros_logged [OF m fresh_logged]]) (simp_all add: co')
qed

end
