(* ===== verification/Quiescence.thy ===== *)
theory Quiescence
  imports Reachability
begin

text \<open>
  What propagation leaves behind.  A command that succeeds ends in a state with nothing left to
  propagate: no active claim has a failed dependency, every claim that can be satisfied is, every
  terminal claim without unreleased children is released, and no due monitor is open.
\<close>

definition failures_settled :: "state \<Rightarrow> bool" where
  "failures_settled s \<longleftrightarrow> (\<forall>i c. claim_at s i = Some c \<longrightarrow> \<not> is_terminal (status_of c)
     \<longrightarrow> (\<forall>d \<in> set (dependencies (so_content c) RK_DependsOn). \<not> failed_at s d))"

definition satisfaction_settled :: "state \<Rightarrow> bool" where
  "satisfaction_settled s \<longleftrightarrow> (\<forall>i c. satisfiable s i \<longrightarrow> claim_at s i = Some c \<longrightarrow> status_of c = Satisfied)"

definition releases_settled :: "state \<Rightarrow> bool" where
  "releases_settled s \<longleftrightarrow> (\<forall>i c. claim_at s i = Some c \<longrightarrow> is_terminal (status_of c)
     \<longrightarrow> \<not> unreleased_child s i \<longrightarrow> cl_released (so_lifecycle c))"

definition monitors_settled :: "state \<Rightarrow> bool" where
  "monitors_settled s \<longleftrightarrow> (\<forall>i m. bm_get (st_monitors s) i = Some m \<longrightarrow> monitor_due s m \<longrightarrow> mon_released m \<noteq> None)"

definition quiescent :: "state \<Rightarrow> bool" where
  "quiescent s \<longleftrightarrow> failures_settled s \<and> satisfaction_settled s \<and> releases_settled s \<and> monitors_settled s"

section \<open>Dependency failures\<close>

lemma filter_map_Nil: "filter_map f xs = [] \<longleftrightarrow> (\<forall>x \<in> set xs. f x = None)"
  by (induction xs) (auto split: option.splits)

lemma failed_dependency_None:
  "failed_dependency s c = None \<longleftrightarrow> (\<forall>d \<in> set (dependencies (so_content c) RK_DependsOn). \<not> failed_at s d)"
proof -
  have "min_opt xs = None \<longleftrightarrow> xs = []" for xs :: "(session_seq \<times> claim_id) list"
    by (simp add: min_opt_def split: list.splits)
  then show ?thesis
    unfolding failed_dependency_def by (simp add: filter_map_Nil failed_at_def split: option.split) blast
qed

lemma dependency_scan_settled:
  assumes "dependency_scan s limit cs v ch = Inr (v', [])"
  shows "ch = [] \<and> (\<forall>(i, c) \<in> set cs. is_terminal (status_of c) \<or> failed_dependency s c = None)"
  using assms
proof (induction cs arbitrary: v ch)
  case (Cons p cs)
  obtain i c where p: "p = (i, c)" by (cases p)
  from Cons.prems obtain v1 ch1 where rec: "dependency_scan s limit cs v1 ch1 = Inr (v', [])"
    and ch1: "ch1 = ch \<and> (is_terminal (status_of c) \<or> failed_dependency s c = None) \<or> ch1 \<noteq> []"
    by (auto simp: p split: option.splits if_splits)
  from Cons.IH [OF rec] ch1 show ?case by (simp add: p)
qed simp

lemma propagate_failures_settled:
  assumes "propagate_failures cx v r = Inr (v', r')"
  shows "failures_settled (r_state r')"
  using assms
proof (induction cx v r rule: propagate_failures.induct)
  case (1 cx v r)
  from "1.prems" obtain v1 changes where scan: "dependency_scan (r_state r) (lim_max_graph_visits (cx_limits cx))
        (bm_iter (st_claims (r_state r))) v [] = Inr (v1, changes)"
    by (subst (asm) propagate_failures.simps) (auto split: sum.splits)
  show ?case
  proof (cases "changes = []")
    case True
    with "1.prems" scan have "r' = r" by (subst (asm) propagate_failures.simps) auto
    moreover from scan True dependency_scan_settled have "failures_settled (r_state r)"
      by (fastforce simp: failures_settled_def bm_iter_get failed_dependency_None)
    ultimately show ?thesis by simp
  next
    case False
    with "1.prems" scan obtain r1 where f: "fail_dependents cx changes r = Inr ((), r1)"
      and rec: "propagate_failures cx v1 r1 = Inr (v', r')"
      by (subst (asm) propagate_failures.simps) (auto split: sum.splits)
    show ?thesis by (rule "1.IH" [OF scan _ False f _ rec]) simp_all
  qed
qed

section \<open>Releases add no failure\<close>

definition eased :: "claim \<Rightarrow> claim \<Rightarrow> bool" where
  "eased c c' \<longleftrightarrow> so_content c' = so_content c
     \<and> (status_of c' = status_of c \<or> (\<not> is_terminal (status_of c) \<and> status_of c' = Satisfied))"

definition relaxes :: "state \<Rightarrow> state \<Rightarrow> bool" where
  "relaxes s s' \<longleftrightarrow> (\<forall>i. rel_option eased (claim_at s i) (claim_at s' i))"

lemma relaxes_refl: "st_claims s = st_claims s' \<Longrightarrow> relaxes s s'"
  by (simp add: relaxes_def option.rel_refl eased_def)

lemma eased_trans: "eased a b \<Longrightarrow> eased b c \<Longrightarrow> eased a c"
  by (auto simp: eased_def)

lemma relaxes_trans: "relaxes s t \<Longrightarrow> relaxes t u \<Longrightarrow> relaxes s u"
  unfolding relaxes_def using option.rel_transp [unfolded transp_def, of eased] eased_trans by blast

lemma relaxes_settled:
  assumes "relaxes s s'" "failures_settled s"
  shows "failures_settled s'"
  unfolding failures_settled_def
proof (intro allI impI ballI notI)
  fix i c' d
  assume c': "claim_at s' i = Some c'" "\<not> is_terminal (status_of c')"
    and d: "d \<in> set (dependencies (so_content c') RK_DependsOn)" "failed_at s' d"
  from assms(1) c' obtain c where c: "claim_at s i = Some c" "eased c c'"
    unfolding relaxes_def by (metis option.rel_cases option.distinct(1) option.inject)
  from d(2) obtain t' where t': "claim_at s' d = Some t'" "is_terminal (status_of t')" "status_of t' \<noteq> Satisfied"
    by (auto simp: failed_at_def)
  from assms(1) t' obtain t where t: "claim_at s d = Some t" "eased t t'"
    unfolding relaxes_def by (metis option.rel_cases option.distinct(1) option.inject)
  have "failed_at s d" using t t' by (auto simp: failed_at_def eased_def)
  moreover have "\<not> is_terminal (status_of c)" "so_content c = so_content c'"
    using c c' by (auto simp: eased_def)
  ultimately show False using assms(2) c(1) d(1) by (auto simp: failures_settled_def)
qed

lemma satisfy_relaxes:
  assumes "satisfy_all cx (bm_keys (tracked_fixpoint (r_state r))) False r = Inr (changed, r')"
  shows "relaxes (r_state r) (r_state r')"
  unfolding relaxes_def
proof
  fix i
  show "rel_option eased (claim_at (r_state r) i) (claim_at (r_state r') i)"
    using satisfy_step(1,2) [OF assms refl, of i]
    by (cases "claim_at (r_state r) i") (auto simp: satisfied_row_def eased_def)
qed

lemma release_claims_relax: "forR release_claim ids r = Inr (u, r') \<Longrightarrow> relaxes (r_state r) (r_state r')"
proof (induction ids arbitrary: r)
  case (Cons i ids)
  then obtain c where c: "claim_at (r_state r) i = Some c"
    and rec: "forR release_claim ids (r\<lparr>r_state := put_claim i (released c) (r_state r)\<rparr>) = Inr (u, r')" by auto
  have "relaxes (r_state r) (put_claim i (released c) (r_state r))"
    using c by (auto simp: relaxes_def eased_def so_lifecycle_update option.rel_refl)
  with Cons.IH [OF rec] show ?case by (auto intro: relaxes_trans)
qed (simp add: relaxes_refl)

lemma release_monitors_claims: "forR (release_monitor cx) ms r = Inr (u, r') \<Longrightarrow> st_claims (r_state r') = st_claims (r_state r)"
proof (induction ms arbitrary: r)
  case (Cons p ms)
  obtain i ow where "p = (i, ow)" by (cases p)
  with Cons show ?case by auto
qed simp

lemma release_round_relaxes:
  assumes "release_round cx r = Inr (changed, r')"
  shows "relaxes (r_state r) (r_state r')"
  using assms
proof (cases rule: release_round_Inr)
  case (1 r1 r2 changed1 ms)
  from satisfy_relaxes [OF 1(1)] release_claims_relax [OF 1(2)] release_monitors_claims [OF 1(4)]
  show ?thesis by (metis relaxes_refl relaxes_trans)
qed

section \<open>The last release round\<close>

lemma satisfy_all_True: "satisfy_all cx ids True r = Inr (ch, r') \<Longrightarrow> ch"
  by (induction ids arbitrary: r) (auto split: if_splits)

lemma satisfy_all_idle:
  assumes "satisfy_all cx ids False r = Inr (False, r')"
  shows "r' = r \<and> (\<forall>i \<in> set ids. \<forall>c. claim_at (r_state r) i = Some c \<longrightarrow> status_of c = Satisfied)"
  using assms
  by (induction ids) (auto split: if_splits option.splits dest: satisfy_all_True)

lemma release_round_idle:
  assumes "release_round cx r = Inr (False, r')"
  shows "r' = r \<and> satisfaction_settled (r_state r) \<and> releases_settled (r_state r) \<and> monitors_settled (r_state r)"
  using assms
proof (cases rule: release_round_Inr)
  case (1 r1 r2 changed1 ms)
  then have none: "\<not> changed1" "releasable (r_state r1) = []" "ms = []" by auto
  with 1(1) satisfy_all_idle have r1: "r1 = r"
    and sat: "\<forall>i \<in> bs_set (tracked_fixpoint (r_state r)). \<forall>c. claim_at (r_state r) i = Some c \<longrightarrow> status_of c = Satisfied"
    unfolding bs_set_def by fastforce+
  with 1 none have r: "r2 = r" "r' = r" by simp_all
  have "releases_settled (r_state r)"
    using none(2) releasableD [of _ "r_state r"] unfolding r1 releases_settled_def by (metis empty_iff list.set(1))
  moreover have "monitors_settled (r_state r)"
    using released_monitors_Inr(3) [OF 1(3)] none(3) unfolding r monitors_settled_def
    by (fastforce simp: bm_iter_get)
  moreover have "satisfaction_settled (r_state r)"
    using sat by (simp add: satisfaction_settled_def tracked_fixpoint_iff)
  ultimately show ?thesis using r by simp
qed

lemma propagate_releases_quiescent:
  assumes "propagate_releases cx v r = Inr (u, r')" "failures_settled (r_state r)"
  shows "quiescent (r_state r')"
  using assms
proof (induction cx v r rule: propagate_releases.induct)
  case (1 cx v r)
  from "1.prems" obtain v1 changed r1 where rv: "round_visits cx v (r_state r) = Some v1"
    and rr: "release_round cx r = Inr (changed, r1)"
    and rest: "(if changed then propagate_releases cx v1 r1 else Inr ((), r1)) = Inr (u, r')"
    by (subst (asm) propagate_releases.simps) (auto split: option.splits sum.splits)
  have settled: "failures_settled (r_state r1)" by (rule relaxes_settled [OF release_round_relaxes [OF rr] "1.prems"(2)])
  show ?case
  proof (cases changed)
    case True
    with rest have "propagate_releases cx v1 r1 = Inr (u, r')" by simp
    from "1.IH" [OF rv rr _ True this settled] show ?thesis by simp
  next
    case False
    with rr release_round_idle have "r1 = r" "satisfaction_settled (r_state r)" "releases_settled (r_state r)"
      "monitors_settled (r_state r)" by auto
    with rest False settled show ?thesis by (simp add: quiescent_def)
  qed
qed

lemma propagate_quiescent: "propagate cx r = Inr (u, r') \<Longrightarrow> quiescent (r_state r')"
  unfolding propagate_def using propagate_failures_settled propagate_releases_quiescent by fastforce

lemma execute_domain_cases:
  assumes "execute_domain_on cx s = Inr (s', res, ds, fx)"
  obtains R R' where "command_step cx (fresh_reducer s) = Inr (res, R)" "propagate cx R = Inr ((), R')"
    "object_budget cx R' = Inr ((), R')" "s' = r_state R'" "ds = r_deltas R'" "fx = r_effects R'"
proof -
  from assms obtain r' where run: "bindR (command_step cx) (\<lambda>result.
             thenR (stepsR [propagate cx, object_budget cx]) (ret result)) (fresh_reducer s) = Inr (res, r')"
    and r': "s' = r_state r'" "ds = r_deltas r'" "fx = r_effects r'"
    by (auto simp: execute_domain_on_def split: sum.splits prod.splits)
  from run obtain R R1 where "command_step cx (fresh_reducer s) = Inr (res, R)" "propagate cx R = Inr ((), R1)"
    "object_budget cx R1 = Inr ((), r')" by auto
  with object_budget_Inr r' that show thesis by metis
qed

lemma execute_quiescent: "execute_domain_on cx s = Inr (s', res, ds, fx) \<Longrightarrow> quiescent s'"
  by (elim execute_domain_cases) (simp add: propagate_quiescent)

lemma ready_cong:
  assumes "st_claims s = st_claims s'" "st_monitors s = st_monitors s'"
  shows "ready s S i c = ready s' S i c"
proof -
  have "root_met s S p = root_met s' S p" for S p
    using wait_holds_cong [OF assms(1), of p] by (cases p) (simp_all add: root_met_def)
  then show ?thesis using assms by (simp add: ready_def open_monitors_def terminal_at_def)
qed

lemma satisfiable_cong:
  assumes "satisfiable s i" "st_claims s = st_claims s'" "st_monitors s = st_monitors s'"
  shows "satisfiable s' i"
  using assms(1)
proof induction
  case (already i c)
  with assms(2) show ?case by (auto intro: satisfiable.already)
next
  case (becomes i c)
  have "ready s (satisfiable s') i c"
    using becomes(2) ready_mono [of "\<lambda>x. satisfiable s x \<and> satisfiable s' x" "satisfiable s'" s i c] by auto
  with becomes(1) show ?case
    using assms(2) by (auto simp: ready_cong [OF assms(2,3)] intro: satisfiable.becomes)
qed

lemma quiescent_publish: "quiescent (publish key rc q s) \<longleftrightarrow> quiescent s"
proof -
  have "satisfiable (publish key rc q s) i \<longleftrightarrow> satisfiable s i" for i
    using satisfiable_cong [of s i "publish key rc q s"] satisfiable_cong [of "publish key rc q s" i s] by auto
  moreover have "monitor_due (publish key rc q s) m = monitor_due s m" for m
    by (rule monitor_due_cong) simp
  ultimately show ?thesis
    by (simp add: quiescent_def failures_settled_def satisfaction_settled_def releases_settled_def monitors_settled_def
        failed_at_def unreleased_child_def)
qed

lemma quiescent_new: "quiescent (state_new l)"
  by (simp add: quiescent_def failures_settled_def satisfaction_settled_def releases_settled_def monitors_settled_def
      state_new_def)

lemma apply_quiescent:
  assumes "apply_mutation h k co q pm = Inr (res, co')"
  shows "quiescent (co_state co')"
  using assms
proof (cases rule: apply_cases)
  case (1 draft result)
  then have "quiescent draft" by (auto simp: execute_on_def dest: execute_quiescent)
  with 1(4) show ?thesis by (simp add: quiescent_publish)
qed

lemma reachable_quiescent: "reachable_core h k l lims co \<Longrightarrow> quiescent (co_state co)"
  by (induction rule: reachable_core.induct) (auto simp: core_new_def quiescent_new dest: apply_quiescent)

end
