(* ===== verification/Control.thy ===== *)
theory Control
  imports Growth Quiescence
begin

text \<open>
  Control of work that is under way: cancelling a claim ends its whole causal subtree and nothing
  else, and adopting a receipt fences the previous holder for good.
\<close>

section \<open>The command and what follows it\<close>

lemma apply_command:
  assumes "apply_mutation h k co q pm = Inr (res, co')" "base (co_state co)" "claims_wf (co_state co)"
  obtains result R where
    "command_step (input_ctx h (co_limits co) (pm_input pm) q) (fresh_reducer (co_state co)) = Inr (result, R)"
    "state_grows (r_state R) (co_state co')"
  using assms(1)
proof (cases rule: apply_cases)
  case (1 draft result)
  let ?cx = "input_ctx h (co_limits co) (pm_input pm) q"
  from 1(2) have "execute_domain_on ?cx (co_state co) = Inr (draft, result, ap_deltas res, ap_effects res)"
    by (simp add: execute_on_def input_ctx_def)
  then show thesis
  proof (cases rule: execute_domain_cases)
    case (1 R R')
    have m: "micros ?cx (fresh_reducer (co_state co)) R" using command_step_micros [OF 1(1)] assms(2) by simp
    have sv: "serves h (r_state (fresh_reducer (co_state co))) ?cx"
      using \<open>unat q = Suc (unat (st_sequence (co_state co)))\<close> by (simp add: serves_def)
    have "base (r_state R)" using micros_base [OF m] assms(2) by simp
    moreover have "claims_wf (r_state R)" using wf.steps [OF m sv] assms(2,3) by simp
    moreover have "serves h (r_state R) ?cx" using sv micros_frame [OF m] by (simp add: serves_def)
    ultimately have "state_grows (r_state R) draft"
      using growth.steps_grow [OF propagate_micros [OF 1(2)]] 1(4) by simp
    moreover have "state_grows draft (co_state co')"
      using growth.unpublished \<open>co' = co\<lparr>co_state := publish (input_key (pm_input pm)) (ap_receipt res) q draft\<rparr>\<close> by simp
    ultimately show thesis using that [OF 1(1)] growth.transitive by blast
  qed
qed

lemma grown_claim:
  assumes "state_grows s s'" "claim_at s i = Some c"
  obtains c' where "claim_at s' i = Some c'" "claim_grows c c'"
  using assms unfolding state_grows_def table_grows_def by blast

section \<open>Cancellation\<close>

definition causes :: "state \<Rightarrow> (claim_id \<times> claim_id) set" where
  "causes s = {(i, j). \<exists>c. claim_at s j = Some c \<and> cause (so_content c) = Some (CauseClaim i)}"

definition cancelled_row :: "ctx \<Rightarrow> claim_id \<Rightarrow> claim_status \<Rightarrow> claim_id \<Rightarrow> claim \<Rightarrow> claim" where
  "cancelled_row cx root st i c =
     (if is_terminal (status_of c) then c else advance_claim cx (if i = root then st else Cancelled) (Some root) c)"

lemma caused_children_set: "set (caused_children s i) = {j. (i, j) \<in> causes s}"
  by (force simp: caused_children_def causes_def bm_iter_get [symmetric])

lemma cancel_visit_row:
  assumes "cancel_visit cx root st i r = Inr (u, r')"
  obtains c where "claim_at (r_state r) i = Some c" "st_claims (r_state r') = bm_insert i (cancelled_row cx root st i c) (st_claims (r_state r))"
proof -
  from assms obtain c where c: "claim_at (r_state r) i = Some c"
    and run: "(if is_active (status_of c) then set_status cx i (if i = root then st else Cancelled) (Some root)
       else ret ()) r = Inr (u, r')"
    unfolding cancel_visit_def by auto
  have same: "bm_insert i c (st_claims (r_state r)) = st_claims (r_state r)"
    by (rule bm_ext) (simp add: c)
  from run c have "st_claims (r_state r') = bm_insert i (cancelled_row cx root st i c) (st_claims (r_state r))"
    by (auto simp: cancelled_row_def same split: if_splits)
  with that c show thesis by blast
qed

text \<open>
  The loop: the rows of the visited claims are cancelled, the others are as they were; children of
  visited claims are visited or queued, and everything visited or queued descends from the root.
\<close>

definition cancel_inv :: "ctx \<Rightarrow> claim_id \<Rightarrow> claim_status \<Rightarrow> state \<Rightarrow> claim_id set \<Rightarrow> claim_id set \<Rightarrow> state \<Rightarrow> bool" where
  "cancel_inv cx root st s seen queue s' \<longleftrightarrow>
     (\<forall>i. claim_at s' i = map_option (if i \<in> seen then cancelled_row cx root st i else id) (claim_at s i))
     \<and> causes s `` seen \<subseteq> seen \<union> queue \<and> root \<in> seen \<union> queue
     \<and> seen \<union> queue \<subseteq> (causes s)\<^sup>* `` {root}"

lemma cancelled_row_content [simp]: "so_content (cancelled_row cx root st i c) = so_content c"
  by (simp add: cancelled_row_def)

lemma cancel_inv_causes:
  assumes "cancel_inv cx root st s seen queue s'"
  shows "causes s' = causes s"
proof -
  have "claim_at s' j = map_option (if j \<in> seen then cancelled_row cx root st j else id) (claim_at s j)" for j
    using assms by (simp add: cancel_inv_def)
  then show ?thesis by (auto simp: causes_def)
qed

lemma cancel_inv_visit:
  assumes "cancel_inv cx root st s seen (insert i queue) (r_state r)" "i \<notin> seen"
    "cancel_visit cx root st i r = Inr (u, r')"
  shows "cancel_inv cx root st s (insert i seen) (set (caused_children (r_state r) i) \<union> queue) (r_state r')"
  using assms(3)
proof (rule cancel_visit_row)
  fix c
  assume c: "claim_at (r_state r) i = Some c"
    and r': "st_claims (r_state r') = bm_insert i (cancelled_row cx root st i c) (st_claims (r_state r))"
  have rows: "claim_at (r_state r) j = map_option (if j \<in> seen then cancelled_row cx root st j else id) (claim_at s j)" for j
    using assms(1) by (simp add: cancel_inv_def)
  with c assms(2) have ci: "claim_at s i = Some c" by (simp add: option.map_id)
  have kids: "set (caused_children (r_state r) i) = causes s `` {i}"
    by (auto simp: caused_children_set cancel_inv_causes [OF assms(1)])
  have "claim_at (r_state r') j = map_option (if j \<in> insert i seen then cancelled_row cx root st j else id) (claim_at s j)" for j
    using rows [of j] ci by (simp add: r')
  moreover have i: "i \<in> (causes s)\<^sup>* `` {root}" using assms(1) by (simp add: cancel_inv_def)
  have "causes s `` {i} \<subseteq> (causes s)\<^sup>* `` {root}" using i by (auto intro: rtrancl_into_rtrancl)
  ultimately show ?thesis using assms(1) unfolding cancel_inv_def kids by auto
qed

lemma cancel_loop_inv:
  assumes "cancel_loop cx root st seen queue r = Inr (u, r')" "cancel_inv cx root st s (bs_set seen) (set queue) (r_state r)"
  shows "cancel_inv cx root st s ((causes s)\<^sup>* `` {root}) {} (r_state r')"
  using assms
proof (induction cx root st seen queue r rule: cancel_loop.induct)
  case (1 cx root st seen r)
  then have inv: "cancel_inv cx root st s (bs_set seen) {} (r_state r)" and r: "r' = r" by auto
  then have "causes s `` bs_set seen \<subseteq> bs_set seen" "root \<in> bs_set seen" "bs_set seen \<subseteq> (causes s)\<^sup>* `` {root}"
    by (auto simp: cancel_inv_def)
  then have "bs_set seen = (causes s)\<^sup>* `` {root}"
    using Image_closed_trancl [of "causes s" "bs_set seen"] by blast
  with inv r show ?case by simp
next
  case (2 cx root st seen i queue r)
  show ?case
  proof (cases "bs_contains seen i")
    case True
    with "2.prems" have "cancel_inv cx root st s (bs_set seen) (set queue) (r_state r)"
      by (auto simp: cancel_inv_def bs_contains_iff)
    with True 2 show ?thesis by simp
  next
    case False
    with "2.prems"(1) have lim: "\<not> bm_len (bs_insert i seen) > lim_max_graph_visits (cx_limits cx)" by (auto split: if_splits)
    with False "2.prems"(1) obtain r1 where v: "cancel_visit cx root st i r = Inr ((), r1)"
      and rec: "cancel_loop cx root st (bs_insert i seen) (rev (caused_children (r_state r) i) @ queue) r1 = Inr (u, r')"
      by (auto split: sum.splits)
    have "cancel_inv cx root st s (bs_set (bs_insert i seen)) (set (rev (caused_children (r_state r) i) @ queue)) (r_state r1)"
      using cancel_inv_visit [OF _ _ v, of s "bs_set seen" "set queue"] "2.prems"(2) False
      by (simp add: bs_contains_iff)
    from "2.IH"(2) [OF False lim v _ rec this] show ?thesis by simp
  qed
qed

lemma cancel_tree_rows:
  assumes "cancel_tree cx root st r = Inr (u, r')"
  shows "claim_at (r_state r') i = map_option
    (if (root, i) \<in> (causes (r_state r))\<^sup>* then cancelled_row cx root st i else id) (claim_at (r_state r) i)"
proof -
  have "cancel_inv cx root st (r_state r) (bs_set bm_empty) (set [root]) (r_state r)"
    by (simp add: cancel_inv_def option.map_id)
  from cancel_loop_inv [OF assms [unfolded cancel_tree_def] this] show ?thesis
    unfolding cancel_inv_def by (simp add: Image_singleton_iff)
qed

lemma cancel_command:
  assumes "cmd_cancel_claim cx i m r = Inr (res, r')"
  obtains c where "claim_at (r_state r) i = Some c" "\<not> is_terminal (status_of c)"
    "au_runtime (authority cx) \<or> issuer (so_content c) = Some (principal cx)"
    "\<And>j. claim_at (r_state r') j = map_option
      (if (i, j) \<in> (causes (r_state r))\<^sup>* then cancelled_row cx i Cancelled j else id) (claim_at (r_state r) j)"
proof -
  from assms obtain c where c: "claim_at (r_state r) i = Some c" "\<not> is_terminal (status_of c)"
    "au_runtime (authority cx) \<or> issuer (so_content c) = Some (principal cx)"
    and t: "cancel_tree cx i Cancelled r = Inr ((), r')"
    unfolding cmd_cancel_claim_def by auto
  show thesis by (rule that [OF c cancel_tree_rows [OF t]])
qed

lemma cancel_applied:
  assumes "apply_mutation h k co q pm = Inr (res, co')" "base (co_state co)" "claims_wf (co_state co)"
    "ai_command (pm_input pm) = CancelClaim i m"
  shows "(\<exists>c. claim_at (co_state co') i = Some c \<and> status_of c = Cancelled)
    \<and> (\<forall>j c. claim_at (co_state co) j = Some c \<longrightarrow> (i, j) \<in> (causes (co_state co))\<^sup>* \<longrightarrow>
        (\<exists>c'. claim_at (co_state co') j = Some c' \<and> is_terminal (status_of c')
           \<and> (\<not> is_terminal (status_of c) \<longrightarrow> status_of c' = Cancelled \<and> cl_terminal_witness (so_lifecycle c') = Some i)))"
  using assms(1-3)
proof (rule apply_command)
  fix result R
  let ?cx = "input_ctx h (co_limits co) (pm_input pm) q"
  assume "command_step ?cx (fresh_reducer (co_state co)) = Inr (result, R)"
    and g: "state_grows (r_state R) (co_state co')"
  then have "cmd_cancel_claim ?cx i m (fresh_reducer (co_state co)) = Inr (result, R)"
    by (simp add: command_step_def assms(4))
  then show ?thesis
  proof (rule cancel_command)
    fix c0
    assume c0: "claim_at (r_state (fresh_reducer (co_state co))) i = Some c0" "\<not> is_terminal (status_of c0)"
      and rows: "\<And>j. claim_at (r_state R) j = map_option (if (i, j) \<in> (causes (r_state (fresh_reducer (co_state co))))\<^sup>*
         then cancelled_row ?cx i Cancelled j else id) (claim_at (r_state (fresh_reducer (co_state co))) j)"
    have all: "\<exists>c'. claim_at (co_state co') j = Some c' \<and> is_terminal (status_of c')
           \<and> (\<not> is_terminal (status_of c) \<longrightarrow> status_of c' = Cancelled \<and> cl_terminal_witness (so_lifecycle c') = Some i)"
      if c: "claim_at (co_state co) j = Some c" "(i, j) \<in> (causes (co_state co))\<^sup>*" for j c
    proof -
      let ?d = "cancelled_row ?cx i Cancelled j c"
      have d: "claim_at (r_state R) j = Some ?d" using rows [of j] c by simp
      have t: "is_terminal (status_of ?d)" by (simp add: cancelled_row_def)
      from g d obtain c' where "claim_at (co_state co') j = Some c'" "claim_grows ?d c'" by (rule grown_claim)
      with t show ?thesis by (auto simp: claim_grows_def cancelled_row_def)
    qed
    with c0 show ?thesis by fastforce
  qed
qed

section \<open>Receipt fencing\<close>

text \<open>
  The commands with a receipt fence and the claim whose receipt it is compared with; a fenced verdict
  names its claim through the run it belongs to.
\<close>

fun presented_fence :: "state \<Rightarrow> command \<Rightarrow> (claim_id \<times> receipt_fence) option" where
  "presented_fence s (RecordProgress i f _) = Some (i, f)"
| "presented_fence s (BeginEvidenceSet i f _) = Some (i, f)"
| "presented_fence s (AttachArtifact i f _ _) = Some (i, f)"
| "presented_fence s (CloseTestament i f _ _ _ _ _ _) = Some (i, f)"
| "presented_fence s (AdoptReceipt i f _ _ _) = Some (i, f)"
| "presented_fence s (RecordFencedValidationVerdict v f) = (case (bm_get (st_runs s) (vr_run v), f) of
      (Some x, Some f) \<Rightarrow> Some (run_claim x, f)
    | _ \<Rightarrow> None)"
| "presented_fence s _ = None"

lemma presented_fence_current:
  assumes "command_step cx r = Inr (res, r')" "presented_fence (r_state r) (di_command (cx_input cx)) = Some (i, f)"
  shows "\<exists>c rc. claim_at (r_state r) i = Some c \<and> cl_receipt (so_lifecycle c) = Some rc \<and> rc_fence rc = f"
  using assms unfolding command_step_def
  by (cases "di_command (cx_input cx)")
    (auto simp: cmd_record_progress_def cmd_begin_evidence_set_def cmd_attach_artifact_def cmd_close_testament_def
      cmd_adopt_receipt_def cmd_fenced_verdict_def split: option.splits)

lemma presented_applied:
  assumes "apply_mutation h k co q pm = Inr (res, co')"
    "presented_fence (co_state co) (ai_command (pm_input pm)) = Some (i, f)"
  shows "\<exists>c rc. claim_at (co_state co) i = Some c \<and> cl_receipt (so_lifecycle c) = Some rc \<and> rc_fence rc = f"
  using assms(1)
proof (cases rule: apply_cases)
  case (1 draft result)
  let ?cx = "input_ctx h (co_limits co) (pm_input pm) q"
  from 1(2) have "execute_domain_on ?cx (co_state co) = Inr (draft, result, ap_deltas res, ap_effects res)"
    by (simp add: execute_on_def input_ctx_def)
  then show ?thesis
  proof (cases rule: execute_domain_cases)
    case (1 R R')
    from presented_fence_current [OF 1(1), of i f] assms(2) show ?thesis by simp
  qed
qed

lemma adopt_command:
  assumes "cmd_adopt_receipt cx i previous rid holder e r = Inr (res, r')"
  shows "checked_add (fence_epoch previous) 1 = Some e
    \<and> (\<exists>c. claim_at (r_state r') i = Some (with_receipt
          \<lparr>rc_fence = ReceiptFence rid e, rc_holder = holder, rc_acquired = cx_sequence cx\<rparr> c))"
  using assms unfolding cmd_adopt_receipt_def Let_def with_receipt_def by auto

lemma adopt_applied:
  assumes "apply_mutation h k co q pm = Inr (res, co')" "base (co_state co)" "claims_wf (co_state co)"
    "ai_command (pm_input pm) = AdoptReceipt i previous rid holder e"
  shows "\<exists>c rc. claim_at (co_state co') i = Some c \<and> cl_receipt (so_lifecycle c) = Some rc
    \<and> fence_epoch previous < fence_epoch (rc_fence rc)"
  using assms(1-3)
proof (rule apply_command)
  fix result R
  let ?cx = "input_ctx h (co_limits co) (pm_input pm) q"
  assume "command_step ?cx (fresh_reducer (co_state co)) = Inr (result, R)"
    and g: "state_grows (r_state R) (co_state co')"
  then have "cmd_adopt_receipt ?cx i previous rid holder e (fresh_reducer (co_state co)) = Inr (result, R)"
    by (simp add: command_step_def assms(4))
  from adopt_command [OF this] obtain c0 where "checked_add (fence_epoch previous) 1 = Some e"
    "claim_at (r_state R) i = Some (with_receipt \<lparr>rc_fence = ReceiptFence rid e, rc_holder = holder, rc_acquired = q\<rparr> c0)"
    by auto
  then have "\<exists>c rc. claim_at (r_state R) i = Some c \<and> cl_receipt (so_lifecycle c) = Some rc
      \<and> checked_add (fence_epoch previous) 1 = Some (fence_epoch (rc_fence rc))"
    by (simp add: so_lifecycle_update)
  then obtain c rc where c: "claim_at (r_state R) i = Some c" "cl_receipt (so_lifecycle c) = Some rc"
    "checked_add (fence_epoch previous) 1 = Some (fence_epoch (rc_fence rc))" by blast
  from g c(1) obtain c' where c': "claim_at (co_state co') i = Some c'" "claim_grows c c'" by (rule grown_claim)
  then obtain rc' where "cl_receipt (so_lifecycle c') = Some rc'" "fence_epoch (rc_fence rc) \<le> fence_epoch (rc_fence rc')"
    using c(2) by (auto simp: claim_grows_def receipt_grows_def)
  moreover have "fence_epoch previous < fence_epoch (rc_fence rc)" using c(3) by (rule checked_add_one_less)
  ultimately show ?thesis using c'(1) by (auto intro: order.strict_trans2)
qed

lemma adopted_fenced:
  assumes "reachable_core h k l lims co" "apply_mutation h k co q pm = Inr (res, co1)"
    "ai_command (pm_input pm) = AdoptReceipt i previous rid holder e" "later_core h k co1 co2"
    "presented_fence (co_state co2) (ai_command (pm_input pm')) = Some (i, previous)"
  shows "\<not> (\<exists>x. apply_mutation h k co2 q' pm' = Inr x)"
proof
  assume "\<exists>x. apply_mutation h k co2 q' pm' = Inr x"
  then obtain res' co3 where "apply_mutation h k co2 q' pm' = Inr (res', co3)" by auto
  from presented_applied [OF this assms(5)] obtain c2 rc2 where c2: "claim_at (co_state co2) i = Some c2"
    "cl_receipt (so_lifecycle c2) = Some rc2" "rc_fence rc2 = previous" by blast
  from adopt_applied [OF assms(2) reachable_base [OF assms(1)] wf.reachable [OF assms(1)] assms(3)]
  obtain c1 rc1 where c1: "claim_at (co_state co1) i = Some c1" "cl_receipt (so_lifecycle c1) = Some rc1"
    "fence_epoch previous < fence_epoch (rc_fence rc1)" by blast
  have "reachable_core h k l lims co1" using assms(1,2) by (rule reachable_core.applied)
  from growth.later [OF assms(4) this] c1(1) obtain c where "claim_at (co_state co2) i = Some c" "claim_grows c1 c"
    by (rule grown_claim)
  with c2 c1 show False by (auto simp: claim_grows_def receipt_grows_def)
qed

end
