(* ===== verification/Scenario.thy ===== *)
theory Scenario
  imports Engine
begin

text \<open>
  A concrete session, used to evaluate the model: an issuer (participant 10) and a subject
  (participant 11) take one claim from generation to satisfaction, with the sample host and
  codec standing in for the hash function and the serializer.
\<close>

section \<open>Authored contents\<close>

definition ex_ledger :: ledger_id where
  "ex_ledger = LedgerId 1 2"

definition ex_limits :: limits where
  "ex_limits = limits_default\<lparr>lim_max_objects := 100, lim_max_graph_visits := 1000\<rparr>"

definition ex_at :: "state \<Rightarrow> core" where
  "ex_at s = \<lparr>co_state = s, co_limits = ex_limits\<rparr>"

definition ex_handler :: handler_ref where
  "ex_handler = \<lparr>hd_id = 7, hd_version = 8, hd_agentic = False\<rparr>"

definition ex_delivery :: validation_content where
  "ex_delivery = \<lparr>vc_ledger = ex_ledger, vc_schema = 1, vc_claim = 100, vc_kind = VK_Receipt,
     vc_phase = PH_WholeWork, vc_mode = MO_Required, vc_description = ''d'', vc_quality_bar = None,
     vc_evaluator = 10, vc_handlers = [], vc_evidence_schemas = bm_empty,
     vc_contributed_by = bm_empty, vc_policy_revision = 0\<rparr>"

definition ex_test :: validation_content where
  "ex_test = \<lparr>vc_ledger = ex_ledger, vc_schema = 1, vc_claim = 100, vc_kind = VK_Test,
     vc_phase = PH_WholeWork, vc_mode = MO_Required, vc_description = ''t'', vc_quality_bar = None,
     vc_evaluator = 10, vc_handlers = [ex_handler], vc_evidence_schemas = bm_empty,
     vc_contributed_by = bm_empty, vc_policy_revision = 0\<rparr>"

definition ex_content :: claim_content where
  "ex_content = \<lparr>cc_ledger = ex_ledger, cc_schema = 1, cc_occurrence = 3, cc_description = ''work'',
     cc_relations = bs_of_list [Relation RK_Issuer (TParticipant 10), Relation RK_Subject (TParticipant 11),
       Relation RK_ClaimAction (TAction AT_Work), Relation RK_CausedBy (TRoot 5)],
     cc_scopes = bm_empty,
     cc_requirements = [RequirementRef 101 115, RequirementRef 102 165],
     cc_deadline = None\<rparr>"

definition ex_proposal :: new_claim where
  "ex_proposal = \<lparr>nc_id = 100, nc_content = ex_content,
     nc_validations = [\<lparr>nv_id = 101, nv_content = ex_delivery\<rparr>, \<lparr>nv_id = 102, nv_content = ex_test\<rparr>]\<rparr>"

definition ex_evidence :: artifact_content where
  "ex_evidence = \<lparr>ac_ledger = ex_ledger, ac_schema = 1, ac_kind = ''log'',
     ac_schema_hash = 9, ac_metadata = [], ac_payload = Inline [1, 2, 3], ac_producer = 11,
     ac_receipt = Some (ReceiptFence 200 1), ac_inputs = bm_empty, ac_visibility = bm_empty\<rparr>"

definition ex_testament :: testament_content where
  "ex_testament = \<lparr>tc_ledger = ex_ledger, tc_schema = 1, tc_claim = 100, tc_receipt = ReceiptFence 200 1,
     tc_evidence_set = 300, tc_artifacts = [ArtifactRef 400 153], tc_summary = ''ok'',
     tc_confidence = CF_Committed, tc_outcome = OC_Complete\<rparr>"

subsection \<open>Their identities under the sample host\<close>

lemmas codec_eval = hash_result_def canonical_bytes_def enc_new_def enc_fixed_def enc_u16_def enc_u32_def
  enc_u64_def enc_length_def enc_seq_def enc_each_def as_bytes_def enc_raw_bytes_def enc_string_def
  enc_finish_def enc_ledger_def enc_object_ref_def enc_receipt_def enc_artifacts_def
  enc_relation_target_def sample_host_def u32_of_len_def authored_tag_def ex_ledger_def

lemma bm_keys_insert: "bm_keys (bm_insert k v m) = map fst (al_insert k v (bm_iter m))"
  by (simp add: bm_keys_def)

lemma ex_relations:
  "bm_keys (cc_relations ex_content) =
     [Relation RK_Issuer (TParticipant 10), Relation RK_Subject (TParticipant 11),
      Relation RK_ClaimAction (TAction AT_Work), Relation RK_CausedBy (TRoot 5)]"
  by (simp add: ex_content_def bs_of_list_def bm_keys_def, simp add: bs_insert_def, simp add: less_relation_def)

lemma ex_relations_len: "bm_len (cc_relations ex_content) = 4"
  using arg_cong [OF ex_relations, of length] by (simp add: bm_len_def bm_keys_def)

lemma ex_content_sel:
  "cc_ledger ex_content = LedgerId 1 2" "cc_schema ex_content = 1" "cc_occurrence ex_content = 3"
  "cc_description ex_content = ''work''" "cc_scopes ex_content = bm_empty"
  "cc_requirements ex_content = [RequirementRef 101 115, RequirementRef 102 165]"
  "cc_deadline ex_content = None"
  by (simp_all add: ex_content_def ex_ledger_def)

lemma ex_delivery_sel:
  "vc_ledger ex_delivery = LedgerId 1 2" "vc_schema ex_delivery = 1" "vc_claim ex_delivery = 100"
  "vc_kind ex_delivery = VK_Receipt" "vc_phase ex_delivery = PH_WholeWork" "vc_mode ex_delivery = MO_Required"
  "vc_description ex_delivery = ''d''" "vc_quality_bar ex_delivery = None" "vc_evaluator ex_delivery = 10"
  "vc_handlers ex_delivery = []" "vc_evidence_schemas ex_delivery = bm_empty"
  "vc_contributed_by ex_delivery = bm_empty" "vc_policy_revision ex_delivery = 0"
  by (simp_all add: ex_delivery_def ex_ledger_def)

lemma ex_test_sel:
  "vc_ledger ex_test = LedgerId 1 2" "vc_schema ex_test = 1" "vc_claim ex_test = 100"
  "vc_kind ex_test = VK_Test" "vc_phase ex_test = PH_WholeWork" "vc_mode ex_test = MO_Required"
  "vc_description ex_test = ''t''" "vc_quality_bar ex_test = None" "vc_evaluator ex_test = 10"
  "vc_handlers ex_test = [ex_handler]" "vc_evidence_schemas ex_test = bm_empty"
  "vc_contributed_by ex_test = bm_empty" "vc_policy_revision ex_test = 0" "hd_agentic ex_handler = False"
  by (simp_all add: ex_test_def ex_ledger_def ex_handler_def)

lemma ex_evidence_sel:
  "ac_ledger ex_evidence = LedgerId 1 2" "ac_schema ex_evidence = 1" "ac_kind ex_evidence = ''log''"
  "ac_metadata ex_evidence = []" "ac_payload ex_evidence = Inline [1, 2, 3]" "ac_producer ex_evidence = 11"
  "ac_receipt ex_evidence = Some (ReceiptFence 200 1)" "ac_inputs ex_evidence = bm_empty"
  "ac_visibility ex_evidence = bm_empty"
  by (simp_all add: ex_evidence_def ex_ledger_def)

lemma ex_testament_sel:
  "tc_artifacts ex_testament = [ArtifactRef 400 153]" "tc_evidence_set ex_testament = 300"
  "tc_claim ex_testament = 100"
  by (simp_all add: ex_testament_def)

lemma ex_testament_fold:
  "\<lparr>tc_ledger = LedgerId 1 2, tc_schema = 1, tc_claim = 100, tc_receipt = ReceiptFence 200 1,
    tc_evidence_set = 300, tc_artifacts = [ArtifactRef 400 153], tc_summary = ''ok'',
    tc_confidence = CF_Committed, tc_outcome = OC_Complete\<rparr> = ex_testament"
  by (simp add: ex_testament_def ex_ledger_def)

lemma ex_parties:
  "issuer ex_content = Some 10" "subject ex_content = Some 11" "action ex_content = Some AT_Work"
  "cause ex_content = Some (CauseRoot 5)" "dependencies ex_content k = []"
  "relation_count ex_content RK_Issuer = 1" "relation_count ex_content RK_Subject = 1"
  "relation_count ex_content RK_ClaimAction = 1" "relation_count ex_content RK_CausedBy = 1"
  by (simp_all add: issuer_def subject_def action_def cause_def dependencies_def party_def ex_relations
      relation_count_def)

lemma ex_hashes:
  "claim_content_hash sample_host ex_content = Inr 219"
  "validation_content_hash sample_host ex_delivery = Inr 116"
  "validation_content_hash sample_host ex_test = Inr 166"
  "specification_hash sample_host ex_delivery = Inr 115"
  "specification_hash sample_host ex_test = Inr 165"
  "artifact_content_hash sample_host ex_evidence = Inr 153"
  "testament_content_hash sample_host ex_testament = Inr 169"
  "manifest_hash sample_host [] = Inr 30"
  "manifest_hash sample_host [ArtifactRef 400 153] = Inr 78"
  by (simp_all add: claim_content_hash_def claim_canonical_bytes_def encode_claim_body_def
      ex_content_sel ex_relations ex_relations_len codec_eval,
    simp_all add: validation_content_hash_def validation_canonical_bytes_def encode_validation_body_def
      artifact_content_hash_def artifact_canonical_bytes_def encode_artifact_body_def testament_content_hash_def
      testament_canonical_bytes_def encode_testament_body_def specification_hash_def manifest_hash_def
      encode_specification_def ex_delivery_def ex_test_def ex_handler_def ex_evidence_def ex_testament_def codec_eval)

section \<open>The session\<close>

definition ex_input :: "bool \<Rightarrow> participant_id \<Rightarrow> request_id \<Rightarrow> command \<Rightarrow> authenticated_input" where
  "ex_input rt p i c = \<lparr>ai_ledger = ex_ledger, ai_principal = p, ai_request_epoch = 1, ai_request_id = i,
     ai_expected_revision = None,
     ai_authority = \<lparr>au_runtime = rt, au_cause = CauseRoot 5, au_policy_revision = 0,
       au_logical_time = 50,
       au_evidence = [\<lparr>ea_descriptor_hash = 153, ea_custody_revision = 1, ea_durable = True, ea_schema_valid = True\<rparr>]\<rparr>,
     ai_command = c\<rparr>"

definition ex_row :: "claim_status \<Rightarrow> u64 \<Rightarrow> status_fact list \<Rightarrow> receipt option \<Rightarrow> evidence_set_id option
    \<Rightarrow> testament_id option \<Rightarrow> bool \<Rightarrow> claim" where
  "ex_row st rv hist rc e t fin = stored_new ex_content 219
     \<lparr>cl_status = st, cl_revision = rv, cl_created = 3, cl_history = hist, cl_receipt = rc,
      cl_evidence_set = e, cl_testament = t, cl_local_complete = fin, cl_released = fin, cl_terminal_witness = None\<rparr>"

definition ex_receipt :: receipt where
  "ex_receipt = \<lparr>rc_fence = ReceiptFence 200 1, rc_holder = 11, rc_acquired = 5\<rparr>"

definition ex_publish :: "participant_id \<Rightarrow> request_id \<Rightarrow> session_seq \<Rightarrow> command_result \<Rightarrow> state \<Rightarrow> state" where
  "ex_publish p i q res s = publish (RequestKey p 1 i)
     \<lparr>mr_ledger = ex_ledger, mr_key = RequestKey p 1 i, mr_sequence = q, mr_command_hash = 72, mr_outcome = res\<rparr> q s"

definition ex_window :: epoch_window where
  "ex_window = \<lparr>ew_minimum = 1, ew_admitted = bs_insert 1 bm_empty\<rparr>"

definition ex_s0 :: state where
  "ex_s0 = state_new ex_ledger"

definition ex_s1 :: state where
  "ex_s1 = ex_publish 10 1 1 (EpochAdmitted 1) (put_epoch 10 ex_window ex_s0)"

definition ex_s2 :: state where
  "ex_s2 = ex_publish 11 1 2 (EpochAdmitted 1) (put_epoch 11 ex_window ex_s1)"

definition ex_hist :: "status_fact list" where
  "ex_hist = [StatusFact Generated 3, StatusFact Posted 4, StatusFact Received 5]"

definition ex_s3 :: state where
  "ex_s3 = ex_publish 10 2 3 (ClaimsGenerated [100]) (ex_s2\<lparr>
     st_claims := bm_insert 100 (ex_row Generated 1 [StatusFact Generated 3] None None None False) bm_empty,
     st_validations := bm_insert 102 (stored_new ex_test 166 \<lparr>vl_created = 3, vl_latest_epoch = 0\<rparr>)
        (bm_insert 101 (stored_new ex_delivery 116 \<lparr>vl_created = 3, vl_latest_epoch = 0\<rparr>) bm_empty),
     st_identities := bm_insert (OK_Claim, 219) 100 (bm_insert (OK_Validation, 166) 102
        (bm_insert (OK_Validation, 116) 101 bm_empty))\<rparr>)"

definition ex_s4 :: state where
  "ex_s4 = ex_publish 10 3 4 (ClaimResult 100 Posted) (ex_s3\<lparr>
     st_claims := bm_insert 100 (ex_row Posted 2 [StatusFact Generated 3, StatusFact Posted 4] None None None False) bm_empty\<rparr>)"

definition ex_s5 :: state where
  "ex_s5 = ex_publish 11 3 5 (ReceiptResult 100 (ReceiptFence 200 1)) (ex_s4\<lparr>
     st_claims := bm_insert 100 (ex_row Received 3 ex_hist (Some ex_receipt) None None False) bm_empty\<rparr>)"

definition ex_s6 :: state where
  "ex_s6 = ex_publish 11 4 6 (EvidenceSetResult 300) (ex_s5\<lparr>
     st_claims := bm_insert 100 (ex_row Received 3 ex_hist (Some ex_receipt) (Some 300) None False) bm_empty,
     st_evidence_sets := bm_insert 300 (empty_set 300 100 (ReceiptFence 200 1)) bm_empty\<rparr>)"

definition ex_set :: "bool \<Rightarrow> evidence_set" where
  "ex_set fin = \<lparr>es_id = 300, es_claim = 100, es_receipt = ReceiptFence 200 1,
     es_artifacts = [ArtifactRef 400 153], es_closed = fin\<rparr>"

definition ex_s7 :: state where
  "ex_s7 = ex_publish 11 5 7 (ArtifactResult (ArtifactRef 400 153)) (ex_s6\<lparr>
     st_artifacts := bm_insert 400 (stored_new ex_evidence 153 \<lparr>al_created = 7, al_custody_revision = 1\<rparr>) bm_empty,
     st_evidence_sets := bm_insert 300 (ex_set False) bm_empty,
     st_identities := bm_insert (OK_Artifact, 153) 400 (st_identities ex_s6)\<rparr>)"

definition ex_s8 :: state where
  "ex_s8 = ex_publish 11 6 8 (TestamentResult 500) (ex_s7\<lparr>
     st_claims := bm_insert 100 (ex_row TestamentGenerated 4 (ex_hist @ [StatusFact TestamentGenerated 8])
       (Some ex_receipt) (Some 300) (Some 500) False) bm_empty,
     st_testaments := bm_insert 500 (stored_new ex_testament 169 \<lparr>tl_created = 8, tl_acknowledged = None\<rparr>) bm_empty,
     st_evidence_sets := bm_insert 300 (ex_set True) bm_empty,
     st_identities := bm_insert (OK_Testament, 169) 500 (st_identities ex_s7)\<rparr>)"

definition ex_delivered :: validation_run where
  "ex_delivered = receipt_run sample_host 100 (stored_new ex_delivery 116 \<lparr>vl_created = 3, vl_latest_epoch = 0\<rparr>)
     (ValidationRunId 101 169 PH_WholeWork 1) 78"

definition ex_s9 :: state where
  "ex_s9 = ex_publish 10 4 9 (ClaimResult 100 TestamentAcknowledged) (ex_s8\<lparr>
     st_claims := bm_insert 100 (ex_row TestamentAcknowledged 5
       (ex_hist @ [StatusFact TestamentGenerated 8, StatusFact TestamentAcknowledged 9])
       (Some ex_receipt) (Some 300) (Some 500) False) bm_empty,
     st_testaments := bm_insert 500 (stored_new ex_testament 169 \<lparr>tl_created = 8, tl_acknowledged = Some 9\<rparr>) bm_empty,
     st_validations := bm_insert 101 (stored_new ex_delivery 116 \<lparr>vl_created = 3, vl_latest_epoch = 1\<rparr>)
       (st_validations ex_s8),
     st_runs := bm_insert (ValidationRunId 101 169 PH_WholeWork 1) ex_delivered bm_empty\<rparr>)"

definition ex_run :: "verdict_record list \<Rightarrow> verdict_value option \<Rightarrow> validation_run" where
  "ex_run attempts final = \<lparr>run_id = ValidationRunId 102 169 PH_WholeWork 1, run_claim = 100, run_evaluator = 10,
     run_manifest = 78, run_handler_index = 0, run_quality_phase = False, run_attempts = attempts,
     run_final_verdict = final\<rparr>"

definition ex_s10 :: state where
  "ex_s10 = ex_publish 10 5 10 (ClaimResult 100 Validating) (ex_s9\<lparr>
     st_claims := bm_insert 100 (ex_row Validating 6
       (ex_hist @ [StatusFact TestamentGenerated 8, StatusFact TestamentAcknowledged 9, StatusFact Validating 10])
       (Some ex_receipt) (Some 300) (Some 500) False) bm_empty,
     st_validations := bm_insert 102 (stored_new ex_test 166 \<lparr>vl_created = 3, vl_latest_epoch = 1\<rparr>)
       (st_validations ex_s9),
     st_runs := bm_insert (ValidationRunId 102 169 PH_WholeWork 1) (ex_run [] None) (st_runs ex_s9)\<rparr>)"

definition ex_verdict :: verdict_record where
  "ex_verdict = \<lparr>vr_run = ValidationRunId 102 169 PH_WholeWork 1, vr_evaluator = 10, vr_handler = ex_handler,
     vr_attempt = 0, vr_manifest = 78, vr_value = VV_Pass, vr_evidence = []\<rparr>"

definition ex_s11 :: state where
  "ex_s11 = ex_publish 10 6 11 (ValidationResult (ValidationRunId 102 169 PH_WholeWork 1)) (ex_s10\<lparr>
     st_runs := bm_insert (ValidationRunId 102 169 PH_WholeWork 1) (ex_run [ex_verdict] (Some VV_Pass)) (st_runs ex_s10)\<rparr>)"

definition ex_s12 :: state where
  "ex_s12 = ex_publish 10 7 12 (ClaimResult 100 Satisfied) (ex_s11\<lparr>
     st_claims := bm_insert 100 (ex_row Satisfied 7
       (ex_hist @ [StatusFact TestamentGenerated 8, StatusFact TestamentAcknowledged 9, StatusFact Validating 10,
        StatusFact Satisfied 12])
       (Some ex_receipt) (Some 300) (Some 500) True) bm_empty\<rparr>)"

subsection \<open>Evaluating a request\<close>

lemmas monad_eval = ret_def fail_def bindR_def thenR_def with_state_def modifyR_def reject_if_def
  refuse_if_def ok_or_def canonicalR_def

lemmas engine_eval = commit_stage stage_def check_input_def command_hash_def command_parts_hash_eq
  check_duplicate_def check_epoch_def check_revision_def checked_add_def validate_admission_def
  validate_report_def validate_diagnostic_headroom_def execute_on_def execute_domain_on_def
  command_step_def input_key_def is_zero_def object_budget_def usize_add_def usize_max_def
  emit_def effectR_def u32_of_len_def SCHEMA_def publish_def limits_default_def sample_codec_def
  command_header_def as_bytes_def Let_def bm_len_insert bm_contains_def bs_contains_def bs_insert_def bs_last_def
  bs_of_list_def allowed_def get_claim_def require_runtime_def require_issuer_def require_holder_def
  check_text_def set_status_def claim_result_def allow_active_def

lemmas graph_eval = propagate_def propagate_failures.simps propagate_releases.simps round_visits_def
  release_round_def tracked_fixpoint_def fixpoint_loop.simps satisfied_ids_def releasable_def
  failed_dependency_def min_opt_def becomes_satisfied_def open_monitors_def unreleased_child_def bm_keys_insert bm_values_def

lemmas example_eval = ex_at_def ex_input_def ex_limits_def ex_ledger_def ex_publish_def

lemma sample_blake3 [simp]: "blake3 sample_host bs = of_nat (length bs)"
  by (simp add: sample_host_def)

lemmas state_eval = ex_s0_def ex_s1_def ex_s2_def ex_s3_def ex_s4_def ex_s5_def ex_s6_def ex_s7_def ex_s8_def
  ex_s9_def ex_s10_def ex_s11_def ex_s12_def state_new_def ex_window_def ex_row_def stored_new_def with_lifecycle_def
  ex_receipt_def ex_hist_def empty_set_def ex_set_def initial_lifecycle_def

lemmas content_eval = ex_content_sel ex_relations ex_relations_len ex_delivery_sel ex_test_sel ex_parties ex_hashes

lemmas eval = engine_eval graph_eval example_eval monad_eval state_eval content_eval

lemmas generate_eval = generate_def check_proposal_def check_fields_def check_parties_def ex_proposal_def check_validation_def check_handlers_def agentic_last_def agentic_positions_def first_opt_def
   required_receipt_def check_relation_def insert_claim_def insert_validation_def acyclicR_def check_acyclic_def
   lineage_targets_def lineage_kinds_def free_id_def admit_claim_def admit_validation_def

definition commits :: "state \<Rightarrow> authenticated_input \<Rightarrow> state \<Rightarrow> bool" where
  "commits s i s' \<longleftrightarrow> (\<exists>res. commit sample_host sample_codec (ex_at s) i = Some (res, ex_at s'))"

lemma step1: "commits ex_s0 (ex_input True 10 1 (NegotiateEpoch 1)) ex_s1"
  by (simp add: commits_def eval cmd_negotiate_epoch_def)

lemma step2: "commits ex_s1 (ex_input True 11 1 (NegotiateEpoch 1)) ex_s2"
  by (simp add: commits_def eval cmd_negotiate_epoch_def)

lemma step3: "commits ex_s2 (ex_input True 10 2 (GenerateClaim ex_proposal)) ex_s3"
  by (simp add: commits_def eval generate_eval split del: if_split)

lemma step4: "commits ex_s3 (ex_input True 10 3 (PostClaim 100)) ex_s4"
  by (simp add: commits_def eval cmd_post_claim_def newer_policy_def schedule_phase_def phase_ids_def split del: if_split)

lemma step5: "commits ex_s4 (ex_input False 11 3 (AcquireReceipt 100 200 1)) ex_s5"
  by (simp add: commits_def eval cmd_acquire_receipt_def phase_passed_def required_in_def receipt_allocated_def
      split del: if_split)

lemma step6: "commits ex_s5 (ex_input False 11 4 (BeginEvidenceSet 100 (ReceiptFence 200 1) 300)) ex_s6"
  by (simp add: commits_def eval cmd_begin_evidence_set_def split del: if_split)

lemma step7:
  "commits ex_s6 (ex_input False 11 5 (AttachArtifact 100 (ReceiptFence 200 1) 300 \<lparr>na_id = 400, na_content = ex_evidence\<rparr>)) ex_s7"
  by (simp add: commits_def eval cmd_attach_artifact_def admit_attachment_def create_artifact_def check_artifact_def
      ex_evidence_sel artifact_kind_byte_def accepts_attestation_def free_id_def attach_reference_def split del: if_split)

lemma step8:
  "commits ex_s7 (ex_input False 11 6
     (CloseTestament 100 (ReceiptFence 200 1) 500 300 [ArtifactRef 400 153] ''ok'' CF_Committed OC_Complete)) ex_s8"
  by (simp add: commits_def eval cmd_close_testament_def validate_close_def create_testament_def verify_artifacts_def
      artifact_verified_def free_id_def ex_testament_fold ex_testament_sel split del: if_split)

lemma step9: "commits ex_s8 (ex_input True 10 4 (AcknowledgeTestament 100 500)) ex_s9"
  by (simp add: commits_def eval cmd_acknowledge_testament_def verify_artifacts_def artifact_verified_def
      acknowledge_def receipt_passes_def receipt_ids_def receipt_pass_def ex_testament_sel admit_stored_requirements_def
      admit_validation_def ex_delivered_def receipt_run_def receipt_verdict_def split del: if_split)

lemma step10: "commits ex_s9 (ex_input True 10 5 (BeginWholeWorkValidation 100)) ex_s10"
  by (simp add: commits_def eval cmd_begin_whole_work_def phase_complete_def required_in_def ex_testament_sel
      schedule_phase_def phase_ids_def schedule_def scheduled_for_def new_run_def first_opt_def ex_run_def
      admit_stored_requirements_def admit_validation_def ex_delivered_def receipt_run_def receipt_verdict_def split del: if_split)

lemma step11: "commits ex_s10 (ex_input True 10 6 (RecordValidationVerdict ex_verdict)) ex_s11"
  by (simp add: commits_def eval record_verdict_def ex_verdict_def ex_run_def control_fenced_def check_verdict_def
     verdict_state_ok_def phase_active_def nth_opt_def verify_artifacts_def check_evidence_def accept_verdict_def
     advance_run_def next_handler_def split del: if_split)

lemma step12: "commits ex_s11 (ex_input True 10 7 (CompleteWholeWork 100)) ex_s12"
  by (simp add: commits_def eval cmd_complete_whole_work_def aggregate_def runs_of_def less_validation_run_id_def ex_run_def ex_delivered_def
     receipt_run_def complete_local_def admit_stored_requirements_def admit_validation_def release_claim_def split del: if_split)

lemma commits_stage:
  assumes "commits s i s'"
  obtains pm res where "stage sample_host sample_codec (ex_at s) i = Inr (pm, res, s')"
  using assms by (auto simp: commits_def commit_stage ex_at_def split: sum.splits)

end
