(* ===== verification/Examples.thy ===== *)
theory Examples
  imports Evidence Coordination Requests DeltaLog Control Scenario
begin

text \<open>
  The concrete session as a served, reachable core, with two variations of it: the issuer cancels
  the claim instead of completing it, and the runtime moves the receipt to another holder.
\<close>

text \<open>A host whose hash tells commands apart.\<close>

definition summing_host :: host where
  "summing_host = sample_host\<lparr>blake3 := (\<lambda>bs. of_nat (sum_list (map unat bs)))\<rparr>"

section \<open>The session is served\<close>

lemma commits_served:
  assumes "commits s i s'" "served sample_host sample_codec ex_ledger ex_limits (ex_at s)"
  shows "served sample_host sample_codec ex_ledger ex_limits (ex_at s')"
  using assms by (auto simp: commits_def intro: served.committed)

lemma commits_serves_on:
  assumes "serves_on sample_host sample_codec co (ex_at s)" "commits s i s'"
  shows "serves_on sample_host sample_codec co (ex_at s')"
  using assms by (auto simp: commits_def intro: serves_on.committed)

lemma serves_on_later: "serves_on h k co co' \<Longrightarrow> later_core h k co co'"
proof (induction rule: serves_on.induct)
  case (committed co' input res co'')
  from committed(2) show ?case by (rule commit_cases) (rule later_core.applied [OF committed(3)])
qed (rule later_core.same)

lemma commits_applied:
  assumes "commits s i s'"
  obtains pm res where "apply_mutation sample_host sample_codec (ex_at s) (st_sequence s + 1) pm = Inr (res, ex_at s')"
    "pm_input pm = i"
proof -
  from assms obtain res where "commit sample_host sample_codec (ex_at s) i = Some (res, ex_at s')" by (auto simp: commits_def)
  then show thesis by (rule commit_cases) (use that in \<open>auto simp: ex_at_def\<close>)
qed

lemma ex_served0: "served sample_host sample_codec ex_ledger ex_limits (ex_at ex_s0)"
  using served.start [of sample_host sample_codec ex_ledger ex_limits]
  by (simp add: core_new_def ex_at_def ex_s0_def)

lemma ex_served2: "served sample_host sample_codec ex_ledger ex_limits (ex_at ex_s2)"
  by (rule commits_served [OF step2 commits_served [OF step1 ex_served0]])

lemma ex_served4: "served sample_host sample_codec ex_ledger ex_limits (ex_at ex_s4)"
  by (rule commits_served [OF step4 commits_served [OF step3 ex_served2]])

lemma ex_served5: "served sample_host sample_codec ex_ledger ex_limits (ex_at ex_s5)"
  by (rule commits_served [OF step5 ex_served4])

lemma ex_served8: "served sample_host sample_codec ex_ledger ex_limits (ex_at ex_s8)"
  by (rule commits_served [OF step8 commits_served [OF step7 commits_served [OF step6 ex_served5]]])

lemma ex_served11: "served sample_host sample_codec ex_ledger ex_limits (ex_at ex_s11)"
  by (rule commits_served [OF step11 commits_served [OF step10 commits_served [OF step9 ex_served8]]])

lemma ex_served12: "served sample_host sample_codec ex_ledger ex_limits (ex_at ex_s12)"
  by (rule commits_served [OF step12 ex_served11])

lemmas ex_reachable5 = served_reachable [OF ex_served5]
lemmas ex_reachable11 = served_reachable [OF ex_served11]
lemmas ex_reachable12 = served_reachable [OF ex_served12]

lemma ex_serves_3_12: "serves_on sample_host sample_codec (ex_at ex_s3) (ex_at ex_s12)"
  by (rule commits_serves_on [OF _ step12], rule commits_serves_on [OF _ step11], rule commits_serves_on [OF _ step10],
    rule commits_serves_on [OF _ step9], rule commits_serves_on [OF _ step8], rule commits_serves_on [OF _ step7],
    rule commits_serves_on [OF _ step6], rule commits_serves_on [OF _ step5], rule commits_serves_on [OF _ step4],
    rule serves_on.same)

lemmas ex_later_3_12 = serves_on_later [OF ex_serves_3_12]

section \<open>Cancellation and adoption\<close>

definition ex_cancelled :: state where
  "ex_cancelled = ex_publish 10 4 6 (ClaimResult 100 Cancelled) (ex_s5\<lparr>
     st_claims := bm_insert 100 (stored_new ex_content 219
       \<lparr>cl_status = Cancelled, cl_revision = 4, cl_created = 3, cl_history = ex_hist @ [StatusFact Cancelled 6],
        cl_receipt = Some ex_receipt, cl_evidence_set = None, cl_testament = None, cl_local_complete = False,
        cl_released = True, cl_terminal_witness = Some 100\<rparr>) bm_empty\<rparr>)"

lemma step_cancel: "commits ex_s5 (ex_input True 10 4 (CancelClaim 100 ''stop'')) ex_cancelled"
  by (simp add: commits_def eval cmd_cancel_claim_def cancel_tree_def cancel_visit_def caused_children_def
      is_active_def release_claim_def ex_cancelled_def split del: if_split)

definition ex_adopted :: state where
  "ex_adopted = ex_publish 10 4 6 (ReceiptResult 100 (ReceiptFence 201 2)) (ex_s5\<lparr>
     st_claims := bm_insert 100 (ex_row Received 3 ex_hist
       (Some \<lparr>rc_fence = ReceiptFence 201 2, rc_holder = 12, rc_acquired = 6\<rparr>) None None False) bm_empty\<rparr>)"

lemma step_adopt: "commits ex_s5 (ex_input True 10 4 (AdoptReceipt 100 (ReceiptFence 200 1) 201 12 2)) ex_adopted"
  by (simp add: commits_def eval cmd_adopt_receipt_def receipt_allocated_def refence_open_set_def ex_adopted_def
      split del: if_split)

end
