(* ===== verification/Spec2Isabelle.thy ===== *)
theory Spec2Isabelle
  imports CanonicalFormat Examples
begin

text \<open>
  Verification of the V1 session engine of focal.

  \<^bold>\<open>The program.\<close>  A focal session is a ledger of claims.  Participants submit authenticated
  commands; a deterministic core checks each command against the published state, executes it on a
  draft, propagates its consequences through the claim graph, and publishes the draft together with
  a receipt, the deltas and the effect intents of the command.  The engine is two crates:
  \<open>focal-model\<close> holds the vocabulary, the stored objects, their canonical identity and the
  commands; \<open>focal-core\<close> holds the reducer, the claim graph, the validation runs, the admission
  policy and the ordered core that prepares and applies mutations.

  \<^bold>\<open>Model of focal-model.\<close>
  \<^item> \<open>Vocabulary\<close>: every enum of \<open>vocabulary.rs\<close> with its \<open>u16\<close> codes, its \<open>ALL\<close> table and its
    decoder; the locale \<open>vocabulary\<close> is interpreted for each of them.
  \<^item> \<open>Objects\<close>: \<open>ids.rs\<close>, \<open>objects.rs\<close> and the queries of \<open>semantics_v1.rs\<close>.  Identifiers are 128-bit
    words, content hashes 256-bit words, structs are records.
  \<^item> \<open>Canonical\<close>: the identity encoder of \<open>canonical.rs\<close> with its sticky error; \<open>CanonicalFormat\<close> states
    the byte format and that it can be read back.
  \<^item> \<open>Commands\<close>: \<open>command.rs\<close>, \<open>digest.rs\<close> and the command hash of \<open>canonical.rs\<close>, with the tags of
    \<open>durable_v1/commands.rs\<close>.

  \<^bold>\<open>Model of focal-core.\<close>
  \<^item> \<open>Reducer\<close>: the ledger state of \<open>lib.rs\<close> as the record \<open>state\<close>, the reducer of \<open>reduce.rs\<close> as a state and
    error monad, its guards, status changes, deltas and effects.
  \<^item> \<open>Generate\<close>, \<open>Propagation\<close>, \<open>ReduceCommands\<close>: \<open>generate\<close>, \<open>cancel_tree\<close> and \<open>propagate\<close>, and one
    definition per arm of \<open>Reducer::command\<close>, all of \<open>reduce.rs\<close>.
  \<^item> \<open>GraphRules\<close>: \<open>graph.rs\<close>; \<open>ValidationRules\<close>: \<open>validation.rs\<close>; \<open>Admission\<close>: \<open>admission.rs\<close>.
  \<^item> \<open>Engine\<close>: \<open>Core::new\<close>, \<open>prepare\<close> and \<open>apply_recorded\<close> of \<open>lib.rs\<close>, \<open>stage_recorded\<close> of \<open>pending.rs\<close> and
    the version dispatch of \<open>execution.rs\<close>.  \<open>stage\<close> is the whole of \<open>stage_recorded\<close> on a core with no
    pending prefix, \<open>commit\<close> is \<open>prepare\<close> followed by \<open>apply_mutation\<close>.

  \<^bold>\<open>What is shown.\<close>
  \<^item> \<open>ReducerFacts\<close>, \<open>GenerateFacts\<close> and \<open>GraphFacts\<close> say what success of each operation means.  The
    satisfaction loop computes the least fixed point, the lineage check is sound, the deadlock search
    finds the strongly connected component (C22 to C24).
  \<^item> \<open>Steps\<close> is an abstract ledger machine, one guarded rule per kind of row update, and \<open>Refinement\<close>
    proves that every command and the propagation are sequences of its steps (C2).
    \<open>StepFacts\<close> and \<open>Evolution\<close> give, for each table, how a step changes a row.
  \<^item> \<open>Reachability\<close> carries an invariant of the machine to all reachable cores (locales
    \<open>ledger_invariant\<close> and \<open>dependent_invariant\<close>), and \<open>Growth\<close> an order (locale \<open>ledger_order\<close>).  They are
    interpreted in \<open>Lifecycle\<close> (C9, C10), \<open>Identity\<close> (C11), \<open>Structure\<close> (C12), \<open>Evidence\<close> (C13), \<open>Runs\<close>
    (C14), \<open>Completion\<close> (C3, C15, C21), \<open>Coordination\<close> (C16) and \<open>Growth\<close> (C8).
  \<^item> \<open>Quiescence\<close>: a command leaves nothing to propagate (C4).  \<open>Requests\<close>: receipts, retries, key reuse
    and capacity (C5 to C7, C20).  \<open>DeltaLog\<close>: the deltas tell every status change (C17).  \<open>Control\<close>:
    cancellation and receipt adoption (C18, C19).
  \<^item> C1 relates preparation and application; C25 to C28 are the canonical bytes and the digest.
  \<^item> \<open>Scenario\<close> and \<open>Examples\<close> run a concrete session from generation to satisfaction; the witnesses
    evaluate the model on it.

  \<^bold>\<open>Conventions.\<close>  Integers of fixed width are words, with \<open>checked_add\<close> where the source checks;
  \<open>usize\<close> is a natural number with an explicit bound (\<open>usize_add\<close>, \<open>usize_max\<close>).  A \<open>BTreeMap\<close> is the
  subtype \<open>btree_map\<close> of key-sorted association lists (\<open>BTree\<close>), so iteration order is the source's.
  Errors are values of the source's error enums.  There is no fuel: every loop is a total function.
  The loops over the graph are bounded by the number of claims, as termination measure and, where the
  source has one, as the visit budget it checks.

  \<^bold>\<open>Parameters.\<close>  The record \<open>host\<close> holds the digest (\<open>blake3\<close>, outside the sources) and the allocator
  (whether \<open>try_reserve\<close> of a size succeeds); the record \<open>codec\<close> holds the \<open>postcard\<close> serialisation.
  Both are arguments of every definition that uses them.  A host is a function of its arguments: the
  same reservation is answered alike each time, so failures of the allocator that come and go between
  two executions of one command are outside the model, and the theorems that compare two executions
  (C1, C5, C6) compare them on one host.  No theorem assumes that the digest is free of
  collisions: the statements are about equal hashes.

  \<^bold>\<open>Not modelled.\<close>  Staging on an unpublished prefix with row overlays and access planning
  (\<open>pending.rs\<close>, \<open>overlay.rs\<close>, \<open>access.rs\<close>, \<open>epoch.rs\<close>): the model stages on the committed state and leaves
  out the basis stamp and the workspace accounting of the recorder.  The managed ingress and
  reconciliation views, the durable V1 struct codecs, and the native successor engine.  All other crates:
  they store, replicate, transport or display what this engine decides.
\<close>

section \<open>Preparing and applying\<close>

text \<open>
  C1.  Preparation and application agree: a request that stages successfully on a core is
  applied by that core at the next sequence number with exactly the staged result and the
  staged state, so replaying a prepared record on the same host never fails and never diverges
  from what its proposer was told.  The host is the parameter h of both sides: its digest and its
  allocator answer alike at staging and at application.
\<close>

theorem prepared_mutation_applies:
  assumes "stage h k co input = Inr (pm, res, s')"
  shows "apply_mutation h k co (st_sequence (co_state co) + 1) pm = Inr (res, co\<lparr>co_state := s'\<rparr>)"
  using assms by (rule stage_apply)

theorem prepared_mutation_applies_witness:
  "\<exists>pm res. stage sample_host sample_codec (ex_at ex_s2) (ex_input True 10 2 (GenerateClaim ex_proposal))
       = Inr (pm, res, ex_s3)
     \<and> apply_mutation sample_host sample_codec (ex_at ex_s2) 3 pm = Inr (res, ex_at ex_s3)"
proof -
  let ?co = "ex_at ex_s2" and ?input = "ex_input True 10 2 (GenerateClaim ex_proposal)"
  obtain pm res where st: "stage sample_host sample_codec ?co ?input = Inr (pm, res, ex_s3)"
    using step3 by (rule commits_stage)
  have "st_sequence (co_state ?co) + 1 = 3" by (simp add: ex_at_def ex_s2_def ex_publish_def publish_def)
  with st prepared_mutation_applies [OF st] show ?thesis by (auto simp: ex_at_def)
qed

section \<open>Refinement of the abstract machine\<close>

text \<open>
  C2.  Refinement.  On every reachable core, an applied mutation is a sequence of guarded steps of
  the abstract ledger machine, from the published state with an empty log to the draft it
  publishes with exactly the deltas and effects it reports.
\<close>

theorem application_refines_machine:
  assumes "reachable_core h k l lims co" "apply_mutation h k co q pm = Inr (res, co')"
  shows "\<exists>draft. micros (input_ctx h lims (pm_input pm) q) (fresh_reducer (co_state co))
         \<lparr>r_state = draft, r_deltas = ap_deltas res, r_effects = ap_effects res\<rparr>
       \<and> co_state co' = publish (input_key (pm_input pm)) (ap_receipt res) q draft"
  using assms(2) reachable_base [OF assms(1)]
  by (rule apply_micros) (use reachable_frame [OF assms(1)] in auto)

theorem application_refines_machine_witness:
  "\<exists>pm res draft. apply_mutation sample_host sample_codec (ex_at ex_s5) 6 pm = Inr (res, ex_at ex_cancelled)
     \<and> micros (input_ctx sample_host ex_limits (pm_input pm) 6) (fresh_reducer ex_s5)
         \<lparr>r_state = draft, r_deltas = ap_deltas res, r_effects = ap_effects res\<rparr>"
proof -
  obtain pm res where "apply_mutation sample_host sample_codec (ex_at ex_s5) (st_sequence ex_s5 + 1) pm = Inr (res, ex_at ex_cancelled)"
    using step_cancel by (rule commits_applied)
  then have "apply_mutation sample_host sample_codec (ex_at ex_s5) 6 pm = Inr (res, ex_at ex_cancelled)"
    by (simp add: ex_s5_def ex_publish_def publish_def)
  with application_refines_machine [OF ex_reachable5 this] show ?thesis by (auto simp: ex_at_def)
qed

section \<open>Satisfaction is earned\<close>

text \<open>
  C3.  A claim is satisfied only when it has earned it: on every reachable core a satisfied claim is
  locally complete, every required validation stored for it has at least one run and all its runs
  ended in a pass, every claim it depends on is satisfied and every claim it awaits is terminal.
\<close>

theorem satisfied_claims_earned:
  assumes "reachable_core h k l lims co" "claim_at (co_state co) i = Some c" "status_of c = Satisfied"
  shows "cl_local_complete (so_lifecycle c)
    \<and> (\<forall>j v. bm_get (st_validations (co_state co)) j = Some v \<longrightarrow> vc_claim (so_content v) = i
        \<longrightarrow> vc_mode (so_content v) = MO_Required \<longrightarrow> validated (co_state co) j)
    \<and> (\<forall>d \<in> set (dependencies (so_content c) RK_DependsOn). satisfied_at (co_state co) d)
    \<and> (\<forall>d \<in> set (dependencies (so_content c) RK_Awaits). terminal_at (co_state co) d)"
  using satisfied_earned [OF assms] by blast

theorem satisfied_claims_earned_witness:
  "(\<exists>c. claim_at (co_state (ex_at ex_s12)) 100 = Some c \<and> status_of c = Satisfied)
     \<and> validated (co_state (ex_at ex_s12)) 101 \<and> validated (co_state (ex_at ex_s12)) 102"
proof -
  obtain c where c: "claim_at (co_state (ex_at ex_s12)) 100 = Some c" "status_of c = Satisfied"
    by (simp add: ex_at_def ex_s12_def ex_publish_def ex_row_def stored_new_def)
  note all = satisfied_claims_earned [OF ex_reachable12 c]
  obtain v v' where "bm_get (st_validations (co_state (ex_at ex_s12))) 101 = Some v" "vc_claim (so_content v) = 100"
      "vc_mode (so_content v) = MO_Required"
    and "bm_get (st_validations (co_state (ex_at ex_s12))) 102 = Some v'" "vc_claim (so_content v') = 100"
      "vc_mode (so_content v') = MO_Required"
    by (simp add: ex_at_def state_eval ex_publish_def ex_delivery_sel ex_test_sel)
  with all c show ?thesis by blast
qed

section \<open>Nothing is left to propagate\<close>

text \<open>
  C4.  Every reachable core is quiescent: no active claim depends on a failed one, every claim the
  satisfaction rule can satisfy is satisfied, every terminal claim whose causal children are
  released is released, and every monitor whose owner is released or whose wait set holds has
  been released.  So failure, success and release always travel as far as they can within the
  command that causes them.
\<close>

theorem reachable_cores_quiescent:
  assumes "reachable_core h k l lims co"
  shows "quiescent (co_state co)"
  using assms by (rule reachable_quiescent)

theorem reachable_cores_quiescent_witness: "quiescent (co_state (ex_at ex_s12))"
  by (rule reachable_cores_quiescent [OF ex_reachable12])

section \<open>Request identity\<close>

text \<open>
  C5.  A committed request is idempotent for ever: however many further requests the session has
  served, submitting it again answers with the receipt of its first commit and changes nothing.
\<close>

theorem retries_return_first_receipt:
  assumes "served h k l lims co" "commit h k co input = Some (res, co1)" "serves_on h k co1 co2"
  shows "stage h k co2 input = Inl (Duplicate (ap_receipt res)) \<and> commit h k co2 input = None"
  using retry_answered [OF assms] by (simp add: commit_stage)

theorem retries_return_first_receipt_witness:
  "\<exists>res. commit sample_host sample_codec (ex_at ex_s2) (ex_input True 10 2 (GenerateClaim ex_proposal)) = Some (res, ex_at ex_s3)
     \<and> stage sample_host sample_codec (ex_at ex_s12) (ex_input True 10 2 (GenerateClaim ex_proposal))
         = Inl (Duplicate (ap_receipt res))"
proof -
  obtain res where "commit sample_host sample_codec (ex_at ex_s2) (ex_input True 10 2 (GenerateClaim ex_proposal)) = Some (res, ex_at ex_s3)"
    using step3 by (auto simp: commits_def)
  with retries_return_first_receipt [OF ex_served2 this ex_serves_3_12] show ?thesis by blast
qed

text \<open>
  C6.  A request key identifies one command: on every later core, a request with the key of a
  committed one whose command does not hash alike is refused and so changes nothing.  The refusal
  is the one of the input check when the request is malformed, a schema error when its command
  cannot be hashed, and an idempotency conflict in every other case, whatever the command is.
\<close>

theorem key_reuse_refused:
  assumes "served h k l lims co" "commit h k co input = Some (res, co1)" "serves_on h k co1 co2"
    "input_key other = input_key input" "command_hash h k other \<noteq> command_hash h k input"
  shows "stage h k co2 other = (case check_input k co2 other of
      Inl e \<Rightarrow> Inl e
    | Inr _ \<Rightarrow> (case command_hash h k other of
        Inl _ \<Rightarrow> Inl (Refuse EC_InvalidSchema)
      | Inr _ \<Rightarrow> Inl (Refuse EC_IdempotencyConflict)))"
  using assms by (rule reuse_refused)

theorem key_reuse_refused_witness:
  "\<exists>res co1. commit summing_host sample_codec (core_new ex_ledger ex_limits) (ex_input True 10 1 (NegotiateEpoch 1)) = Some (res, co1)
     \<and> stage summing_host sample_codec co1 (ex_input True 10 1 (PostClaim 100)) = Inl (Refuse EC_IdempotencyConflict)"
proof -
  let ?h = summing_host and ?k = sample_codec and ?co = "core_new ex_ledger ex_limits"
  let ?a = "ex_input True 10 1 (NegotiateEpoch 1)" and ?b = "ex_input True 10 1 (PostClaim 100)"
  obtain res co1 where c: "commit ?h ?k ?co ?a = Some (res, co1)"
    by (simp add: core_new_def summing_host_def eval cmd_negotiate_epoch_def)
  then have chk: "check_input ?k co1 ?b = Inr ()"
    by (auto simp: core_new_def summing_host_def eval cmd_negotiate_epoch_def)
  have "sum_list (map unat (be_bytes (1 :: u16))) = 1" "sum_list (map unat (be_bytes (5 :: u16))) = 5"
    by code_simp+
  then obtain x where x: "command_hash ?h ?k ?b = Inr x" "command_hash ?h ?k ?b \<noteq> command_hash ?h ?k ?a"
    by (simp add: summing_host_def eval)
  have "input_key ?b = input_key ?a" by (simp add: input_key_def ex_input_def)
  from key_reuse_refused [OF served.start c serves_on.same this x(2)] c chk x(1) show ?thesis by auto
qed

text \<open>
  C7.  The receipts of a served session are its serial order: they are stored under their own key
  and ledger, and carry exactly the sequence numbers from one to the current one, each once.
\<close>

theorem receipts_number_requests:
  assumes "served h k l lims co"
  shows "{unat (mr_sequence rc) | key rc. bm_get (st_receipts (co_state co)) key = Some rc}
      = {1 .. unat (st_sequence (co_state co))}
    \<and> bm_len (st_receipts (co_state co)) = unat (st_sequence (co_state co))
    \<and> (\<forall>key rc. bm_get (st_receipts (co_state co)) key = Some rc \<longrightarrow> mr_key rc = key \<and> mr_ledger rc = l)"
  using served_requests_ok [OF assms] requests_ok_sequences reachable_frame [OF served_reachable [OF assms]]
  by (auto simp: requests_ok_def)

theorem receipts_number_requests_witness:
  "bm_len (st_receipts (co_state (ex_at ex_s12))) = unat (st_sequence (co_state (ex_at ex_s12)))"
  using receipts_number_requests [OF ex_served12] by blast

section \<open>What never changes\<close>

text \<open>
  C8.  The ledger is append-only: on every later core each stored claim, validation, artifact,
  testament, evidence set, run and monitor is still there with the same content and content hash;
  status histories and verdict attempts are extended only at the end; a terminal claim can still
  be released and changes in nothing else, a released one not at all; finished runs, closed
  evidence sets and released monitors no longer change; receipt epochs only rise.
\<close>

theorem ledger_append_only:
  assumes "reachable_core h k l lims co" "later_core h k co co'"
  shows "state_grows (co_state co) (co_state co')"
  using assms(2,1) by (rule growth.later)

theorem ledger_append_only_witness:
  "state_grows (co_state (ex_at ex_s3)) (co_state (ex_at ex_s12))
     \<and> claim_at (co_state (ex_at ex_s3)) 100 \<noteq> claim_at (co_state (ex_at ex_s12)) 100"
proof -
  have "reachable_core sample_host sample_codec ex_ledger ex_limits (ex_at ex_s3)"
    by (rule served_reachable [OF commits_served [OF step3 ex_served2]])
  from ledger_append_only [OF this ex_later_3_12] show ?thesis
    by (simp add: ex_at_def ex_s3_def ex_s12_def ex_publish_def ex_row_def stored_new_def)
qed

section \<open>Invariants of reachable cores\<close>

text \<open>
  C9.  Status histories are paths of the claim state machine: the history of every claim starts in
  Generated at the sequence the claim was created, moves only along lifecycle edges with
  non-decreasing sequence numbers, ends in the current status no later than the current sequence,
  and its length is the revision of the claim.
\<close>

theorem histories_are_lifecycle_paths:
  assumes "reachable_core h k l lims co" "claim_at (co_state co) i = Some c"
  shows "history_ok (st_sequence (co_state co)) (so_lifecycle c)"
  using history.reachable [OF assms(1)] assms(2) by (simp add: histories_def)

theorem histories_are_lifecycle_paths_witness:
  "\<exists>c. claim_at (co_state (ex_at ex_s12)) 100 = Some c \<and> length (cl_history (so_lifecycle c)) = 7
     \<and> history_ok (st_sequence (co_state (ex_at ex_s12))) (so_lifecycle c)"
proof -
  obtain c where c: "claim_at (co_state (ex_at ex_s12)) 100 = Some c" "length (cl_history (so_lifecycle c)) = 7"
    by (simp add: ex_at_def ex_s12_def ex_publish_def ex_row_def stored_new_def ex_hist_def)
  with histories_are_lifecycle_paths [OF ex_reachable12 c(1)] show ?thesis by blast
qed

text \<open>
  C10.  The lifecycle of a claim is well formed in every status: work in progress and reported work
  hold a receipt with nonzero identifier and epoch, unreceived work holds none; reported work has
  a testament, a testament has an evidence set; satisfaction implies local completion, local
  completion occurs only at validation or later, and only terminal claims are released.
\<close>

theorem claims_well_formed:
  assumes "reachable_core h k l lims co" "claim_at (co_state co) i = Some c"
  shows "claim_wf (so_lifecycle c)"
  using wf.reachable [OF assms(1)] assms(2) by (rule claims_wfD)

theorem claims_well_formed_witness:
  "\<exists>c. claim_at (co_state (ex_at ex_s5)) 100 = Some c \<and> status_of c = Received \<and> claim_wf (so_lifecycle c)"
proof -
  obtain c where c: "claim_at (co_state (ex_at ex_s5)) 100 = Some c" "status_of c = Received"
    by (simp add: ex_at_def ex_s5_def ex_publish_def ex_row_def stored_new_def)
  with claims_well_formed [OF ex_reachable5 c(1)] show ?thesis by blast
qed

text \<open>
  C11.  Stored objects are what their hash says: every claim, validation, artifact and testament of a
  reachable core belongs to its ledger, has a nonzero identifier that no object of another kind
  uses, and carries the hash of its canonical content.  The identity index maps the hash of each
  claim, artifact and testament to that object, so none of them is stored twice; it maps the hash
  of each validation to a stored validation of that hash, which is shared by validations of equal
  content; and it has no entry that does not name a stored object of its kind and hash.
\<close>

theorem objects_content_addressed:
  assumes "reachable_core h k l lims co"
  shows "identity_ok h (co_state co)"
  using assms by (rule identity.reachable)

theorem objects_content_addressed_witness: "identity_ok sample_host (co_state (ex_at ex_s12))"
  by (rule objects_content_addressed [OF ex_reachable12])

text \<open>
  C12.  The claim graph is structurally sound: causation, supersession and amendment are acyclic,
  every relation to an object points to an existing claim of the same ledger, every claim has
  exactly one issuer, subject, action and cause, its requirements are stored validations pinned to
  it by specification hash with one required receipt validation, and every stored validation is a
  requirement of its claim.
\<close>

theorem claim_graph_structured:
  assumes "reachable_core h k l lims co"
  shows "structured h (co_state co)"
  using assms by (rule shape.reachable)

theorem claim_graph_structured_witness: "structured sample_host (co_state (ex_at ex_s12))"
  by (rule claim_graph_structured [OF ex_reachable12])

text \<open>
  C13.  Evidence is accounted for: every evidence set lists distinct stored artifacts for an existing
  claim, every closed set is named by exactly one testament with the same claim and the same
  manifest, the testament and evidence set a claim refers to are its own, and a claim whose report
  was acknowledged has an acknowledged testament.
\<close>

theorem evidence_accounted_for:
  assumes "reachable_core h k l lims co"
  shows "evidence_ok (co_state co) \<and> reports_ok (co_state co)"
  using reachable_evidence [OF assms] by blast

theorem evidence_accounted_for_witness:
  "evidence_ok (co_state (ex_at ex_s12)) \<and> reports_ok (co_state (ex_at ex_s12))"
  by (rule evidence_accounted_for [OF ex_reachable12])

text \<open>
  C14.  Validation runs follow their requirement: a run belongs to a stored validation with its claim,
  evaluator and phase, its attempts are numbered from zero by its own evaluator on its own
  manifest and walk the declared handlers in order, its final verdict is that of the last attempt,
  and it makes at most one attempt per declared handler (one for a built-in receipt pass).
\<close>

theorem runs_follow_requirements:
  assumes "reachable_core h k l lims co" "bm_get (st_runs (co_state co)) key = Some x"
  shows "run_ok h (co_state co) x
    \<and> (\<forall>v. bm_get (st_validations (co_state co)) (ri_validation (run_id x)) = Some v
        \<longrightarrow> length (run_attempts x) \<le> max 1 (length (vc_handlers (so_content v))))"
proof -
  have ok: "run_ok h (co_state co) x" using reachable_runs_ok [OF assms(1)] assms(2) by (simp add: runs_ok_def)
  then show ?thesis
    by (auto simp: run_ok_def built_in_def walks_def split: option.splits dest!: walked_length)
qed

theorem runs_follow_requirements_witness:
  "\<exists>key x. bm_get (st_runs (co_state (ex_at ex_s12))) key = Some x \<and> run_final_verdict x = Some VV_Pass
     \<and> run_ok sample_host (co_state (ex_at ex_s12)) x"
proof -
  obtain x where x: "bm_get (st_runs (co_state (ex_at ex_s12))) (ValidationRunId 102 169 PH_WholeWork 1) = Some x"
    "run_final_verdict x = Some VV_Pass"
    by (simp add: ex_at_def ex_s12_def ex_s11_def ex_publish_def ex_run_def)
  with runs_follow_requirements [OF ex_reachable12 x(1)] show ?thesis by blast
qed

text \<open>
  C15.  Dependencies gate work: on every reachable core a claim that was ever received has all its
  dependencies satisfied and its required admission validations passed, and a claim that failed
  through a dependency was never received and names a failed dependency as its witness.
\<close>

theorem dependencies_gate_work:
  assumes "reachable_core h k l lims co" "claim_at (co_state co) i = Some c"
  shows "(cl_receipt (so_lifecycle c) \<noteq> None \<longrightarrow>
        (\<forall>d \<in> set (dependencies (so_content c) RK_DependsOn). satisfied_at (co_state co) d)
        \<and> (\<forall>j v. bm_get (st_validations (co_state co)) j = Some v \<longrightarrow> vc_claim (so_content v) = i
            \<longrightarrow> vc_mode (so_content v) = MO_Required \<longrightarrow> vc_phase (so_content v) = PH_Admission
            \<longrightarrow> validated (co_state co) j))
    \<and> (status_of c = DependencyFailed \<longrightarrow> cl_receipt (so_lifecycle c) = None
        \<and> (\<exists>d \<in> set (dependencies (so_content c) RK_DependsOn).
            cl_terminal_witness (so_lifecycle c) = Some d \<and> failed_at (co_state co) d))"
  using reachable_completion(2,3) [OF assms(1)] assms(2)
  by (auto simp: completion_ok_def dependencies_ok_def deps_ok_def)

theorem dependencies_gate_work_witness:
  "\<exists>c. claim_at (co_state (ex_at ex_s5)) 100 = Some c \<and> cl_receipt (so_lifecycle c) \<noteq> None
     \<and> (\<forall>d \<in> set (dependencies (so_content c) RK_DependsOn). satisfied_at (co_state (ex_at ex_s5)) d)"
proof -
  obtain c where c: "claim_at (co_state (ex_at ex_s5)) 100 = Some c" "cl_receipt (so_lifecycle c) \<noteq> None"
    by (simp add: ex_at_def ex_s5_def ex_publish_def ex_row_def stored_new_def)
  with dependencies_gate_work [OF ex_reachable5 c(1)] show ?thesis by blast
qed

text \<open>
  C16.  Participants are coordinated: on every reachable core no two claims hold a receipt of the same
  identifier, the admitted request epochs of each participant are one contiguous nonempty window
  starting at its floor, and every monitor has an existing owner and a nonempty set of existing
  roots.
\<close>

theorem participants_coordinated:
  assumes "reachable_core h k l lims co"
  shows "coordinated (co_state co)"
  using assms by (rule coordination.reachable)

theorem participants_coordinated_witness: "coordinated (co_state (ex_at ex_s12))"
  by (rule participants_coordinated [OF ex_reachable12])

text \<open>
  C20.  Capacity bounds what a session stores: a reachable core never holds more objects than
  the object limit, and a served one never more receipts than the request limit.
\<close>

theorem capacity_respected:
  assumes "served h k l lims co"
  shows "stored_objects (co_state co) \<le> lim_max_objects lims
    \<and> bm_len (st_receipts (co_state co)) \<le> lim_max_requests lims"
  using reachable_bound [OF served_reachable [OF assms]] served_bound [OF assms] by blast

theorem capacity_respected_witness:
  "stored_objects (co_state (ex_at ex_s12)) \<le> 100 \<and> 0 < stored_objects (co_state (ex_at ex_s12))"
  using capacity_respected [OF ex_served12]
  by (simp add: ex_limits_def ex_at_def state_eval ex_publish_def stored_objects_def bm_len_insert bm_contains_def)

section \<open>The delta log\<close>

text \<open>
  C17.  The deltas of a mutation tell its whole effect on claim statuses: they are numbered from zero
  under the mutation's sequence number and actor; appending the logged statuses to the histories
  before the mutation gives the histories after it, for every claim; each entry names the status it
  replaces; and the status of a claim afterwards is the last one logged for it.
\<close>

theorem deltas_replay_statuses:
  assumes "reachable_core h k l lims co" "apply_mutation h k co q pm = Inr (res, co')"
  shows "(\<forall>n < length (ap_deltas res). unat (did_ordinal (de_id (ap_deltas res ! n))) = n
        \<and> did_sequence (de_id (ap_deltas res ! n)) = q \<and> did_ledger (de_id (ap_deltas res ! n)) = l
        \<and> de_actor (ap_deltas res ! n) = ai_principal (pm_input pm))
    \<and> (\<forall>i. history_at (co_state co') i = history_at (co_state co) i
            @ map (\<lambda>p. StatusFact (snd p) q) (status_changes i (ap_deltas res))
        \<and> linked (status_at (co_state co) i) (status_changes i (ap_deltas res))
        \<and> status_at (co_state co') i = final_status (status_at (co_state co) i) (status_changes i (ap_deltas res)))"
proof -
  have log: "logged (input_ctx h (co_limits co) (pm_input pm) q) (co_state co)
    \<lparr>r_state = co_state co', r_deltas = ap_deltas res, r_effects = ap_effects res\<rparr>"
    by (rule apply_logged [OF assms(2) reachable_base [OF assms(1)]])
  have "st_ledger (co_state co') = l" using reachable_frame [OF reachable_core.applied [OF assms]] by simp
  moreover have "unat (of_nat n :: u32) = n" if "n < length (ap_deltas res)" for n
    using log that by (simp add: logged_def numbered_def unat_of_nat)
  ultimately show ?thesis using log by (auto simp: logged_def numbered_def replays_def)
qed

theorem deltas_replay_statuses_witness:
  "\<exists>pm res. apply_mutation sample_host sample_codec (ex_at ex_s5) 6 pm = Inr (res, ex_at ex_cancelled)
     \<and> map snd (status_changes 100 (ap_deltas res)) = [Cancelled]"
proof -
  obtain pm res where "apply_mutation sample_host sample_codec (ex_at ex_s5) (st_sequence ex_s5 + 1) pm = Inr (res, ex_at ex_cancelled)"
    using step_cancel by (rule commits_applied)
  then have a: "apply_mutation sample_host sample_codec (ex_at ex_s5) 6 pm = Inr (res, ex_at ex_cancelled)"
    by (simp add: ex_s5_def ex_publish_def publish_def)
  from deltas_replay_statuses [OF ex_reachable5 a]
  have "history_at (co_state (ex_at ex_cancelled)) 100 = history_at (co_state (ex_at ex_s5)) 100
     @ map (\<lambda>p. StatusFact (snd p) 6) (status_changes 100 (ap_deltas res))" by blast
  then have "map (\<lambda>p. StatusFact (snd p) 6) (status_changes 100 (ap_deltas res)) = [StatusFact Cancelled 6]"
    by (simp add: history_at_def ex_at_def ex_cancelled_def ex_s5_def ex_publish_def ex_row_def stored_new_def ex_hist_def)
  then have "map snd (status_changes 100 (ap_deltas res)) = [Cancelled]" by auto
  with a show ?thesis by (intro exI [of _ pm] exI [of _ res] conjI)
qed

section \<open>Control\<close>

text \<open>
  C18.  Cancelling a claim ends its whole causal subtree: afterwards the claim is Cancelled, every
  claim it caused, directly or indirectly, is terminal, and those that were active are Cancelled
  with the cancelled claim as their witness.
\<close>

theorem cancellation_ends_subtree:
  assumes "reachable_core h k l lims co" "apply_mutation h k co q pm = Inr (res, co')"
    "ai_command (pm_input pm) = CancelClaim i reason"
  shows "status_at (co_state co') i = Some Cancelled
    \<and> (\<forall>j c. claim_at (co_state co) j = Some c \<longrightarrow> (i, j) \<in> (causes (co_state co))\<^sup>* \<longrightarrow>
        (\<exists>c'. claim_at (co_state co') j = Some c' \<and> is_terminal (status_of c')
           \<and> (\<not> is_terminal (status_of c) \<longrightarrow> status_of c' = Cancelled \<and> cl_terminal_witness (so_lifecycle c') = Some i)))"
  using cancel_applied [OF assms(2) reachable_base [OF assms(1)] wf.reachable [OF assms(1)] assms(3)]
  by (auto simp: status_at_def)

theorem cancellation_ends_subtree_witness:
  "\<exists>pm res. apply_mutation sample_host sample_codec (ex_at ex_s5) 6 pm = Inr (res, ex_at ex_cancelled)
     \<and> status_at (co_state (ex_at ex_cancelled)) 100 = Some Cancelled"
proof -
  obtain pm res where "apply_mutation sample_host sample_codec (ex_at ex_s5) (st_sequence ex_s5 + 1) pm = Inr (res, ex_at ex_cancelled)"
    and i: "pm_input pm = ex_input True 10 4 (CancelClaim 100 ''stop'')"
    using step_cancel by (rule commits_applied)
  then have a: "apply_mutation sample_host sample_codec (ex_at ex_s5) 6 pm = Inr (res, ex_at ex_cancelled)"
    by (simp add: ex_s5_def ex_publish_def publish_def)
  have "ai_command (pm_input pm) = CancelClaim 100 ''stop''" by (simp add: i ex_input_def)
  from cancellation_ends_subtree [OF ex_reachable5 a this] a show ?thesis by blast
qed

text \<open>
  C19.  Adoption fences the previous holder for good: once a receipt has been adopted, no command
  presenting the previous fence on that claim is ever applied again.  The commands that present a
  fence are progress, opening an evidence set, attaching an artifact, closing a testament, a
  further adoption, and a fenced validation verdict on a run of the claim.
\<close>

theorem adopted_receipt_stays_fenced:
  assumes "reachable_core h k l lims co" "apply_mutation h k co q pm = Inr (res, co1)"
    "ai_command (pm_input pm) = AdoptReceipt i previous rid holder e" "later_core h k co1 co2"
    "presented_fence (co_state co2) (ai_command (pm_input pm')) = Some (i, previous)"
  shows "\<not> (\<exists>x. apply_mutation h k co2 q' pm' = Inr x)"
  using assms by (rule adopted_fenced)

theorem adopted_receipt_stays_fenced_witness:
  "\<not> (\<exists>x. apply_mutation sample_host sample_codec (ex_at ex_adopted) 7
      \<lparr>pm_schema = SCHEMA, pm_base = 6, pm_input = ex_input False 11 4 (RecordProgress 100 (ReceiptFence 200 1) ''late''),
       pm_command_hash = 72, pm_footprint = \<lparr>fp_ledger = ex_ledger, fp_session_exclusive = True\<rparr>\<rparr> = Inr x)"
proof -
  obtain pm res where "apply_mutation sample_host sample_codec (ex_at ex_s5) (st_sequence ex_s5 + 1) pm = Inr (res, ex_at ex_adopted)"
    and i: "pm_input pm = ex_input True 10 4 (AdoptReceipt 100 (ReceiptFence 200 1) 201 12 2)"
    using step_adopt by (rule commits_applied)
  note a = this(1)
  have c: "ai_command (pm_input pm) = AdoptReceipt 100 (ReceiptFence 200 1) 201 12 2" by (simp add: i ex_input_def)
  show ?thesis
    by (rule adopted_receipt_stays_fenced [OF ex_reachable5 a c later_core.same]) (simp add: ex_input_def)
qed

section \<open>Completion and admission\<close>

text \<open>
  C21.  The aggregate verdict of a claim is the worst one: it exists exactly when some required
  validation outside admission exists, each has a run and every such run is final, and it is then
  the most severe of their verdicts.
\<close>

theorem aggregate_is_worst_verdict:
  "aggregate s i = Some w \<longleftrightarrow> gates s i \<noteq> {} \<and> (\<forall>j \<in> gates s i. runs_of s j \<noteq> [])
     \<and> (\<forall>x \<in> gate_runs s i. \<exists>f. run_final_verdict x = Some f \<and> severity f \<le> severity w)
     \<and> (\<exists>x \<in> gate_runs s i. run_final_verdict x = Some w)"
  by (rule aggregate_Some)

theorem aggregate_is_worst_verdict_witness: "gates ex_s11 100 \<noteq> {}"
proof -
  have "aggregate ex_s11 100 = Some VV_Pass"
    by (simp add: eval aggregate_def runs_of_def less_validation_run_id_def ex_run_def ex_delivered_def receipt_run_def)
  then show ?thesis using aggregate_is_worst_verdict by blast
qed

end
